(* ===== verification/Ledger_Prelude.thy ===== *)
theory Ledger_Prelude
  imports
    Complex_Main
    "HOL-Library.Multiset"
    "HOL-Library.Char_ord"
    "HOL-Library.List_Lexorder"
    "HOL-Library.Product_Lexorder"
begin

text \<open>
  Shared vocabulary of the development: identifiers and instants, the error values of
  \<^verbatim>\<open>src/backend/app/domain/errors.py\<close>, the sequencing of fallible steps, and the generic
  facts on lists that the component theories use (first match, keep-first deduplication,
  sorting by a key, pairwise relations along a list).
\<close>

section \<open>Names of the model's types\<close>

text \<open>
  A UUID is its 128-bit integer: Python compares UUIDs as integers, and the order of
  their fixed-width hexadecimal texts is the same. An instant is a point of the UTC time
  line in microseconds, the resolution of Python datetimes and of PostgreSQL timestamptz.
\<close>

type_synonym uuid = nat
type_synonym instant = int

section \<open>Errors and fallible results\<close>

text \<open>
  One constructor per error class of \<^verbatim>\<open>domain/errors.py\<close>; the text is the constant part of
  the message. \<open>IntegrityError\<close> is the violation of a database constraint, and
  \<open>PyError\<close> any other Python exception that no handler of the service catches.
\<close>

datatype error =
    ValidationFailedError string
  | NotFoundError string
  | ConflictError string
  | PermissionDeniedError string
  | InvariantViolationError string
  | IntegrityError string
  | PyError string

type_synonym 'a result = "error + 'a"

text \<open>
  Sequencing: \<open>bindr m f\<close> runs \<open>f\<close> on the value of \<open>m\<close> and propagates its error, as a
  raised exception does; \<open>requirer c e\<close> raises \<open>e\<close> unless \<open>c\<close> holds. A service method that
  runs in one database transaction is a function into a result: an error carries no new
  state, which is the rollback.
\<close>

definition bindr :: "'e + 'a \<Rightarrow> ('a \<Rightarrow> 'e + 'b) \<Rightarrow> 'e + 'b" where
  "bindr m f = (case m of Inl e \<Rightarrow> Inl e | Inr x \<Rightarrow> f x)"

definition requirer :: "bool \<Rightarrow> 'e \<Rightarrow> 'e + unit" where
  "requirer c e = (if c then Inr () else Inl e)"

definition some_or :: "'a option \<Rightarrow> 'e \<Rightarrow> 'e + 'a" where
  "some_or x e = (case x of None \<Rightarrow> Inl e | Some y \<Rightarrow> Inr y)"

fun mapr :: "('a \<Rightarrow> 'e + 'b) \<Rightarrow> 'a list \<Rightarrow> 'e + 'b list" where
  "mapr f [] = Inr []"
| "mapr f (x # xs) = bindr (f x) (\<lambda>y. bindr (mapr f xs) (\<lambda>ys. Inr (y # ys)))"

named_theorems result_simps \<open>rewriting of fallible steps to their success conditions\<close>

lemma bindr_simps [simp]: "bindr (Inl e) f = Inl e" "bindr (Inr x) f = f x"
  by (simp_all add: bindr_def)

lemma bindr_eq_Inr [result_simps]: "bindr m f = Inr y \<longleftrightarrow> (\<exists>x. m = Inr x \<and> f x = Inr y)"
  by (cases m) simp_all

lemma bindr_eq_Inl [result_simps]:
  "bindr m f = Inl e \<longleftrightarrow> m = Inl e \<or> (\<exists>x. m = Inr x \<and> f x = Inl e)"
  by (cases m) simp_all

lemma requirer_simps [simp]: "requirer True e = Inr ()" "requirer False e = Inl e"
  by (simp_all add: requirer_def)

lemma requirer_eq_Inr [result_simps]: "requirer c e = Inr u \<longleftrightarrow> c"
  by (simp add: requirer_def)

lemma requirer_eq_Inl [result_simps]: "requirer c e = Inl e' \<longleftrightarrow> \<not> c \<and> e' = e"
  by (auto simp: requirer_def)

lemma some_or_simps [simp]: "some_or None e = Inl e" "some_or (Some x) e = Inr x"
  by (simp_all add: some_or_def)

lemma some_or_eq_Inr [result_simps]: "some_or x e = Inr y \<longleftrightarrow> x = Some y"
  by (cases x) simp_all

lemma some_or_eq_Inl [result_simps]: "some_or x e = Inl e' \<longleftrightarrow> x = None \<and> e' = e"
  by (cases x) auto

lemma mapr_Inr_map: "mapr f xs = Inr ys \<Longrightarrow> map f xs = map Inr ys"
  by (induction xs arbitrary: ys) (auto simp: result_simps)

section \<open>Lists as database tables and Python sequences\<close>

text \<open>
  \<open>dedupe_on k xs\<close> keeps the first element of every key, as \<^verbatim>\<open>DISTINCT ON\<close> keeps the first
  row of each group of an ordered result and as \<^verbatim>\<open>dict.fromkeys\<close> keeps first positions.
\<close>

function dedupe_on :: "('a \<Rightarrow> 'k) \<Rightarrow> 'a list \<Rightarrow> 'a list" where
  "dedupe_on k [] = []"
| "dedupe_on k (x # xs) = x # dedupe_on k (filter (\<lambda>y. k y \<noteq> k x) xs)"
  by pat_completeness auto
termination
  by (relation "measure (\<lambda>(k, xs). length xs)") (auto simp: less_Suc_eq_le)

lemma dedupe_on_subset: "set (dedupe_on k xs) \<subseteq> set xs"
  by (induction k xs rule: dedupe_on.induct) auto

lemma dedupe_on_keys: "k ` set (dedupe_on k xs) = k ` set xs"
proof (induction k xs rule: dedupe_on.induct)
  case (2 k x xs)
  then show ?case by auto
qed simp

lemma set_dedupe_on: "inj_on k (set xs) \<Longrightarrow> set (dedupe_on k xs) = set xs"
  by (rule inj_on_image_eq_iff [THEN iffD1, OF _ dedupe_on_subset subset_refl dedupe_on_keys])

lemma distinct_dedupe_on: "distinct (map k (dedupe_on k xs))"
proof (induction k xs rule: dedupe_on.induct)
  case (2 k x xs)
  then show ?case using dedupe_on_subset [of k "filter (\<lambda>y. k y \<noteq> k x) xs"] by auto
qed simp

lemma dedupe_on_distinct: "distinct (map k xs) \<Longrightarrow> dedupe_on k xs = xs"
proof (induction k xs rule: dedupe_on.induct)
  case (2 k x xs)
  have "filter (\<lambda>y. k y \<noteq> k x) xs = xs"
    using "2.prems" by (metis (mono_tags, lifting) distinct.simps(2) filter_True image_eqI list.simps(9) set_map)
  then show ?case using 2 by simp
qed simp

lemma sorted_wrt_dedupe_on: "sorted_wrt P xs \<Longrightarrow> sorted_wrt P (dedupe_on k xs)"
proof (induction k xs rule: dedupe_on.induct)
  case (2 k x xs)
  then show ?case
    using dedupe_on_subset [of k "filter (\<lambda>y. k y \<noteq> k x) xs"]
    by (auto intro: sorted_wrt_filter)
qed simp

text \<open>Membership in a join written as a list comprehension.\<close>

named_theorems join_simps \<open>rows of list comprehensions\<close>

lemma in_concat_map [join_simps]: "y \<in> set (concat (map g xs)) \<longleftrightarrow> (\<exists>x \<in> set xs. y \<in> set (g x))"
  by auto

lemma in_if_single [join_simps]: "(y \<in> set (if c then [x] else [])) = (c \<and> y = x)"
  by (cases c) auto

text \<open>First match in a table.\<close>

lemma find_SomeD: "find P xs = Some x \<Longrightarrow> x \<in> set xs \<and> P x"
  by (induction xs) (auto split: if_splits)

lemma find_None: "find P xs = None \<longleftrightarrow> (\<forall>x \<in> set xs. \<not> P x)"
  by (induction xs) auto

lemma find_append: "find P (xs @ ys) = (case find P xs of None \<Rightarrow> find P ys | Some x \<Rightarrow> Some x)"
  by (induction xs) auto

lemma find_unique:
  assumes "distinct (map k xs)" and "x \<in> set xs" and "P x" and "\<And>y. P y \<Longrightarrow> k y = k x"
  shows "find P xs = Some x"
  using assms(1,2)
proof (induction xs)
  case (Cons y xs)
  show ?case
  proof (cases "y = x")
    case True
    then show ?thesis using assms(3) by simp
  next
    case False
    with Cons.prems have x: "x \<in> set xs" by simp
    with Cons.prems(1) have "k y \<noteq> k x" by (metis distinct.simps(2) image_eqI list.simps(9) set_map)
    then have "\<not> P y" using assms(4) by blast
    then show ?thesis using Cons.IH Cons.prems(1) x by simp
  qed
qed simp

lemma distinct_map_eqD: "distinct (map k xs) \<Longrightarrow> x \<in> set xs \<Longrightarrow> y \<in> set xs \<Longrightarrow> k x = k y \<Longrightarrow> x = y"
  by (auto simp: distinct_map dest: inj_onD)

lemma distinct_map_via:
  assumes "distinct (map k xs)" and "\<And>x y. x \<in> set xs \<Longrightarrow> y \<in> set xs \<Longrightarrow> h x = h y \<Longrightarrow> k x = k y"
  shows "distinct (map h xs)"
  using assms(1) assms(2) unfolding distinct_map inj_on_def by blast

lemma distinct_map_concat:
  assumes "distinct (map k xs)" and "\<And>x. length (g x) \<le> 1" and "\<And>x y. y \<in> set (g x) \<Longrightarrow> h y = k x"
  shows "distinct (map h (concat (map g xs)))"
  using assms(1)
proof (induction xs)
  case (Cons x xs)
  have "g x = [] \<or> (\<exists>y. g x = [y])" using assms(2) [of x] by (cases "g x") auto
  then show ?case using Cons assms(3) by (auto simp: image_iff)
qed simp

lemma map_idI_on: "(\<And>x. x \<in> set xs \<Longrightarrow> f x = x) \<Longrightarrow> map f xs = xs"
  by (induction xs) auto

lemma filter_map_if_other:
  assumes "\<And>x. P (if Q x then f x else x) = P x"
  shows "filter P (map (\<lambda>x. if Q x then f x else x) xs) =
    map (\<lambda>x. if Q x then f x else x) (filter P xs)"
  using assms by (induction xs) auto

text \<open>A list whose elements exclude each other pairwise has at most one element with a property.\<close>

lemma sorted_wrt_exclusive:
  assumes "sorted_wrt (\<lambda>x y. \<not> (P x \<and> P y)) xs"
  shows "length (filter P xs) \<le> 1"
  using assms
proof (induction xs)
  case (Cons x xs)
  then show ?case by (cases "P x") (auto simp: filter_empty_conv)
qed simp

lemma sorted_wrt_either:
  "sorted_wrt P xs \<Longrightarrow> x \<in> set xs \<Longrightarrow> y \<in> set xs \<Longrightarrow> x \<noteq> y \<Longrightarrow> P x y \<or> P y x"
  by (induction xs) auto

lemma length_le_1_cases:
  assumes "length xs \<le> 1"
  obtains "xs = []" | x where "xs = [x]"
  using assms by (cases xs) auto

lemma insort_key_map: "insort_key k (g x) (map g ys) = map g (insort_key (\<lambda>x. k (g x)) x ys)"
  by (induction ys) simp_all

lemma sort_key_map: "sort_key k (map g xs) = map g (sort_key (\<lambda>x. k (g x)) xs)"
  by (induction xs) (simp_all add: insort_key_map)

lemma distinct_map_sort_key: "distinct (map f (sort_key k xs)) = distinct (map f xs)"
  by (rule mset_eq_imp_distinct_iff) simp

text \<open>Lists sorted by a key with distinct keys are determined by their elements.\<close>

lemma sort_key_cong_set:
  fixes k :: "'a \<Rightarrow> 'b::linorder"
  assumes "distinct (map k xs)" and "distinct (map k ys)" and "set xs = set ys"
  shows "sort_key k xs = sort_key k ys"
proof (rule map_sorted_distinct_set_unique [of k])
  show "inj_on k (set (sort_key k xs) \<union> set (sort_key k ys))"
    using assms by (simp add: distinct_map)
qed (use assms in \<open>simp_all add: distinct_map\<close>)

end
