(* ===== verification/Py_Text.thy ===== *)
theory Py_Text
  imports Ledger_Prelude
begin

text \<open>
  What the sources use of Python's \<^verbatim>\<open>str\<close>, \<^verbatim>\<open>re\<close>, \<^verbatim>\<open>datetime\<close>, \<^verbatim>\<open>decimal\<close> and \<^verbatim>\<open>json\<close>.
  A text is a list of characters, one per code point, over the code points 0 to 255
  (Latin-1); the character classes below are those of CPython on that range.
\<close>

section \<open>Characters\<close>

abbreviation code :: "char \<Rightarrow> nat" where
  "code c \<equiv> of_char c"

text \<open>\<^verbatim>\<open>str.isspace\<close>, also the class \<^verbatim>\<open>\s\<close> of \<^verbatim>\<open>re\<close> on texts.\<close>

definition is_space :: "char \<Rightarrow> bool" where
  "is_space c \<longleftrightarrow> (9 \<le> code c \<and> code c \<le> 13) \<or> (28 \<le> code c \<and> code c \<le> 32) \<or>
     code c = 133 \<or> code c = 160"

text \<open>\<^verbatim>\<open>str.isprintable\<close> for one character.\<close>

definition is_printable :: "char \<Rightarrow> bool" where
  "is_printable c \<longleftrightarrow> (32 \<le> code c \<and> code c \<le> 126) \<or> (161 \<le> code c \<and> code c \<noteq> 173)"

definition lower_char :: "char \<Rightarrow> char" where
  "lower_char c = (if (65 \<le> code c \<and> code c \<le> 90) \<or> (192 \<le> code c \<and> code c \<le> 222 \<and> code c \<noteq> 215)
     then char_of (code c + 32) else c)"

definition upper_char :: "char \<Rightarrow> char" where
  "upper_char c = (if (97 \<le> code c \<and> code c \<le> 122) \<or> (224 \<le> code c \<and> code c \<le> 254 \<and> code c \<noteq> 247)
     then char_of (code c - 32) else c)"

definition is_lower_az :: "char \<Rightarrow> bool" where
  "is_lower_az c \<longleftrightarrow> 97 \<le> code c \<and> code c \<le> 122"

definition is_digit :: "char \<Rightarrow> bool" where
  "is_digit c \<longleftrightarrow> 48 \<le> code c \<and> code c \<le> 57"

section \<open>Texts\<close>

definition lstrip :: "string \<Rightarrow> string" where
  "lstrip s = dropWhile is_space s"

definition rstrip :: "string \<Rightarrow> string" where
  "rstrip s = rev (dropWhile is_space (rev s))"

definition strip :: "string \<Rightarrow> string" where
  "strip s = rstrip (lstrip s)"

definition lower :: "string \<Rightarrow> string" where
  "lower s = map lower_char s"

definition upper :: "string \<Rightarrow> string" where
  "upper s = map upper_char s"

text \<open>\<^verbatim>\<open>str.split()\<close> without an argument: the maximal runs of non-space characters.\<close>

function split_space :: "string \<Rightarrow> string list" where
  "split_space s = (case dropWhile is_space s of
      [] \<Rightarrow> []
    | c # cs \<Rightarrow> takeWhile (\<lambda>x. \<not> is_space x) (c # cs) #
        split_space (dropWhile (\<lambda>x. \<not> is_space x) (c # cs)))"
  by pat_completeness auto

lemma dropWhile_nonspace_shorter:
  assumes "dropWhile is_space s = c # cs"
  shows "length (dropWhile (\<lambda>x. \<not> is_space x) (c # cs)) < length s"
proof -
  have c: "\<not> is_space c" using assms hd_dropWhile [of is_space s] by auto
  have "length (c # cs) \<le> length s" using assms length_dropWhile_le by metis
  moreover have "length (dropWhile (\<lambda>x. \<not> is_space x) cs) \<le> length cs"
    by (rule length_dropWhile_le)
  ultimately show ?thesis using c by simp
qed

termination split_space
  by (relation "measure length") (auto simp: dropWhile_nonspace_shorter simp del: dropWhile.simps)

declare split_space.simps [simp del]

text \<open>\<^verbatim>\<open>sep.join(parts)\<close>.\<close>

fun join :: "string \<Rightarrow> string list \<Rightarrow> string" where
  "join sep [] = []"
| "join sep [x] = x"
| "join sep (x # y # ys) = x @ sep @ join sep (y # ys)"

text \<open>\<^verbatim>\<open>re.sub(r"\s+", " ", s)\<close>: every run of spaces becomes one space.\<close>

fun collapse_space :: "string \<Rightarrow> string" where
  "collapse_space [] = []"
| "collapse_space [c] = (if is_space c then '' '' else [c])"
| "collapse_space (c # d # cs) =
     (if is_space c then (if is_space d then collapse_space (d # cs) else CHR '' '' # collapse_space (d # cs))
      else c # collapse_space (d # cs))"

text \<open>Splitting at one separator character, as \<^verbatim>\<open>s.split(sep)\<close>.\<close>

fun split_char :: "char \<Rightarrow> string \<Rightarrow> string list" where
  "split_char x [] = [[]]"
| "split_char x (c # cs) = (if c = x then [] # split_char x cs
     else (case split_char x cs of [] \<Rightarrow> [[c]] | w # ws \<Rightarrow> (c # w) # ws))"

definition starts_with :: "string \<Rightarrow> string \<Rightarrow> bool" where
  "starts_with s p \<longleftrightarrow> take (length p) s = p"

subsection \<open>Facts on stripping\<close>

lemma strip_ends:
  assumes "strip s \<noteq> []"
  shows "\<not> is_space (hd (strip s))" "\<not> is_space (last (strip s))"
proof -
  let ?l = "lstrip s"
  let ?d = "dropWhile is_space (rev ?l)"
  have d: "?d \<noteq> []" using assms by (simp add: strip_def rstrip_def)
  have l: "?l \<noteq> []" using d by auto
  have hl: "\<not> is_space (hd ?l)" using l unfolding lstrip_def by (rule hd_dropWhile)
  show "\<not> is_space (last (strip s))"
    using d hd_dropWhile [of is_space "rev ?l"] by (simp add: strip_def rstrip_def last_rev)
  obtain pre where pre: "rev ?l = pre @ ?d"
    by (metis takeWhile_dropWhile_id)
  then have "?l = rev ?d @ rev pre" by (metis rev_append rev_rev_ident)
  then have "hd (rev ?d) = hd ?l" using d by (metis hd_append2 rev_is_Nil_conv)
  then show "\<not> is_space (hd (strip s))" using hl by (simp add: strip_def rstrip_def)
qed

lemma strip_fixed:
  assumes "s \<noteq> [] \<Longrightarrow> \<not> is_space (hd s)" and "s \<noteq> [] \<Longrightarrow> \<not> is_space (last s)"
  shows "strip s = s"
proof (cases "s = []")
  case True
  then show ?thesis by (simp add: strip_def lstrip_def rstrip_def)
next
  case False
  then have l: "lstrip s = s" using assms(1) by (cases s) (auto simp: lstrip_def)
  have "dropWhile is_space (rev s) = rev s"
    using assms(2) False by (cases "rev s") (auto simp: last_rev [symmetric] hd_rev)
  then show ?thesis using l by (simp add: strip_def rstrip_def)
qed

lemma strip_idem [simp]: "strip (strip s) = strip s"
  by (rule strip_fixed) (auto simp: strip_ends)

lemma set_strip: "set (strip s) \<subseteq> set s"
  by (auto simp: strip_def rstrip_def lstrip_def dest!: set_dropWhileD)

lemma length_strip: "length (strip s) \<le> length s"
  using length_dropWhile_le [of is_space "rev (lstrip s)"] length_dropWhile_le [of is_space s]
  by (simp add: strip_def rstrip_def lstrip_def)

lemma lower_char_idem [simp]: "lower_char (lower_char c) = lower_char c"
  by (auto simp: lower_char_def)

lemma lower_idem [simp]: "lower (lower s) = lower s"
  by (simp add: lower_def)

lemma length_lower [simp]: "length (lower s) = length s"
  by (simp add: lower_def)

lemma is_space_lower [simp]: "is_space (lower_char c) = is_space c"
  by (auto simp: is_space_def lower_char_def)

lemma strip_lower_fixed: "strip (lower (strip s)) = lower (strip s)"
proof (rule strip_fixed)
  show "lower (strip s) \<noteq> [] \<Longrightarrow> \<not> is_space (hd (lower (strip s)))"
    using strip_ends(1) [of s] by (auto simp: lower_def hd_map)
  show "lower (strip s) \<noteq> [] \<Longrightarrow> \<not> is_space (last (lower (strip s)))"
    using strip_ends(2) [of s] by (auto simp: lower_def last_map)
qed

subsection \<open>Facts on splitting and joining\<close>

definition word_ok :: "string \<Rightarrow> bool" where
  "word_ok w \<longleftrightarrow> w \<noteq> [] \<and> (\<forall>c \<in> set w. \<not> is_space c)"

lemma split_space_none: "dropWhile is_space s = [] \<Longrightarrow> split_space s = []"
  by (subst split_space.simps) (simp only: list.case)

lemma split_space_some:
  assumes "dropWhile is_space s = t" and "t \<noteq> []"
  shows "split_space s = takeWhile (\<lambda>x. \<not> is_space x) t # split_space (dropWhile (\<lambda>x. \<not> is_space x) t)"
  using assms by (subst split_space.simps) (cases t, simp_all)

lemma split_space_words: "w \<in> set (split_space s) \<Longrightarrow> word_ok w"
proof (induction s arbitrary: w rule: split_space.induct)
  case (1 s)
  show ?case
  proof (cases "dropWhile is_space s")
    case Nil
    then have "split_space s = []" by (rule split_space_none)
    then show ?thesis using "1.prems" by simp
  next
    case (Cons c cs)
    have c: "\<not> is_space c" using Cons hd_dropWhile [of is_space s] by auto
    have "word_ok (takeWhile (\<lambda>x. \<not> is_space x) (c # cs))"
      using c by (auto simp: word_ok_def dest: set_takeWhileD)
    moreover have "set (split_space s) = insert (takeWhile (\<lambda>x. \<not> is_space x) (c # cs))
        (set (split_space (dropWhile (\<lambda>x. \<not> is_space x) (c # cs))))"
      using split_space_some [OF Cons] by simp
    ultimately show ?thesis using "1.IH" [OF Cons, of w] "1.prems" by auto
  qed
qed

lemma split_space_Nil [simp]: "split_space [] = []"
  by (simp add: split_space_none)

lemma split_space_Cons_space: "is_space c \<Longrightarrow> split_space (c # s) = split_space s"
  by (subst (1 2) split_space.simps) simp

lemma split_space_word:
  assumes "word_ok w"
  shows "split_space w = [w]"
proof -
  have 1: "dropWhile is_space w = w" using assms by (cases w) (auto simp: word_ok_def)
  have 2: "takeWhile (\<lambda>x. \<not> is_space x) w = w" "dropWhile (\<lambda>x. \<not> is_space x) w = []"
    using assms by (auto simp: word_ok_def takeWhile_eq_all_conv dropWhile_eq_Nil_conv)
  show ?thesis using split_space_some [OF 1] 2 assms by (simp add: word_ok_def)
qed

lemma split_space_word_append:
  assumes "word_ok w" "is_space x"
  shows "split_space (w @ x # s) = w # split_space s"
proof -
  have 1: "dropWhile is_space (w @ x # s) = w @ x # s"
    using assms by (cases w) (auto simp: word_ok_def)
  have 2: "takeWhile (\<lambda>y. \<not> is_space y) (w @ x # s) = w"
    using assms by (simp add: word_ok_def takeWhile_append)
  have 3: "dropWhile (\<lambda>y. \<not> is_space y) (w @ x # s) = x # s"
    using assms by (simp add: word_ok_def dropWhile_append)
  show ?thesis using split_space_some [OF 1] 2 3 assms by (simp add: split_space_Cons_space)
qed

lemma split_space_join:
  "\<forall>w \<in> set ws. word_ok w \<Longrightarrow> split_space (join '' '' ws) = ws"
proof (induction "'' ''" ws rule: join.induct)
  case (3 x y ys)
  have "is_space CHR '' ''" by (simp add: is_space_def)
  then show ?case using 3 split_space_word_append [of x "CHR '' ''" "join '' '' (y # ys)"] by simp
qed (auto simp: split_space_word)

end
