(* ===== verification/Py_Values.thy ===== *)
theory Py_Values
  imports Py_Text
begin

text \<open>
  Python values the sources pass around: datetimes with or without a time zone, decimals,
  and JSON values with \<^verbatim>\<open>json.dumps\<close> and \<^verbatim>\<open>==\<close>. Three library functions stay parameters, as
  fields of a \<open>runtime\<close>: SHA-256, the decimal text CPython prints for a finite float, and the
  text of a Decimal, which its value does not determine.
\<close>

section \<open>Datetimes and decimals\<close>

text \<open>
  A datetime is naive (no UTC offset) or aware; an aware one is the instant it denotes.
  PostgreSQL returns timestamptz columns as aware datetimes, so rows store instants.
\<close>

datatype pydatetime = Naive int | Aware instant

text \<open>
  What \<^verbatim>\<open>Decimal(str(x))\<close> gives: an InvalidOperation for a text that is no number, a finite
  value, an infinity, a quiet or a signalling NaN.
\<close>

datatype decimal = NotADecimal | DFinite rat | DInfinity | DNaN | DSNaN

text \<open>
  \<^verbatim>\<open>quantize(Decimal("0.001"))\<close> on a finite value: round half to even at three decimals, and
  InvalidOperation (\<open>None\<close>) when the coefficient needs more than the 28 digits of the context.
\<close>

definition round_half_even :: "rat \<Rightarrow> int" where
  "round_half_even r = (let f = \<lfloor>r\<rfloor>; d = r - of_int f in
     if d < 1/2 then f else if d > 1/2 then f + 1 else if even f then f else f + 1)"

definition quantize_milli :: "decimal \<Rightarrow> decimal option" where
  "quantize_milli d = (case d of
      DFinite r \<Rightarrow> (let n = round_half_even (r * 1000) in
        if \<bar>n\<bar> < 10 ^ 28 then Some (DFinite (of_int n / 1000)) else None)
    | DNaN \<Rightarrow> Some DNaN
    | _ \<Rightarrow> None)"

lemma round_half_even_near: "\<bar>of_int (round_half_even r) - r\<bar> \<le> 1/2"
proof -
  have f: "of_int \<lfloor>r\<rfloor> \<le> r" "r < of_int \<lfloor>r\<rfloor> + 1" by linarith+
  show ?thesis
    using f unfolding round_half_even_def Let_def by (auto simp: abs_le_iff)
qed

lemma round_half_even_int [simp]: "round_half_even (of_int n) = n"
  by (simp add: round_half_even_def)

section \<open>JSON values\<close>

text \<open>
  Values of the JSON types, plus what \<^verbatim>\<open>json.dumps\<close> cannot or may not encode: the non-finite
  floats (named by the text Python prints) and opaque objects. A dict is its items in
  insertion order, with text keys.
\<close>

datatype pyval =
    PNone
  | PBool bool
  | PInt int
  | PFloat rat
  | PNonFinite string
  | PStr string
  | PList "pyval list"
  | PDict "(string \<times> pyval) list"
  | POpaque

text \<open>Python's \<^verbatim>\<open>==\<close>: booleans, integers and floats compare as numbers, dicts by key.\<close>

fun py_num :: "pyval \<Rightarrow> rat option" where
  "py_num (PBool b) = Some (if b then 1 else 0)"
| "py_num (PInt i) = Some (of_int i)"
| "py_num (PFloat r) = Some r"
| "py_num _ = None"

fun py_eq :: "pyval \<Rightarrow> pyval \<Rightarrow> bool"
  and py_eq_list :: "pyval list \<Rightarrow> pyval list \<Rightarrow> bool"
  and py_eq_items :: "(string \<times> pyval) list \<Rightarrow> (string \<times> pyval) list \<Rightarrow> bool" where
  "py_eq PNone w = (w = PNone)"
| "py_eq (PBool b) w = (py_num w = Some (if b then 1 else 0))"
| "py_eq (PInt i) w = (py_num w = Some (of_int i))"
| "py_eq (PFloat r) w = (py_num w = Some r)"
| "py_eq (PNonFinite s) w = (s \<noteq> ''nan'' \<and> w = PNonFinite s)"
| "py_eq (PStr s) w = (w = PStr s)"
| "py_eq (PList vs) w = (case w of PList ws \<Rightarrow> py_eq_list vs ws | _ \<Rightarrow> False)"
| "py_eq (PDict kvs) w =
     (case w of PDict kws \<Rightarrow> length kvs = length kws \<and> py_eq_items kvs kws | _ \<Rightarrow> False)"
| "py_eq POpaque w = False"
| "py_eq_list [] ws = (ws = [])"
| "py_eq_list (v # vs) ws = (case ws of [] \<Rightarrow> False | w # ws' \<Rightarrow> py_eq v w \<and> py_eq_list vs ws')"
| "py_eq_items [] kws = True"
| "py_eq_items ((k, v) # kvs) kws =
     ((case map_of kws k of None \<Rightarrow> False | Some w \<Rightarrow> py_eq v w) \<and> py_eq_items kvs kws)"

section \<open>Printing\<close>

definition hex_digit :: "nat \<Rightarrow> char" where
  "hex_digit n = char_of (if n < 10 then 48 + n else 87 + n)"

fun nat_str :: "nat \<Rightarrow> string" where
  "nat_str n = (if n < 10 then [char_of (48 + n)] else nat_str (n div 10) @ [char_of (48 + n mod 10)])"

declare nat_str.simps [simp del]

definition int_str :: "int \<Rightarrow> string" where
  "int_str i = (if i < 0 then CHR ''-'' # nat_str (nat (- i)) else nat_str (nat i))"

text \<open>The fixed-width lower-case hexadecimal text of \<^verbatim>\<open>str(uuid)\<close>.\<close>

fun hex_digits :: "nat \<Rightarrow> nat \<Rightarrow> string" where
  "hex_digits 0 n = []"
| "hex_digits (Suc w) n = hex_digits w (n div 16) @ [hex_digit (n mod 16)]"

definition uuid_str :: "uuid \<Rightarrow> string" where
  "uuid_str u = (let h = hex_digits 32 u in
     take 8 h @ ''-'' @ take 4 (drop 8 h) @ ''-'' @ take 4 (drop 12 h) @ ''-'' @
     take 4 (drop 16 h) @ ''-'' @ drop 20 h)"

record json_opts =
  sort_keys :: bool
  item_sep :: string
  key_sep :: string
  ensure_ascii :: bool
  allow_nan :: bool

definition json_escape :: "bool \<Rightarrow> char \<Rightarrow> string" where
  "json_escape ascii c =
     (if c = CHR 0x22 then [CHR 0x5C, CHR 0x22]
      else if c = CHR 0x5C then [CHR 0x5C, CHR 0x5C]
      else if code c = 10 then CHR 0x5C # ''n''
      else if code c = 13 then CHR 0x5C # ''r''
      else if code c = 9 then CHR 0x5C # ''t''
      else if code c = 12 then CHR 0x5C # ''f''
      else if code c = 8 then CHR 0x5C # ''b''
      else if code c < 32 \<or> (ascii \<and> 126 < code c)
        then CHR 0x5C # ''u00'' @ [hex_digit (code c div 16), hex_digit (code c mod 16)]
      else [c])"

definition json_str :: "bool \<Rightarrow> string \<Rightarrow> string" where
  "json_str ascii s = CHR 0x22 # concat (map (json_escape ascii) s) @ [CHR 0x22]"

text \<open>
  \<^verbatim>\<open>json.dumps\<close>: \<open>None\<close> is a TypeError or a ValueError. Items are printed first and then put
  in key order, which is the same as ordering them first since dict keys are distinct.
\<close>

fun json_dumps :: "json_opts \<Rightarrow> (rat \<Rightarrow> string) \<Rightarrow> pyval \<Rightarrow> string option" where
  "json_dumps opts fr PNone = Some ''null''"
| "json_dumps opts fr (PBool b) = Some (if b then ''true'' else ''false'')"
| "json_dumps opts fr (PInt i) = Some (int_str i)"
| "json_dumps opts fr (PFloat r) = Some (fr r)"
| "json_dumps opts fr (PNonFinite s) = (if allow_nan opts
     then Some (if s = ''nan'' then ''NaN'' else if s = ''inf'' then ''Infinity'' else ''-Infinity'') else None)"
| "json_dumps opts fr (PStr s) = Some (json_str (ensure_ascii opts) s)"
| "json_dumps opts fr (PList vs) =
     map_option (\<lambda>ss. ''['' @ join (item_sep opts) ss @ '']'') (those (map (json_dumps opts fr) vs))"
| "json_dumps opts fr (PDict kvs) =
     map_option (\<lambda>kss. ''{'' @ join (item_sep opts)
         (map (\<lambda>ks. json_str (ensure_ascii opts) (fst ks) @ key_sep opts @ snd ks)
            (if sort_keys opts then sort_key fst kss else kss)) @ ''}'')
       (those (map (\<lambda>kv. map_option (Pair (fst kv)) (json_dumps opts fr (snd kv))) kvs))"
| "json_dumps opts fr POpaque = None"

text \<open>The external functions the sources call and this development does not define.\<close>

record runtime =
  sha256 :: "string \<Rightarrow> string"
  float_repr :: "rat \<Rightarrow> string"
  decimal_str :: "decimal \<Rightarrow> string"

text \<open>
  \<^verbatim>\<open>isoformat()\<close> of a UTC datetime: the proleptic Gregorian date of the day, counted from
  1970-01-01, the time, the microseconds when there are any, and the offset.
\<close>

definition civil_from_days :: "int \<Rightarrow> int \<times> int \<times> int" where
  "civil_from_days days = (let
      z = days + 719468; era = z div 146097; doe = z mod 146097;
      yoe = (doe - doe div 1460 + doe div 36524 - doe div 146096) div 365;
      doy = doe - (365 * yoe + yoe div 4 - yoe div 100);
      mp = (5 * doy + 2) div 153;
      d = doy - (153 * mp + 2) div 5 + 1;
      m = (if mp < 10 then mp + 3 else mp - 9) in
     (yoe + era * 400 + (if m \<le> 2 then 1 else 0), m, d))"

definition zero_padded :: "nat \<Rightarrow> int \<Rightarrow> string" where
  "zero_padded w n = (let s = int_str n in replicate (w - length s) CHR ''0'' @ s)"

definition iso_utc :: "instant \<Rightarrow> string" where
  "iso_utc i = (let
      (y, m, d) = civil_from_days (i div 86400000000); t = i mod 86400000000;
      us = t mod 1000000; s = t div 1000000 in
     zero_padded 4 y @ ''-'' @ zero_padded 2 m @ ''-'' @ zero_padded 2 d @ ''T'' @
     zero_padded 2 (s div 3600) @ '':'' @ zero_padded 2 (s div 60 mod 60) @ '':'' @ zero_padded 2 (s mod 60) @
     (if us = 0 then [] else ''.'' @ zero_padded 6 us) @ ''+00:00'')"

section \<open>Facts on the printed texts\<close>

lemma iso_utc_samples:
  "iso_utc 0 = ''1970-01-01T00:00:00+00:00''"
  "iso_utc 951782400000000 = ''2000-02-29T00:00:00+00:00''"
  "iso_utc 1785581999000125 = ''2026-08-01T10:59:59.000125+00:00''"
  "iso_utc (- 1000000) = ''1969-12-31T23:59:59+00:00''"
  by code_simp+

lemma length_hex_digits [simp]: "length (hex_digits w n) = w"
  by (induction w arbitrary: n) auto

definition hex_value :: "char \<Rightarrow> nat" where
  "hex_value c = (if code c < 58 then code c - 48 else code c - 87)"

lemma hex_value_digit: "n < 16 \<Longrightarrow> hex_value (hex_digit n) = n"
  by (simp add: hex_value_def hex_digit_def)

lemma hex_digit_inj: "m < 16 \<Longrightarrow> n < 16 \<Longrightarrow> hex_digit m = hex_digit n \<Longrightarrow> m = n"
  by (metis hex_value_digit)

lemma hex_digits_inj: "m < 16 ^ w \<Longrightarrow> n < 16 ^ w \<Longrightarrow> hex_digits w m = hex_digits w n \<Longrightarrow> m = n"
proof (induction w arbitrary: m n)
  case (Suc w)
  then have "m div 16 = n div 16" "hex_digit (m mod 16) = hex_digit (n mod 16)"
    by (auto simp: less_mult_imp_div_less mult.commute)
  moreover then have "m mod 16 = n mod 16" by (auto intro: hex_digit_inj)
  ultimately show ?case by (metis div_mult_mod_eq)
qed simp

lemma uuid_str_inj:
  assumes "u < 2 ^ 128" and "v < 2 ^ 128" and "uuid_str u = uuid_str v"
  shows "u = v"
proof -
  let ?h = "hex_digits 32 u" and ?k = "hex_digits 32 v"
  have parts: "take 8 ?h = take 8 ?k" "take 4 (drop 8 ?h) = take 4 (drop 8 ?k)"
      "take 4 (drop 12 ?h) = take 4 (drop 12 ?k)" "take 4 (drop 16 ?h) = take 4 (drop 16 ?k)"
      "drop 20 ?h = drop 20 ?k"
    using assms(3) by (simp_all add: uuid_str_def Let_def)
  have split: "xs = take 8 xs @ take 4 (drop 8 xs) @ take 4 (drop 12 xs) @ take 4 (drop 16 xs) @ drop 20 xs"
    for xs :: string
    using append_take_drop_id [of 8 xs] append_take_drop_id [of 4 "drop 8 xs"]
      append_take_drop_id [of 4 "drop 12 xs"] append_take_drop_id [of 4 "drop 16 xs"]
    by simp
  have "?h = ?k" using parts split [of ?h] split [of ?k] by simp
  moreover have "(16::nat) ^ 32 = 2 ^ 128" by simp
  ultimately show ?thesis using assms hex_digits_inj [of u 32 v] by simp
qed

end
