(* ===== verification/Validation.thy ===== *)
theory Validation
  imports Py_Values
begin

text \<open>
  The rules of \<^verbatim>\<open>src/backend/app/domain/validation.py\<close>: how names, slugs, e-mail addresses,
  identifiers, fact values, confidences, authorities and URIs are normalised or refused.
  The lemmas show that what a rule accepts satisfies the format the database checks again,
  and that normalising twice is normalising once.
\<close>

section \<open>Formats\<close>

definition slug_char :: "char \<Rightarrow> bool" where
  "slug_char c \<longleftrightarrow> is_lower_az c \<or> is_digit c"

text \<open>\<^verbatim>\<open>^[a-z0-9][a-z0-9-]{1,61}[a-z0-9]$\<close>, as a full match.\<close>

definition slug_pattern :: "string \<Rightarrow> bool" where
  "slug_pattern s \<longleftrightarrow> 3 \<le> length s \<and> length s \<le> 63 \<and> slug_char (hd s) \<and> slug_char (last s) \<and>
     (\<forall>c \<in> set s. slug_char c \<or> c = CHR ''-'')"

text \<open>\<^verbatim>\<open>^[^@\s]+@[^@\s]+\.[^@\s]+$\<close>: one at sign, no spaces, an inner dot after the at sign.\<close>

definition email_pattern :: "string \<Rightarrow> bool" where
  "email_pattern s \<longleftrightarrow> (\<forall>c \<in> set s. \<not> is_space c) \<and>
     (case split_char CHR ''@'' s of
        [local, domain] \<Rightarrow> local \<noteq> [] \<and> (\<exists>i \<in> set [1..<length domain - 1]. domain ! i = CHR ''.'')
      | _ \<Rightarrow> False)"

definition identifier_segment :: "string \<Rightarrow> bool" where
  "identifier_segment w \<longleftrightarrow> (case w of [] \<Rightarrow> False
     | c # cs \<Rightarrow> is_lower_az c \<and> (\<forall>d \<in> set cs. is_lower_az d \<or> is_digit d \<or> d = CHR ''_''))"

text \<open>\<^verbatim>\<open>^[a-z][a-z0-9_]*(\.[a-z][a-z0-9_]*)*$\<close>, as a full match.\<close>

definition identifier_pattern :: "string \<Rightarrow> bool" where
  "identifier_pattern s \<longleftrightarrow> (\<forall>w \<in> set (split_char CHR ''.'' s). identifier_segment w)"

definition EMAIL_MAX_LENGTH :: nat where "EMAIL_MAX_LENGTH = 320"
definition NAME_MAX_LENGTH :: nat where "NAME_MAX_LENGTH = 200"
definition IDENTIFIER_MAX_LENGTH :: nat where "IDENTIFIER_MAX_LENGTH = 128"
definition EXTERNAL_ID_MAX_LENGTH :: nat where "EXTERNAL_ID_MAX_LENGTH = 256"
definition URI_MAX_LENGTH :: nat where "URI_MAX_LENGTH = 2048"
definition FACT_VALUE_MAX_BYTES :: nat where "FACT_VALUE_MAX_BYTES = 16384"

lemmas length_limits = EMAIL_MAX_LENGTH_def NAME_MAX_LENGTH_def IDENTIFIER_MAX_LENGTH_def
  EXTERNAL_ID_MAX_LENGTH_def URI_MAX_LENGTH_def FACT_VALUE_MAX_BYTES_def

section \<open>Normalisation\<close>

definition normalize_slug :: "string \<Rightarrow> string result" where
  "normalize_slug value = (let slug = lower (strip value) in
     bindr (requirer (slug_pattern slug) (ValidationFailedError ''slug must be 3-63 characters''))
       (\<lambda>_. Inr slug))"

definition normalize_email :: "string \<Rightarrow> string result" where
  "normalize_email value = (let email = lower (strip value) in
     bindr (requirer (\<not> (EMAIL_MAX_LENGTH < length email \<or> \<not> email_pattern email))
         (ValidationFailedError ''email address is not valid''))
       (\<lambda>_. Inr email))"

definition normalize_name :: "string \<Rightarrow> string \<Rightarrow> string result" where
  "normalize_name value field = (let name = join '' '' (split_space value) in
     bindr (requirer (name \<noteq> []) (ValidationFailedError (field @ '' must not be empty''))) (\<lambda>_.
     bindr (requirer (length name \<le> NAME_MAX_LENGTH)
         (ValidationFailedError (field @ '' must be at most 200 characters''))) (\<lambda>_.
     Inr name)))"

definition normalize_identifier :: "string \<Rightarrow> string \<Rightarrow> string result" where
  "normalize_identifier value field = (let identifier = lower (strip value) in
     bindr (requirer (\<not> (IDENTIFIER_MAX_LENGTH < length identifier \<or> \<not> identifier_pattern identifier))
         (ValidationFailedError (field @ '' must be lower snake_case segments'')))
       (\<lambda>_. Inr identifier))"

definition normalize_external_id :: "string \<Rightarrow> string result" where
  "normalize_external_id value = (let external_id = strip value in
     bindr (requirer (\<not> (external_id = [] \<or> EXTERNAL_ID_MAX_LENGTH < length external_id))
         (ValidationFailedError ''external_id must be 1-256 characters'')) (\<lambda>_.
     bindr (requirer (\<not> (\<exists>c \<in> set external_id. \<not> is_printable c))
         (ValidationFailedError ''external_id must not contain control characters'')) (\<lambda>_.
     Inr external_id)))"

definition strict_json :: json_opts where
  "strict_json = \<lparr>sort_keys = False, item_sep = '','', key_sep = '':'',
     ensure_ascii = True, allow_nan = False\<rparr>"

text \<open>The encoded text is ASCII, so its length is its number of UTF-8 bytes.\<close>

definition validate_fact_value :: "runtime \<Rightarrow> pyval \<Rightarrow> pyval result" where
  "validate_fact_value R value =
     bindr (requirer (value \<noteq> PNone) (ValidationFailedError ''value must not be null'')) (\<lambda>_.
     bindr (some_or (json_dumps strict_json (float_repr R) value)
         (ValidationFailedError ''value is not valid JSON'')) (\<lambda>encoded.
     bindr (requirer (length encoded \<le> FACT_VALUE_MAX_BYTES)
         (ValidationFailedError ''value must be at most 16384 bytes as JSON'')) (\<lambda>_.
     Inr value)))"

text \<open>
  Comparing a NaN raises InvalidOperation, and the range check stands outside the handler:
  that exception leaves the function as it is.
\<close>

definition normalize_confidence :: "decimal \<Rightarrow> rat result" where
  "normalize_confidence value =
     bindr (some_or (quantize_milli value) (ValidationFailedError ''confidence must be a number''))
       (\<lambda>confidence. case confidence of
           DFinite r \<Rightarrow> bindr (requirer (0 \<le> r \<and> r \<le> 1)
               (ValidationFailedError ''confidence must be between 0 and 1'')) (\<lambda>_. Inr r)
         | _ \<Rightarrow> Inl (PyError ''InvalidOperation''))"

text \<open>An authority argument is a Python int, which may be a bool.\<close>

datatype pyint = PyBool bool | PyInt int

definition validate_authority :: "pyint \<Rightarrow> int result" where
  "validate_authority value = (case value of
      PyBool _ \<Rightarrow> Inl (ValidationFailedError ''authority must be an integer between 0 and 100'')
    | PyInt n \<Rightarrow> bindr (requirer (0 \<le> n \<and> n \<le> 100)
        (ValidationFailedError ''authority must be an integer between 0 and 100'')) (\<lambda>_. Inr n))"

definition allowed_uri :: "string \<Rightarrow> bool" where
  "allowed_uri uri \<longleftrightarrow> starts_with uri ''https://'' \<or> starts_with uri ''http://'' \<or> starts_with uri ''s3://''"

definition normalize_uri :: "string option \<Rightarrow> string option result" where
  "normalize_uri value = (case value of None \<Rightarrow> Inr None
     | Some v \<Rightarrow> (let uri = strip v in
         bindr (requirer (\<not> (URI_MAX_LENGTH < length uri \<or> \<not> allowed_uri uri))
             (ValidationFailedError ''uri must be an http(s):// or s3:// URL of at most 2048 characters''))
           (\<lambda>_. Inr (Some uri))))"

section \<open>What the rules accept\<close>

lemmas normalizer_defs = normalize_slug_def normalize_email_def normalize_name_def
  normalize_identifier_def normalize_external_id_def normalize_uri_def Let_def

lemma normalize_identifier_sound:
  "normalize_identifier v f = Inr s \<Longrightarrow> identifier_pattern s \<and> length s \<le> 128 \<and> s = lower (strip v)"
  by (auto simp: normalizer_defs result_simps length_limits)

lemma normalize_identifier_idem:
  "normalize_identifier v f = Inr s \<Longrightarrow> normalize_identifier s g = Inr s"
  by (auto simp: normalizer_defs result_simps strip_lower_fixed)

lemma normalize_identifier_field: "normalize_identifier v f = Inr s \<Longrightarrow> normalize_identifier v g = Inr s"
  by (auto simp: normalizer_defs result_simps)

lemma normalize_external_id_sound:
  "normalize_external_id v = Inr s \<Longrightarrow>
     s \<noteq> [] \<and> length s \<le> 256 \<and> (\<forall>c \<in> set s. is_printable c) \<and> s = strip v"
  by (auto simp: normalizer_defs result_simps length_limits)

lemma normalize_external_id_idem:
  "normalize_external_id v = Inr s \<Longrightarrow> normalize_external_id s = Inr s"
  by (auto simp: normalizer_defs result_simps)

lemma normalize_slug_idem: "normalize_slug v = Inr s \<Longrightarrow> normalize_slug s = Inr s"
  by (auto simp: normalizer_defs result_simps strip_lower_fixed)

lemma normalize_email_idem: "normalize_email v = Inr s \<Longrightarrow> normalize_email s = Inr s"
  by (auto simp: normalizer_defs result_simps strip_lower_fixed)

lemma normalize_name_idem: "normalize_name v f = Inr s \<Longrightarrow> normalize_name s f = Inr s"
  using split_space_join [of "split_space v"] split_space_words [of _ v]
  by (auto simp: normalizer_defs result_simps)

lemma normalize_uri_idem: "normalize_uri v = Inr s \<Longrightarrow> normalize_uri s = Inr s"
  by (auto simp: normalizer_defs result_simps split: option.splits)

lemma validate_fact_value_same: "validate_fact_value R v = Inr w \<Longrightarrow> w = v \<and> v \<noteq> PNone"
  by (auto simp: validate_fact_value_def result_simps)

lemma validate_authority_range: "validate_authority a = Inr n \<Longrightarrow> 0 \<le> n \<and> n \<le> 100 \<and> a = PyInt n"
  by (auto simp: validate_authority_def result_simps split: pyint.splits)

lemma normalize_confidence_Inr:
  "normalize_confidence d = Inr r \<longleftrightarrow> quantize_milli d = Some (DFinite r) \<and> 0 \<le> r \<and> r \<le> 1"
proof (cases "quantize_milli d")
  case (Some c)
  then show ?thesis by (cases c) (auto simp: normalize_confidence_def result_simps)
qed (simp add: normalize_confidence_def)

lemma normalize_confidence_range: "normalize_confidence d = Inr r \<Longrightarrow> 0 \<le> r \<and> r \<le> 1"
  by (simp add: normalize_confidence_Inr)

lemma normalize_confidence_finite:
  assumes "normalize_confidence d = Inr r"
  obtains x where "d = DFinite x" and "r = of_int (round_half_even (x * 1000)) / 1000"
  using assms
  by (cases d) (auto simp: normalize_confidence_Inr quantize_milli_def Let_def split: if_splits)





end
