(* ===== verification/Schema.thy ===== *)
theory Schema
  imports Validation
begin

text \<open>
  The tables of \<^verbatim>\<open>src/backend/app/models\<close> as row records, the enumerations their columns
  use, and the database as one record of tables. A table is the list of its rows in
  insertion order. Columns the database generates (identifiers, timestamps) are supplied by
  a transaction record \<open>txn\<close>: \<open>t_now\<close> is PostgreSQL's \<^verbatim>\<open>now()\<close>, fixed at transaction start,
  \<open>t_clock\<close> its \<^verbatim>\<open>clock_timestamp()\<close>, and \<open>t_ids\<close> the UUIDs drawn in order.
\<close>

section \<open>Enumerations\<close>

datatype membership_role = ADMIN | ENGINEER | VIEWER

datatype permission =
    READ_ORGANIZATION | READ_MEMBERS | MANAGE_MEMBERS | READ_FACTS | WRITE_FACTS
  | REVOKE_FACTS | READ_DECISIONS | RECORD_DECISIONS | READ_AUDIT

datatype source_type = SYSTEM_OF_RECORD | API | DOCUMENT | HUMAN | AGENT

datatype privacy_scope = PUBLIC | INTERNAL | CONFIDENTIAL | RESTRICTED

datatype evidence_type =
    DOCUMENT_EXCERPT | API_RESPONSE | DATABASE_RECORD | HUMAN_STATEMENT | AGENT_OUTPUT

datatype evidence_relation = SUPPORTS | CONTRADICTS

datatype contradiction_status = OPEN | RESOLVED | DISMISSED

datatype contradiction_kind = VALUE_CONFLICT | SEMANTIC

text \<open>
  \<^verbatim>\<open>PRIVACY_ORDER\<close> of \<^verbatim>\<open>domain/retrieval.py\<close> orders the scopes from least to most sensitive;
  the position in it is the order of the type.
\<close>

definition PRIVACY_ORDER :: "privacy_scope list" where
  "PRIVACY_ORDER = [PUBLIC, INTERNAL, CONFIDENTIAL, RESTRICTED]"

fun privacy_index :: "privacy_scope \<Rightarrow> nat" where
  "privacy_index PUBLIC = 0"
| "privacy_index INTERNAL = 1"
| "privacy_index CONFIDENTIAL = 2"
| "privacy_index RESTRICTED = 3"

lemma privacy_index_inj: "privacy_index p = privacy_index q \<Longrightarrow> p = q"
  by (cases p; cases q) auto

lemma privacy_index_nth [simp]: "PRIVACY_ORDER ! privacy_index p = p" "privacy_index p < length PRIVACY_ORDER"
  by (cases p; simp add: PRIVACY_ORDER_def)+

instantiation privacy_scope :: linorder
begin

definition less_eq_privacy_scope :: "privacy_scope \<Rightarrow> privacy_scope \<Rightarrow> bool" where
  "less_eq_privacy_scope p q \<longleftrightarrow> privacy_index p \<le> privacy_index q"

definition less_privacy_scope :: "privacy_scope \<Rightarrow> privacy_scope \<Rightarrow> bool" where
  "less_privacy_scope p q \<longleftrightarrow> privacy_index p < privacy_index q"

instance
  by standard (auto simp: less_eq_privacy_scope_def less_privacy_scope_def intro: privacy_index_inj)

end

section \<open>Rows\<close>

record organization =
  o_id :: uuid
  o_slug :: string
  o_name :: string
  o_created_at :: instant
  o_updated_at :: instant

record user =
  u_id :: uuid
  u_email :: string
  u_display_name :: string
  u_is_active :: bool
  u_created_at :: instant
  u_updated_at :: instant

record membership =
  m_id :: uuid
  m_org :: uuid
  m_user_id :: uuid
  m_role :: membership_role
  m_created_at :: instant
  m_updated_at :: instant

record entity =
  en_id :: uuid
  en_org :: uuid
  en_type :: string
  en_external_id :: string
  en_display_name :: "string option"
  en_created_at :: instant
  en_updated_at :: instant

record fact_source =
  s_id :: uuid
  s_org :: uuid
  s_name :: string
  s_type :: source_type
  s_uri :: "string option"
  s_default_authority :: int
  s_created_at :: instant
  s_updated_at :: instant

record fact =
  f_id :: uuid
  f_org :: uuid
  f_entity_id :: uuid
  f_property :: string
  f_created_at :: instant
  f_updated_at :: instant

record fact_version =
  fv_id :: uuid
  fv_org :: uuid
  fv_fact_id :: uuid
  fv_version :: int
  fv_value :: pyval
  fv_source_id :: uuid
  fv_valid_from :: instant
  fv_valid_until :: "instant option"
  fv_observed_at :: instant
  fv_recorded_at :: instant
  fv_valid_until_recorded_at :: "instant option"
  fv_supersedes_id :: "uuid option"
  fv_authority :: int
  fv_confidence :: rat
  fv_privacy_scope :: privacy_scope

record fact_revocation =
  rv_id :: uuid
  rv_org :: uuid
  rv_fact_version_id :: uuid
  rv_reason :: string
  rv_revoked_by_user_id :: uuid
  rv_agent_client_id :: "uuid option"
  rv_revoked_at :: instant

record revocation_impact =
  ri_org :: uuid
  ri_revocation_id :: uuid
  ri_decision_id :: uuid
  ri_snapshot_id :: uuid
  ri_fact_version_id :: uuid
  ri_relied_on :: bool

record evidence =
  ev_id :: uuid
  ev_org :: uuid
  ev_source_id :: uuid
  ev_type :: evidence_type
  ev_excerpt :: string
  ev_content_sha256 :: string
  ev_uri :: "string option"
  ev_metadata :: pyval
  ev_privacy_scope :: privacy_scope
  ev_captured_at :: instant
  ev_recorded_at :: instant

record fact_version_evidence =
  fe_org :: uuid
  fe_fact_version_id :: uuid
  fe_evidence_id :: uuid
  fe_relation :: evidence_relation
  fe_linked_at :: instant
  fe_linked_by_user_id :: "uuid option"

text \<open>
  The explanation of a contradiction: the deterministic rule fills a fixed sentence with the
  previous source, its observation and the start of the new version; a semantic one is text.
\<close>

datatype explanation =
    ObservedDifferentValue uuid instant instant
  | ExplanationText string

record contradiction =
  c_id :: uuid
  c_org :: uuid
  c_entity_id :: uuid
  c_left_version_id :: uuid
  c_right_version_id :: uuid
  c_kind :: contradiction_kind
  c_detector :: string
  c_explanation :: explanation
  c_preferred_version_id :: "uuid option"
  c_privacy_scope :: privacy_scope
  c_status :: contradiction_status
  c_resolution_note :: "string option"
  c_resolved_by_user_id :: "uuid option"
  c_resolved_at :: "instant option"
  c_detected_at :: instant

text \<open>Snapshots keep their ranking entry and their parameters as JSON objects.\<close>

record context_snapshot =
  cs_id :: uuid
  cs_org :: uuid
  cs_captured_by_user_id :: uuid
  cs_query :: string
  cs_valid_at :: instant
  cs_known_at :: instant
  cs_embedding_model :: string
  cs_vector_search :: string
  cs_privacy_scopes :: "privacy_scope list"
  cs_parameters :: pyval
  cs_created_at :: instant

record snapshot_fact =
  sf_org :: uuid
  sf_snapshot_id :: uuid
  sf_fact_version_id :: uuid
  sf_position :: nat
  sf_ranking :: pyval

record decision =
  d_id :: uuid
  d_org :: uuid
  d_snapshot_id :: uuid
  d_decided_by_user_id :: uuid
  d_agent :: "string option"
  d_action :: string
  d_outcome :: pyval
  d_rationale :: "string option"
  d_decided_at :: instant
  d_receipt_sha256 :: string

record decision_fact =
  df_org :: uuid
  df_decision_id :: uuid
  df_snapshot_id :: uuid
  df_fact_version_id :: uuid

record agent_client =
  ac_id :: uuid
  ac_org :: uuid
  ac_name :: string
  ac_client_id :: string
  ac_secret_hash :: string
  ac_service_user_id :: uuid
  ac_allowed_scopes :: "permission list"
  ac_privacy_ceiling :: privacy_scope
  ac_created_by_user_id :: uuid
  ac_revoked_at :: "instant option"
  ac_created_at :: instant
  ac_updated_at :: instant

section \<open>The database\<close>

record db =
  organizations :: "organization list"
  users :: "user list"
  memberships :: "membership list"
  entities :: "entity list"
  sources :: "fact_source list"
  facts :: "fact list"
  fact_versions :: "fact_version list"
  revocations :: "fact_revocation list"
  impacts :: "revocation_impact list"
  evidence_rows :: "evidence list"
  evidence_links :: "fact_version_evidence list"
  contradictions :: "contradiction list"
  snapshots :: "context_snapshot list"
  snapshot_facts :: "snapshot_fact list"
  decisions :: "decision list"
  decision_facts :: "decision_fact list"
  agent_clients :: "agent_client list"

definition empty_db :: db where
  "empty_db = \<lparr>organizations = [], users = [], memberships = [], entities = [], sources = [],
     facts = [], fact_versions = [], revocations = [], impacts = [], evidence_rows = [],
     evidence_links = [], contradictions = [], snapshots = [], snapshot_facts = [],
     decisions = [], decision_facts = [], agent_clients = []\<rparr>"

record txn =
  t_now :: instant
  t_clock :: instant
  t_ids :: "nat \<Rightarrow> uuid"

text \<open>
  The tenant context of \<^verbatim>\<open>domain/tenancy.py\<close>: who acts, in which organization, and what the
  presented token narrows.
\<close>

record tenant_context =
  ctx_org :: uuid
  ctx_user :: uuid
  ctx_role :: membership_role
  ctx_scopes :: "permission list option"
  ctx_max_privacy_scope :: "privacy_scope option"
  ctx_agent_client_id :: "uuid option"

section \<open>Identifiers in use\<close>

text \<open>
  A UUID is fresh when no row has it as its primary key. Freshly drawn version 4 UUIDs are
  assumed distinct from each other and from those in use.
\<close>

definition used_ids :: "db \<Rightarrow> uuid set" where
  "used_ids db = o_id ` set (organizations db) \<union> u_id ` set (users db) \<union> m_id ` set (memberships db) \<union>
     en_id ` set (entities db) \<union> s_id ` set (sources db) \<union> f_id ` set (facts db) \<union>
     fv_id ` set (fact_versions db) \<union> rv_id ` set (revocations db) \<union> ev_id ` set (evidence_rows db) \<union>
     c_id ` set (contradictions db) \<union> cs_id ` set (snapshots db) \<union> d_id ` set (decisions db) \<union>
     ac_id ` set (agent_clients db)"

definition fresh_ids :: "db \<Rightarrow> (nat \<Rightarrow> uuid) \<Rightarrow> bool" where
  "fresh_ids db ids \<longleftrightarrow> inj ids \<and> range ids \<inter> used_ids db = {}"

lemma fresh_idsD:
  assumes "fresh_ids db ids"
  shows "ids n \<notin> o_id ` set (organizations db)" "ids n \<notin> u_id ` set (users db)"
    "ids n \<notin> m_id ` set (memberships db)" "ids n \<notin> en_id ` set (entities db)"
    "ids n \<notin> s_id ` set (sources db)" "ids n \<notin> f_id ` set (facts db)"
    "ids n \<notin> fv_id ` set (fact_versions db)" "ids n \<notin> rv_id ` set (revocations db)"
    "ids n \<notin> ev_id ` set (evidence_rows db)" "ids n \<notin> c_id ` set (contradictions db)"
    "ids n \<notin> cs_id ` set (snapshots db)" "ids n \<notin> d_id ` set (decisions db)"
    "ids n \<notin> ac_id ` set (agent_clients db)"
proof -
  have "ids n \<in> range ids" by simp
  then have "ids n \<notin> used_ids db" using assms unfolding fresh_ids_def by blast
  then show "ids n \<notin> o_id ` set (organizations db)" "ids n \<notin> u_id ` set (users db)"
    "ids n \<notin> m_id ` set (memberships db)" "ids n \<notin> en_id ` set (entities db)"
    "ids n \<notin> s_id ` set (sources db)" "ids n \<notin> f_id ` set (facts db)"
    "ids n \<notin> fv_id ` set (fact_versions db)" "ids n \<notin> rv_id ` set (revocations db)"
    "ids n \<notin> ev_id ` set (evidence_rows db)" "ids n \<notin> c_id ` set (contradictions db)"
    "ids n \<notin> cs_id ` set (snapshots db)" "ids n \<notin> d_id ` set (decisions db)"
    "ids n \<notin> ac_id ` set (agent_clients db)"
    unfolding used_ids_def by (simp_all only: Un_iff de_Morgan_disj not_False_eq_True)
qed

lemma fresh_ids_inj: "fresh_ids db ids \<Longrightarrow> ids m = ids n \<longleftrightarrow> m = n"
  by (auto simp: fresh_ids_def dest: injD)

end
