(* ===== verification/Fact_Rules.thy ===== *)
theory Fact_Rules
  imports Schema
begin

text \<open>
  The framework-free rules of \<^verbatim>\<open>domain/facts.py\<close> (validity windows and the supersession plan)
  and of \<^verbatim>\<open>domain/contradictions.py\<close> (when a new version contradicts the one it supersedes,
  and which of the two is preferred).
\<close>

section \<open>Validity windows\<close>

definition require_aware :: "pydatetime \<Rightarrow> string \<Rightarrow> instant result" where
  "require_aware value field = (case value of
      Naive _ \<Rightarrow> Inl (ValidationFailedError (field @ '' must include a timezone''))
    | Aware i \<Rightarrow> Inr i)"

record validity_window =
  vw_from :: instant
  vw_until :: "instant option"

text \<open>\<^verbatim>\<open>ValidityWindow(valid_from, valid_until)\<close> with its \<^verbatim>\<open>__post_init__\<close> checks.\<close>

definition mk_window :: "pydatetime \<Rightarrow> pydatetime option \<Rightarrow> validity_window result" where
  "mk_window valid_from valid_until =
     bindr (require_aware valid_from ''valid_from'') (\<lambda>f.
     case valid_until of
       None \<Rightarrow> Inr \<lparr>vw_from = f, vw_until = None\<rparr>
     | Some until \<Rightarrow>
         bindr (require_aware until ''valid_until'') (\<lambda>u.
         bindr (requirer (\<not> u \<le> f) (ValidationFailedError ''valid_until must be later than valid_from'')) (\<lambda>_.
         Inr \<lparr>vw_from = f, vw_until = Some u\<rparr>)))"

definition window_contains :: "validity_window \<Rightarrow> pydatetime \<Rightarrow> bool result" where
  "window_contains w instant =
     bindr (require_aware instant ''instant'') (\<lambda>i.
     Inr (vw_from w \<le> i \<and> (case vw_until w of None \<Rightarrow> True | Some u \<Rightarrow> i < u)))"

text \<open>
  The half-open interval a window denotes, \<open>None\<close> being no upper bound, and PostgreSQL's
  overlap of two such ranges, \<^verbatim>\<open>tstzrange(f, u, '[)') && ...\<close>.
\<close>

definition in_range :: "instant \<Rightarrow> instant option \<Rightarrow> instant \<Rightarrow> bool" where
  "in_range f u i \<longleftrightarrow> f \<le> i \<and> (case u of None \<Rightarrow> True | Some u' \<Rightarrow> i < u')"

definition starts_before_end :: "instant \<Rightarrow> instant option \<Rightarrow> bool" where
  "starts_before_end f u \<longleftrightarrow> (case u of None \<Rightarrow> True | Some u' \<Rightarrow> f < u')"

definition ranges_overlap :: "instant \<Rightarrow> instant option \<Rightarrow> instant \<Rightarrow> instant option \<Rightarrow> bool" where
  "ranges_overlap f u f' u' \<longleftrightarrow> starts_before_end f u' \<and> starts_before_end f' u \<and>
     starts_before_end f u \<and> starts_before_end f' u'"

lemma ranges_overlap_iff: "ranges_overlap f u f' u' \<longleftrightarrow> (\<exists>i. in_range f u i \<and> in_range f' u' i)"
proof
  assume "ranges_overlap f u f' u'"
  then have "in_range f u (max f f') \<and> in_range f' u' (max f f')"
    by (auto simp: ranges_overlap_def starts_before_end_def in_range_def split: option.splits)
  then show "\<exists>i. in_range f u i \<and> in_range f' u' i" ..
qed (auto simp: ranges_overlap_def starts_before_end_def in_range_def split: option.splits)

lemma mk_window_Inr:
  "mk_window vf vu = Inr w \<longleftrightarrow>
     (\<exists>f. vf = Aware f \<and> vw_from w = f \<and>
        (vu = None \<and> vw_until w = None \<or> (\<exists>u. vu = Some (Aware u) \<and> vw_until w = Some u \<and> f < u)))"
  by (cases w) (auto simp: mk_window_def require_aware_def result_simps
      split: pydatetime.splits option.splits)

lemma mk_window_ordered: "mk_window vf vu = Inr w \<Longrightarrow> starts_before_end (vw_from w) (vw_until w)"
  by (auto simp: mk_window_Inr starts_before_end_def)

text \<open>A window rebuilt from a stored row is the row's window: its columns satisfied the check.\<close>

lemma mk_window_row:
  "starts_before_end f u \<Longrightarrow> mk_window (Aware f) (map_option Aware u) = Inr \<lparr>vw_from = f, vw_until = u\<rparr>"
  by (cases u) (auto simp: mk_window_def require_aware_def starts_before_end_def)

section \<open>The supersession plan\<close>

record latest_version =
  lv_version :: int
  lv_window :: validity_window

record version_plan =
  vp_version :: int
  vp_close_previous_at :: "instant option"

definition plan_new_version :: "latest_version option \<Rightarrow> validity_window \<Rightarrow> version_plan result" where
  "plan_new_version latest window = (case latest of
      None \<Rightarrow> Inr \<lparr>vp_version = 1, vp_close_previous_at = None\<rparr>
    | Some l \<Rightarrow>
        bindr (requirer (\<not> vw_from window \<le> vw_from (lv_window l))
          (ConflictError ''new version must start after the latest version'')) (\<lambda>_.
        case vw_until (lv_window l) of
          None \<Rightarrow> Inr \<lparr>vp_version = lv_version l + 1, vp_close_previous_at = Some (vw_from window)\<rparr>
        | Some until \<Rightarrow>
            bindr (requirer (\<not> vw_from window < until)
              (ConflictError ''new version overlaps the latest version'')) (\<lambda>_.
            Inr \<lparr>vp_version = lv_version l + 1, vp_close_previous_at = None\<rparr>)))"

text \<open>
  The end of the latest version once the plan is carried out: its own if it had one, the
  start of the new version otherwise.
\<close>

definition planned_end :: "latest_version \<Rightarrow> version_plan \<Rightarrow> instant option" where
  "planned_end l p = (case vp_close_previous_at p of None \<Rightarrow> vw_until (lv_window l) | Some i \<Rightarrow> Some i)"

lemma plan_first: "plan_new_version None w = Inr \<lparr>vp_version = 1, vp_close_previous_at = None\<rparr>"
  by (simp add: plan_new_version_def)

lemma plan_next:
  assumes "plan_new_version (Some l) w = Inr p"
  shows "vp_version p = lv_version l + 1" "vw_from (lv_window l) < vw_from w"
    "\<exists>u. planned_end l p = Some u \<and> u \<le> vw_from w"
    "vp_close_previous_at p = (if vw_until (lv_window l) = None then Some (vw_from w) else None)"
  using assms
  by (auto simp: plan_new_version_def planned_end_def result_simps split: option.splits)

text \<open>The plan is refused exactly when the new window would start inside or before the latest one.\<close>

lemma plan_refused_iff:
  "(\<exists>e. plan_new_version (Some l) w = Inl e) \<longleftrightarrow>
     vw_from w \<le> vw_from (lv_window l) \<or> (\<exists>u. vw_until (lv_window l) = Some u \<and> vw_from w < u)"
  by (auto simp: plan_new_version_def result_simps split: option.splits)

section \<open>Contradiction rules\<close>

record version_facts =
  vf_id :: uuid
  vf_source_id :: uuid
  vf_value :: pyval
  vf_valid_from :: instant
  vf_valid_until :: "instant option"
  vf_observed_at :: instant
  vf_authority :: int
  vf_confidence :: rat

definition RULE_OBSERVED_VALUE_CONFLICT :: string where
  "RULE_OBSERVED_VALUE_CONFLICT = ''observed-value-conflict-v1''"

definition value_conflict :: "version_facts \<Rightarrow> version_facts \<Rightarrow> explanation option" where
  "value_conflict previous new =
     (if vf_source_id previous = vf_source_id new \<or> py_eq (vf_value previous) (vf_value new) then None
      else if (case vf_valid_until previous of None \<Rightarrow> False | Some u \<Rightarrow> u \<le> vf_observed_at previous) then None
      else if vf_observed_at previous < vf_valid_from new then None
      else Some (ObservedDifferentValue (vf_source_id previous) (vf_observed_at previous) (vf_valid_from new)))"

definition preference_key :: "version_facts \<Rightarrow> int \<times> rat \<times> instant" where
  "preference_key v = (vf_authority v, vf_confidence v, vf_observed_at v)"

text \<open>\<^verbatim>\<open>max((a, b), key=...)\<close> keeps the first of two equal keys.\<close>

definition preferred :: "version_facts \<Rightarrow> version_facts \<Rightarrow> uuid" where
  "preferred a b = (if preference_key a < preference_key b then vf_id b else vf_id a)"

definition rule_view :: "fact_version \<Rightarrow> version_facts" where
  "rule_view v = \<lparr>vf_id = fv_id v, vf_source_id = fv_source_id v, vf_value = fv_value v,
     vf_valid_from = fv_valid_from v, vf_valid_until = fv_valid_until v,
     vf_observed_at = fv_observed_at v, vf_authority = fv_authority v, vf_confidence = fv_confidence v\<rparr>"


text \<open>
  Witness: the CRM observed ACTIVE at 12; billing then reports SUSPENDED valid from 10,
  with the higher authority.
\<close>

definition crm_claim :: version_facts where
  "crm_claim = \<lparr>vf_id = 1, vf_source_id = 11, vf_value = PStr ''ACTIVE'', vf_valid_from = 8,
     vf_valid_until = None, vf_observed_at = 12, vf_authority = 60, vf_confidence = 1\<rparr>"

definition billing_claim :: version_facts where
  "billing_claim = \<lparr>vf_id = 2, vf_source_id = 12, vf_value = PStr ''SUSPENDED'', vf_valid_from = 10,
     vf_valid_until = None, vf_observed_at = 10, vf_authority = 90, vf_confidence = 1\<rparr>"


end
