(* ===== verification/Transactions.thy ===== *)
theory Transactions
  imports Ledger_Prelude
begin

text \<open>
  The contracts the services' transactions share. A request runs in one database
  transaction, which commits a new state or raises and leaves the state as it was;
  \<open>run_txns\<close> is a sequence of committed or rolled back requests. The locales below state
  once what follows when every single request keeps an invariant, evolves the state along
  a preorder, or leaves the view of another party alone; each service theory interprets
  them on its own requests.
\<close>

definition commit :: "('s \<Rightarrow> 'e + 's) \<Rightarrow> 's \<Rightarrow> 's" where
  "commit f s = (case f s of Inl e \<Rightarrow> s | Inr s' \<Rightarrow> s')"

definition run_txns :: "('op \<Rightarrow> 's \<Rightarrow> 'e + 's) \<Rightarrow> 'op list \<Rightarrow> 's \<Rightarrow> 's" where
  "run_txns exec ops s = fold (\<lambda>op. commit (exec op)) ops s"

lemma run_txns_simps [simp]:
  "run_txns exec [] s = s"
  "run_txns exec (op # ops) s = run_txns exec ops (commit (exec op) s)"
  by (simp_all add: run_txns_def)

lemma run_txns_append: "run_txns exec (xs @ ys) s = run_txns exec ys (run_txns exec xs s)"
  by (simp add: run_txns_def)

section \<open>Requests that keep an invariant\<close>

locale transactional =
  fixes exec :: "'op \<Rightarrow> 's \<Rightarrow> 'e + 's"
    and inv :: "'s \<Rightarrow> bool"
  assumes preserve: "inv s \<Longrightarrow> exec op s = Inr s' \<Longrightarrow> inv s'"
begin

lemma commit_preserves: "inv s \<Longrightarrow> inv (commit (exec op) s)"
  by (auto simp: commit_def preserve split: sum.splits)

lemma run_preserves: "inv s \<Longrightarrow> inv (run_txns exec ops s)"
  by (induction ops arbitrary: s) (simp_all add: commit_preserves)

end

section \<open>Requests that evolve the state along a preorder\<close>

text \<open>
  \<open>rel p s s'\<close> reads: from \<open>s\<close> to \<open>s'\<close> nothing the parameter \<open>p\<close> fixes was rewritten.
  Append-only tables and answers as known at an instant are of this kind; \<open>ok p op s\<close> is
  what the environment guarantees of the request, such as that it runs after the instant.
\<close>

locale evolving = transactional exec inv
  for exec :: "'op \<Rightarrow> 's \<Rightarrow> 'e + 's" and inv :: "'s \<Rightarrow> bool" +
  fixes rel :: "'p \<Rightarrow> 's \<Rightarrow> 's \<Rightarrow> bool"
    and ok :: "'p \<Rightarrow> 'op \<Rightarrow> bool"
  assumes rel_refl: "rel p s s"
    and rel_trans: "rel p s t \<Longrightarrow> rel p t u \<Longrightarrow> rel p s u"
    and step: "inv s \<Longrightarrow> ok p op \<Longrightarrow> exec op s = Inr s' \<Longrightarrow> rel p s s'"
begin

lemma commit_rel: "inv s \<Longrightarrow> ok p op \<Longrightarrow> rel p s (commit (exec op) s)"
  by (auto simp: commit_def rel_refl step split: sum.splits)

lemma run_rel: "inv s \<Longrightarrow> \<forall>op \<in> set ops. ok p op \<Longrightarrow> rel p s (run_txns exec ops s)"
proof (induction ops arbitrary: s)
  case (Cons op ops)
  then have "rel p (commit (exec op) s) (run_txns exec ops (commit (exec op) s))"
    by (simp add: commit_preserves)
  with Cons.prems show ?case by (auto intro: rel_trans commit_rel)
qed (simp add: rel_refl)

end

section \<open>Requests that stay inside their tenant\<close>

text \<open>
  \<open>view t s\<close> is everything tenant \<open>t\<close> owns in \<open>s\<close>, and \<open>actor op\<close> the tenant a request
  acts for, if any. Requests of other tenants, in any number and order, leave the view alone.
\<close>

locale tenant_scoped = transactional exec inv
  for exec :: "'op \<Rightarrow> 's \<Rightarrow> 'e + 's" and inv :: "'s \<Rightarrow> bool" +
  fixes actor :: "'op \<Rightarrow> 't option"
    and view :: "'t \<Rightarrow> 's \<Rightarrow> 'v"
  assumes frame: "inv s \<Longrightarrow> exec op s = Inr s' \<Longrightarrow> actor op \<noteq> Some t \<Longrightarrow> view t s' = view t s"
begin

lemma run_other_tenants:
  "inv s \<Longrightarrow> \<forall>op \<in> set ops. actor op \<noteq> Some t \<Longrightarrow> view t (run_txns exec ops s) = view t s"
proof (induction ops arbitrary: s)
  case (Cons op ops)
  have "view t (commit (exec op) s) = view t s"
    using Cons.prems frame by (auto simp: commit_def split: sum.splits)
  then show ?case using Cons commit_preserves by simp
qed simp

end

end
