(* ===== verification/Tenancy.thy ===== *)
theory Tenancy
  imports Schema Transactions
begin

text \<open>
  Roles, tenant contexts, users, organizations and memberships:
  \<^verbatim>\<open>domain/roles.py\<close>, \<^verbatim>\<open>domain/tenancy.py\<close>, \<^verbatim>\<open>services/authorization.py\<close>,
  \<^verbatim>\<open>services/tenancy.py\<close>, \<^verbatim>\<open>services/users.py\<close>, \<^verbatim>\<open>services/organizations.py\<close>,
  \<^verbatim>\<open>services/memberships.py\<close> and their repositories. Row locks serialise the membership
  changes of one organization, so a request is one atomic step here. Shown: who passes
  \<^verbatim>\<open>require_permission\<close>, that every organization keeps an ADMIN through any sequence of
  requests, and that requests of one tenant leave the memberships of the others alone.
\<close>

section \<open>Roles and contexts\<close>

definition VIEWER_permissions :: "permission list" where
  "VIEWER_permissions = [READ_ORGANIZATION, READ_MEMBERS, READ_FACTS, READ_DECISIONS]"

definition ENGINEER_permissions :: "permission list" where
  "ENGINEER_permissions = VIEWER_permissions @ [WRITE_FACTS, RECORD_DECISIONS]"

definition ADMIN_permissions :: "permission list" where
  "ADMIN_permissions = [READ_ORGANIZATION, READ_MEMBERS, MANAGE_MEMBERS, READ_FACTS, WRITE_FACTS,
     REVOKE_FACTS, READ_DECISIONS, RECORD_DECISIONS, READ_AUDIT]"

fun ROLE_PERMISSIONS :: "membership_role \<Rightarrow> permission list" where
  "ROLE_PERMISSIONS ADMIN = ADMIN_permissions"
| "ROLE_PERMISSIONS ENGINEER = ENGINEER_permissions"
| "ROLE_PERMISSIONS VIEWER = VIEWER_permissions"

definition has_permission :: "membership_role \<Rightarrow> permission \<Rightarrow> bool" where
  "has_permission role p \<longleftrightarrow> p \<in> set (ROLE_PERMISSIONS role)"

definition in_scopes :: "tenant_context \<Rightarrow> permission \<Rightarrow> bool" where
  "in_scopes ctx p \<longleftrightarrow> (case ctx_scopes ctx of None \<Rightarrow> True | Some ps \<Rightarrow> p \<in> set ps)"

definition can :: "tenant_context \<Rightarrow> permission \<Rightarrow> bool" where
  "can ctx p \<longleftrightarrow> has_permission (ctx_role ctx) p \<and> in_scopes ctx p"

section \<open>Repositories\<close>

text \<open>
  A query that ends in \<^verbatim>\<open>one_or_none\<close> is the first matching row; the unique constraints
  below leave at most one.
\<close>

definition get_user :: "db \<Rightarrow> uuid \<Rightarrow> user option" where
  "get_user db uid = find (\<lambda>u. u_id u = uid) (users db)"

definition get_by_email :: "db \<Rightarrow> string \<Rightarrow> user option" where
  "get_by_email db email = find (\<lambda>u. u_email u = email) (users db)"

definition get_organization :: "db \<Rightarrow> uuid \<Rightarrow> organization option" where
  "get_organization db oid = find (\<lambda>org. o_id org = oid) (organizations db)"

definition get_by_slug :: "db \<Rightarrow> string \<Rightarrow> organization option" where
  "get_by_slug db slug = find (\<lambda>org. o_slug org = slug) (organizations db)"

definition lock_organization :: "db \<Rightarrow> uuid \<Rightarrow> bool" where
  "lock_organization db oid \<longleftrightarrow> get_organization db oid \<noteq> None"

definition get_membership :: "db \<Rightarrow> uuid \<Rightarrow> uuid \<Rightarrow> membership option" where
  "get_membership db org uid = find (\<lambda>m. m_org m = org \<and> m_user_id m = uid) (memberships db)"

definition members_of :: "db \<Rightarrow> uuid \<Rightarrow> membership list" where
  "members_of db org = filter (\<lambda>m. m_org m = org) (memberships db)"

definition members_in_order :: "db \<Rightarrow> uuid \<Rightarrow> membership list" where
  "members_in_order db org = sort_key (\<lambda>m. (m_created_at m, m_id m)) (members_of db org)"

definition count_with_role :: "db \<Rightarrow> uuid \<Rightarrow> membership_role \<Rightarrow> nat" where
  "count_with_role db org role = length (filter (\<lambda>m. m_role m = role) (members_of db org))"

text \<open>Inserts, with the constraints of \<^verbatim>\<open>models/user.py\<close>, \<^verbatim>\<open>models/organization.py\<close> and \<^verbatim>\<open>models/membership.py\<close>.\<close>

definition user_checks :: "user \<Rightarrow> bool" where
  "user_checks u \<longleftrightarrow> u_email u = lower (u_email u) \<and>
     (CHR ''@'' \<in> set (u_email u) \<and> hd (u_email u) \<noteq> CHR ''@'') \<and>
     length (u_email u) \<le> 320 \<and> length (u_display_name u) \<le> 200"

definition insert_user :: "db \<Rightarrow> user \<Rightarrow> db result" where
  "insert_user db u =
     bindr (requirer (user_checks u \<and> u_id u \<notin> u_id ` set (users db) \<and> u_email u \<notin> u_email ` set (users db))
         (IntegrityError ''users'')) (\<lambda>_.
     Inr (db\<lparr>users := users db @ [u]\<rparr>))"

definition insert_organization :: "db \<Rightarrow> organization \<Rightarrow> db result" where
  "insert_organization db org =
     bindr (requirer (slug_pattern (o_slug org) \<and> length (o_name org) \<le> 200 \<and>
           o_id org \<notin> o_id ` set (organizations db) \<and> o_slug org \<notin> o_slug ` set (organizations db))
         (IntegrityError ''organizations'')) (\<lambda>_.
     Inr (db\<lparr>organizations := organizations db @ [org]\<rparr>))"

definition insert_membership :: "db \<Rightarrow> membership \<Rightarrow> db result" where
  "insert_membership db m =
     bindr (requirer (m_id m \<notin> m_id ` set (memberships db) \<and>
           (m_org m, m_user_id m) \<notin> (\<lambda>n. (m_org n, m_user_id n)) ` set (memberships db) \<and>
           m_org m \<in> o_id ` set (organizations db) \<and> m_user_id m \<in> u_id ` set (users db))
         (IntegrityError ''organization_memberships'')) (\<lambda>_.
     Inr (db\<lparr>memberships := memberships db @ [m]\<rparr>))"

text \<open>\<^verbatim>\<open>try: flush() except IntegrityError: raise ConflictError\<close>.\<close>

definition on_integrity :: "error \<Rightarrow> 'a result \<Rightarrow> 'a result" where
  "on_integrity e r = (case r of Inl (IntegrityError _) \<Rightarrow> Inl e | _ \<Rightarrow> r)"

lemma on_integrity_eq_Inr [result_simps]: "on_integrity e r = Inr x \<longleftrightarrow> r = Inr x"
  by (cases r) (auto simp: on_integrity_def split: error.splits)

section \<open>Authorization\<close>

definition NOT_A_MEMBER :: string where
  "NOT_A_MEMBER = ''not a member of this organization''"

text \<open>The user and the membership must both exist, and the user be active.\<close>

definition active_membership :: "db \<Rightarrow> uuid \<Rightarrow> uuid \<Rightarrow> membership option" where
  "active_membership db org uid = (case (get_user db uid, get_membership db org uid) of
      (Some u, Some m) \<Rightarrow> if u_is_active u then Some m else None
    | _ \<Rightarrow> None)"

definition require_permission :: "db \<Rightarrow> tenant_context \<Rightarrow> permission \<Rightarrow> membership_role result" where
  "require_permission db ctx p =
     bindr (some_or (active_membership db (ctx_org ctx) (ctx_user ctx)) (PermissionDeniedError NOT_A_MEMBER)) (\<lambda>m.
     bindr (requirer (has_permission (m_role m) p) (PermissionDeniedError ''role lacks permission'')) (\<lambda>_.
     bindr (requirer (in_scopes ctx p) (PermissionDeniedError ''token scope does not include permission'')) (\<lambda>_.
     Inr (m_role m))))"

text \<open>\<^verbatim>\<open>TenancyService.resolve\<close>.\<close>

definition resolve_context :: "db \<Rightarrow> uuid \<Rightarrow> uuid \<Rightarrow> tenant_context result" where
  "resolve_context db org uid =
     bindr (some_or (active_membership db org uid) (PermissionDeniedError NOT_A_MEMBER)) (\<lambda>m.
     Inr \<lparr>ctx_org = org, ctx_user = uid, ctx_role = m_role m, ctx_scopes = None,
        ctx_max_privacy_scope = None, ctx_agent_client_id = None\<rparr>)"

section \<open>Users, organizations, memberships\<close>

definition register_user :: "txn \<Rightarrow> string \<Rightarrow> string \<Rightarrow> db \<Rightarrow> (user \<times> db) result" where
  "register_user t email display_name db =
     bindr (normalize_email email) (\<lambda>normalized_email.
     bindr (normalize_name display_name ''display_name'') (\<lambda>name.
     bindr (requirer (get_by_email db normalized_email = None)
         (ConflictError ''a user with this email already exists'')) (\<lambda>_.
     let u = \<lparr>u_id = t_ids t 0, u_email = normalized_email, u_display_name = name, u_is_active = True,
              u_created_at = t_now t, u_updated_at = t_now t\<rparr> in
     bindr (on_integrity (ConflictError ''a user with this email already exists'') (insert_user db u))
       (\<lambda>db'. Inr (u, db')))))"

definition create_organization ::
  "txn \<Rightarrow> string \<Rightarrow> string \<Rightarrow> uuid \<Rightarrow> db \<Rightarrow> (organization \<times> db) result" where
  "create_organization t name slug creator_user_id db =
     bindr (normalize_slug slug) (\<lambda>normalized_slug.
     bindr (normalize_name name ''name'') (\<lambda>normalized_name.
     bindr (requirer (case get_user db creator_user_id of None \<Rightarrow> False | Some u \<Rightarrow> u_is_active u)
         (NotFoundError ''creator user not found'')) (\<lambda>_.
     bindr (requirer (get_by_slug db normalized_slug = None)
         (ConflictError ''an organization with this slug already exists'')) (\<lambda>_.
     let org = \<lparr>o_id = t_ids t 0, o_slug = normalized_slug, o_name = normalized_name,
              o_created_at = t_now t, o_updated_at = t_now t\<rparr> in
     bindr (on_integrity (ConflictError ''an organization with this slug already exists'')
         (insert_organization db org)) (\<lambda>db1.
     bindr (insert_membership db1 \<lparr>m_id = t_ids t 1, m_org = o_id org, m_user_id = creator_user_id,
         m_role = ADMIN, m_created_at = t_now t, m_updated_at = t_now t\<rparr>) (\<lambda>db2.
     Inr (org, db2)))))))"

definition authorize :: "db \<Rightarrow> tenant_context \<Rightarrow> permission \<Rightarrow> bool \<Rightarrow> unit result" where
  "authorize db ctx p lock =
     bindr (requirer (\<not> (lock \<and> \<not> lock_organization db (ctx_org ctx))) (PermissionDeniedError NOT_A_MEMBER)) (\<lambda>_.
     bindr (require_permission db ctx p) (\<lambda>_. Inr ()))"

definition list_members :: "db \<Rightarrow> tenant_context \<Rightarrow> membership list result" where
  "list_members db ctx =
     bindr (authorize db ctx READ_MEMBERS False) (\<lambda>_. Inr (members_in_order db (ctx_org ctx)))"

definition add_member ::
  "txn \<Rightarrow> tenant_context \<Rightarrow> uuid \<Rightarrow> membership_role \<Rightarrow> db \<Rightarrow> (membership \<times> db) result" where
  "add_member t ctx uid role db =
     bindr (authorize db ctx MANAGE_MEMBERS True) (\<lambda>_.
     bindr (requirer (case get_user db uid of None \<Rightarrow> False | Some u \<Rightarrow> u_is_active u)
         (NotFoundError ''user not found'')) (\<lambda>_.
     bindr (requirer (get_membership db (ctx_org ctx) uid = None)
         (ConflictError ''user is already a member of this organization'')) (\<lambda>_.
     let m = \<lparr>m_id = t_ids t 0, m_org = ctx_org ctx, m_user_id = uid, m_role = role,
              m_created_at = t_now t, m_updated_at = t_now t\<rparr> in
     bindr (on_integrity (ConflictError ''user is already a member of this organization'')
         (insert_membership db m)) (\<lambda>db'. Inr (m, db')))))"

definition require_member :: "db \<Rightarrow> uuid \<Rightarrow> uuid \<Rightarrow> membership result" where
  "require_member db org uid =
     some_or (get_membership db org uid) (NotFoundError ''membership not found'')"

definition ensure_another_admin :: "db \<Rightarrow> uuid \<Rightarrow> unit result" where
  "ensure_another_admin db org = requirer (\<not> count_with_role db org ADMIN \<le> 1)
     (InvariantViolationError ''an organization must keep at least one ADMIN'')"

definition set_role :: "membership \<Rightarrow> membership_role \<Rightarrow> instant \<Rightarrow> db \<Rightarrow> db" where
  "set_role m role now db = db\<lparr>memberships :=
     map (\<lambda>n. if m_id n = m_id m then n\<lparr>m_role := role, m_updated_at := now\<rparr> else n) (memberships db)\<rparr>"

text \<open>Assigning the role a member already has changes no column, so no row is updated.\<close>

definition change_role ::
  "txn \<Rightarrow> tenant_context \<Rightarrow> uuid \<Rightarrow> membership_role \<Rightarrow> db \<Rightarrow> db result" where
  "change_role t ctx uid role db =
     bindr (authorize db ctx MANAGE_MEMBERS True) (\<lambda>_.
     bindr (require_member db (ctx_org ctx) uid) (\<lambda>m.
     bindr (if m_role m = ADMIN \<and> role \<noteq> ADMIN then ensure_another_admin db (ctx_org ctx) else Inr ()) (\<lambda>_.
     Inr (if m_role m = role then db else set_role m role (t_now t) db))))"

definition delete_membership :: "membership \<Rightarrow> uuid \<Rightarrow> db \<Rightarrow> db result" where
  "delete_membership m org db =
     bindr (requirer (m_org m = org) (PyError ''ValueError'')) (\<lambda>_.
     Inr (db\<lparr>memberships := filter (\<lambda>n. m_id n \<noteq> m_id m) (memberships db)\<rparr>))"

definition remove_member :: "tenant_context \<Rightarrow> uuid \<Rightarrow> db \<Rightarrow> db result" where
  "remove_member ctx uid db =
     bindr (authorize db ctx MANAGE_MEMBERS True) (\<lambda>_.
     bindr (require_member db (ctx_org ctx) uid) (\<lambda>m.
     bindr (if m_role m = ADMIN then ensure_another_admin db (ctx_org ctx) else Inr ()) (\<lambda>_.
     delete_membership m (ctx_org ctx) db)))"

section \<open>Who is authorized\<close>

lemma active_membership_Some:
  "active_membership db org uid = Some m \<longleftrightarrow>
     (\<exists>u. get_user db uid = Some u \<and> u_is_active u \<and> get_membership db org uid = Some m)"
  by (auto simp: active_membership_def split: option.splits)

lemma require_permission_Inr:
  "require_permission db ctx p = Inr r \<longleftrightarrow>
     (\<exists>m. active_membership db (ctx_org ctx) (ctx_user ctx) = Some m \<and> m_role m = r \<and>
        has_permission r p \<and> in_scopes ctx p)"
  by (auto simp: require_permission_def result_simps)

lemma get_membership_SomeD:
  assumes "get_membership db org uid = Some m"
  shows "m \<in> set (memberships db)" "m_org m = org" "m_user_id m = uid"
  using find_SomeD [OF assms [unfolded get_membership_def]] by auto

lemma get_user_SomeD:
  assumes "get_user db uid = Some u"
  shows "u \<in> set (users db)" "u_id u = uid"
  using find_SomeD [OF assms [unfolded get_user_def]] by auto

section \<open>The invariant of the tenancy tables\<close>

abbreviation membership_key :: "membership \<Rightarrow> uuid \<times> uuid" where
  "membership_key m \<equiv> (m_org m, m_user_id m)"

definition tenancy_ok :: "db \<Rightarrow> bool" where
  "tenancy_ok db \<longleftrightarrow>
     distinct (map u_id (users db)) \<and> distinct (map u_email (users db)) \<and>
     distinct (map o_id (organizations db)) \<and> distinct (map o_slug (organizations db)) \<and>
     distinct (map m_id (memberships db)) \<and> distinct (map membership_key (memberships db)) \<and>
     (\<forall>m \<in> set (memberships db). m_org m \<in> o_id ` set (organizations db) \<and> m_user_id m \<in> u_id ` set (users db)) \<and>
     (\<forall>org \<in> set (organizations db). \<exists>m \<in> set (memberships db). m_org m = o_id org \<and> m_role m = ADMIN)"

lemma tenancy_ok_empty: "tenancy_ok empty_db"
  by (simp add: tenancy_ok_def empty_db_def)

lemma insert_user_ok: "tenancy_ok db \<Longrightarrow> insert_user db u = Inr db' \<Longrightarrow> tenancy_ok db'"
  by (auto simp: insert_user_def tenancy_ok_def result_simps)

lemma insert_membership_ok: "tenancy_ok db \<Longrightarrow> insert_membership db m = Inr db' \<Longrightarrow> tenancy_ok db'"
  by (auto simp: insert_membership_def tenancy_ok_def result_simps)

lemma insert_organization_and_admin_ok:
  assumes "tenancy_ok db" and "insert_organization db org = Inr db1"
    and "insert_membership db1 m = Inr db2" and "m_org m = o_id org" and "m_role m = ADMIN"
  shows "tenancy_ok db2"
  using assms
  by (auto simp: insert_organization_def insert_membership_def tenancy_ok_def result_simps)

lemma map_set_role:
  assumes "\<And>n. f (n\<lparr>m_role := role, m_updated_at := now\<rparr>) = f n"
  shows "map f (memberships (set_role m role now db)) = map f (memberships db)"
  using assms by (simp add: set_role_def)

lemma set_set_role:
  "set (memberships (set_role m role now db)) =
     (\<lambda>n. if m_id n = m_id m then n\<lparr>m_role := role, m_updated_at := now\<rparr> else n) ` set (memberships db)"
  by (simp add: set_role_def)

text \<open>Where two rows of the organization are ADMIN, one other than a given row is.\<close>

lemma another_admin:
  assumes "\<not> count_with_role db org ADMIN \<le> 1" and "distinct (map m_id (memberships db))"
  obtains n where "n \<in> set (memberships db)" "m_id n \<noteq> i" "m_org n = org" "m_role n = ADMIN"
proof -
  let ?as = "filter (\<lambda>m. m_role m = ADMIN) (members_of db org)"
  have d: "distinct (map m_id ?as)"
    using assms(2) by (simp add: members_of_def distinct_map_filter)
  have "\<exists>n \<in> set ?as. m_id n \<noteq> i"
  proof (rule ccontr)
    assume "\<not> (\<exists>n \<in> set ?as. m_id n \<noteq> i)"
    then have "set (map m_id ?as) \<subseteq> {i}" by auto
    then have "card (set (map m_id ?as)) \<le> 1" using card_mono [of "{i}"] by simp
    then have "length (map m_id ?as) \<le> 1" using distinct_card [OF d] by simp
    then show False using assms(1) by (simp add: count_with_role_def)
  qed
  then show thesis using that by (auto simp: members_of_def)
qed

lemma set_role_ok:
  assumes ok: "tenancy_ok db" and m: "m \<in> set (memberships db)"
    and safe: "m_role m = ADMIN \<and> role \<noteq> ADMIN \<longrightarrow> \<not> count_with_role db (m_org m) ADMIN \<le> 1"
  shows "tenancy_ok (set_role m role now db)"
proof -
  let ?db = "set_role m role now db"
  let ?f = "\<lambda>n. if m_id n = m_id m then n\<lparr>m_role := role, m_updated_at := now\<rparr> else n"
  have dm: "distinct (map m_id (memberships db))" using ok by (simp add: tenancy_ok_def)
  have others: "users ?db = users db" "organizations ?db = organizations db"
    by (simp_all add: set_role_def)
  have keys: "map m_id (memberships ?db) = map m_id (memberships db)"
    "map membership_key (memberships ?db) = map membership_key (memberships db)"
    by (rule map_set_role; simp)+
  have admin: "\<exists>n \<in> set (memberships ?db). m_org n = o_id org \<and> m_role n = ADMIN"
    if org: "org \<in> set (organizations db)" for org
  proof -
    obtain a where a: "a \<in> set (memberships db)" "m_org a = o_id org" "m_role a = ADMIN"
      using ok org by (auto simp: tenancy_ok_def)
    have "\<exists>n \<in> set (memberships db). m_org (?f n) = o_id org \<and> m_role (?f n) = ADMIN"
    proof (cases "m_id a = m_id m \<and> role \<noteq> ADMIN")
      case True
      then have "a = m" using distinct_map_eqD [OF dm a(1) m] by simp
      then obtain n where "n \<in> set (memberships db)" "m_id n \<noteq> m_id m" "m_org n = o_id org" "m_role n = ADMIN"
        using safe True a another_admin [OF _ dm, of "m_org m" "m_id m"] by metis
      then show ?thesis by auto
    next
      case False
      then show ?thesis using a by (intro bexI [of _ a]) auto
    qed
    then show ?thesis unfolding set_set_role by blast
  qed
  show ?thesis
    using ok admin unfolding tenancy_ok_def others keys by (auto simp: set_set_role)
qed

lemma delete_membership_ok:
  assumes ok: "tenancy_ok db" and m: "m \<in> set (memberships db)"
    and safe: "m_role m = ADMIN \<longrightarrow> \<not> count_with_role db (m_org m) ADMIN \<le> 1"
    and del: "delete_membership m org db = Inr db'"
  shows "tenancy_ok db'"
proof -
  have db': "db' = db\<lparr>memberships := filter (\<lambda>n. m_id n \<noteq> m_id m) (memberships db)\<rparr>"
    using del by (simp add: delete_membership_def result_simps)
  have dm: "distinct (map m_id (memberships db))" using ok by (simp add: tenancy_ok_def)
  have admin: "\<exists>n \<in> set (memberships db). m_id n \<noteq> m_id m \<and> m_org n = o_id o' \<and> m_role n = ADMIN"
    if o': "o' \<in> set (organizations db)" for o'
  proof -
    obtain a where a: "a \<in> set (memberships db)" "m_org a = o_id o'" "m_role a = ADMIN"
      using ok o' by (auto simp: tenancy_ok_def)
    show ?thesis
    proof (cases "m_id a = m_id m")
      case True
      then have "a = m" using distinct_map_eqD [OF dm a(1) m] by simp
      then show ?thesis using safe a another_admin [OF _ dm, of "m_org m" "m_id m"] by metis
    qed (use a in blast)
  qed
  show ?thesis
    using ok admin unfolding tenancy_ok_def db' by (simp add: distinct_map_filter Bex_def conj_ac)
qed

section \<open>Requests\<close>

lemma register_user_ok: "tenancy_ok db \<Longrightarrow> register_user t e n db = Inr (u, db') \<Longrightarrow> tenancy_ok db'"
  by (auto simp: register_user_def Let_def result_simps intro: insert_user_ok)

lemma create_organization_ok:
  "tenancy_ok db \<Longrightarrow> create_organization t n sl uid db = Inr (org, db') \<Longrightarrow> tenancy_ok db'"
  by (auto simp: create_organization_def Let_def result_simps intro: insert_organization_and_admin_ok)

lemma add_member_ok: "tenancy_ok db \<Longrightarrow> add_member t ctx uid r db = Inr (m, db') \<Longrightarrow> tenancy_ok db'"
  by (auto simp: add_member_def Let_def result_simps intro: insert_membership_ok)

lemma change_role_cases:
  assumes "change_role t ctx uid r db = Inr db'"
  obtains "db' = db"
  | m where "m \<in> set (memberships db)" "m_org m = ctx_org ctx"
      "m_role m = ADMIN \<and> r \<noteq> ADMIN \<longrightarrow> \<not> count_with_role db (m_org m) ADMIN \<le> 1"
      "db' = set_role m r (t_now t) db"
  using assms
  by (auto simp: change_role_def require_member_def ensure_another_admin_def result_simps
      dest: get_membership_SomeD split: if_splits)

lemma remove_member_cases:
  assumes "remove_member ctx uid db = Inr db'"
  obtains m where "m \<in> set (memberships db)" "m_org m = ctx_org ctx"
    "m_role m = ADMIN \<longrightarrow> \<not> count_with_role db (m_org m) ADMIN \<le> 1"
    "delete_membership m (ctx_org ctx) db = Inr db'"
  using assms
  by (auto simp: remove_member_def require_member_def ensure_another_admin_def result_simps
      dest: get_membership_SomeD split: if_splits)

lemma change_role_ok: "tenancy_ok db \<Longrightarrow> change_role t ctx uid r db = Inr db' \<Longrightarrow> tenancy_ok db'"
  by (erule change_role_cases) (auto intro: set_role_ok)

lemma remove_member_ok: "tenancy_ok db \<Longrightarrow> remove_member ctx uid db = Inr db' \<Longrightarrow> tenancy_ok db'"
  by (erule remove_member_cases) (auto intro: delete_membership_ok)

text \<open>The requests that change these tables, each with the transaction it runs in.\<close>

datatype tenancy_op =
    RegisterUser txn string string
  | CreateOrganization txn string string uuid
  | AddMember txn tenant_context uuid membership_role
  | ChangeRole txn tenant_context uuid membership_role
  | RemoveMember tenant_context uuid

fun tenancy_exec :: "tenancy_op \<Rightarrow> db \<Rightarrow> db result" where
  "tenancy_exec (RegisterUser t e n) db = bindr (register_user t e n db) (\<lambda>r. Inr (snd r))"
| "tenancy_exec (CreateOrganization t n sl uid) db = bindr (create_organization t n sl uid db) (\<lambda>r. Inr (snd r))"
| "tenancy_exec (AddMember t ctx uid r) db = bindr (add_member t ctx uid r db) (\<lambda>r. Inr (snd r))"
| "tenancy_exec (ChangeRole t ctx uid r) db = change_role t ctx uid r db"
| "tenancy_exec (RemoveMember ctx uid) db = remove_member ctx uid db"

lemma tenancy_exec_ok:
  assumes "tenancy_ok db" and "tenancy_exec op db = Inr db'"
  shows "tenancy_ok db'"
  using assms
  by (cases op) (auto simp: result_simps intro: register_user_ok create_organization_ok
      add_member_ok change_role_ok remove_member_ok)

interpretation tenancy: transactional tenancy_exec tenancy_ok
  by unfold_locales (rule tenancy_exec_ok)

text \<open>
  The tenant a membership request acts for. Registering a user acts for none, and creating
  an organization only for the one it creates, whose identifier is the first one drawn.
\<close>

fun tenancy_actor :: "tenancy_op \<Rightarrow> uuid option" where
  "tenancy_actor (RegisterUser t e n) = None"
| "tenancy_actor (CreateOrganization t n sl uid) = Some (t_ids t 0)"
| "tenancy_actor (AddMember t ctx uid r) = Some (ctx_org ctx)"
| "tenancy_actor (ChangeRole t ctx uid r) = Some (ctx_org ctx)"
| "tenancy_actor (RemoveMember ctx uid) = Some (ctx_org ctx)"

lemma members_of_set_role:
  assumes "m_org m \<noteq> org" and "distinct (map m_id (memberships db))" and "m \<in> set (memberships db)"
  shows "members_of (set_role m r now db) org = members_of db org"
proof -
  have "\<not> m_id n = m_id m" if "n \<in> set (memberships db)" "m_org n = org" for n
    using assms that distinct_map_eqD [of m_id "memberships db" n m] by auto
  then show ?thesis
    unfolding members_of_def set_role_def by (auto simp: filter_map o_def intro!: map_idI_on cong: filter_cong)
qed

lemma members_of_insert: "insert_membership db m = Inr db' \<Longrightarrow> m_org m \<noteq> org \<Longrightarrow> members_of db' org = members_of db org"
  by (auto simp: insert_membership_def members_of_def result_simps)

lemma members_of_insert_user [simp]: "insert_user db u = Inr db' \<Longrightarrow> members_of db' org = members_of db org"
  by (auto simp: insert_user_def members_of_def result_simps)

lemma members_of_insert_organization [simp]:
  "insert_organization db x = Inr db' \<Longrightarrow> members_of db' org = members_of db org"
  by (auto simp: insert_organization_def members_of_def result_simps)

lemma members_of_delete:
  assumes "delete_membership m org' db = Inr db'" and "m_org m \<noteq> org"
    and "distinct (map m_id (memberships db))" and "m \<in> set (memberships db)"
  shows "members_of db' org = members_of db org"
proof -
  have "\<not> m_id n = m_id m" if "n \<in> set (memberships db)" "m_org n = org" for n
    using assms that distinct_map_eqD [of m_id "memberships db" n m] by auto
  then have "filter (\<lambda>n. m_id n \<noteq> m_id m \<and> m_org n = org) (memberships db) =
      filter (\<lambda>n. m_org n = org) (memberships db)"
    by (auto intro: filter_cong)
  then show ?thesis
    using assms(1) by (auto simp: delete_membership_def members_of_def result_simps)
qed

lemma tenancy_exec_frame:
  assumes ok: "tenancy_ok db" and ex: "tenancy_exec op db = Inr db'" and act: "tenancy_actor op \<noteq> Some org"
  shows "members_of db' org = members_of db org"
proof (cases op)
  case (RegisterUser t e n)
  then show ?thesis using ex by (auto simp: register_user_def Let_def result_simps)
next
  case (CreateOrganization t n sl uid)
  then show ?thesis
    using ex act by (auto simp: create_organization_def Let_def result_simps dest!: members_of_insert [where org = org])
next
  case (AddMember t ctx uid r)
  then show ?thesis
    using ex act by (auto simp: add_member_def Let_def result_simps dest!: members_of_insert [where org = org])
next
  case (ChangeRole t ctx uid r)
  then show ?thesis
    using ex act ok by (auto elim!: change_role_cases simp: members_of_set_role tenancy_ok_def)
next
  case (RemoveMember ctx uid)
  then show ?thesis
    using ex act ok by (auto elim!: remove_member_cases intro: members_of_delete simp: tenancy_ok_def)
qed

interpretation tenancy_scope: tenant_scoped tenancy_exec tenancy_ok tenancy_actor "\<lambda>org db. members_of db org"
  by unfold_locales (rule tenancy_exec_frame)

section \<open>Properties\<close>

text \<open>A concrete tenant used by the witnesses: two users, one organization, an engineer added.\<close>

definition sample_txn :: "nat \<Rightarrow> instant \<Rightarrow> txn" where
  "sample_txn base now = \<lparr>t_now = now, t_clock = now, t_ids = (\<lambda>n. base + n)\<rparr>"

definition admin_ctx :: tenant_context where
  "admin_ctx = \<lparr>ctx_org = 200, ctx_user = 100, ctx_role = ADMIN, ctx_scopes = None,
     ctx_max_privacy_scope = None, ctx_agent_client_id = None\<rparr>"

definition sample_setup :: "tenancy_op list" where
  "sample_setup =
     [RegisterUser (sample_txn 100 1) ''Ada@example.com'' ''Ada'',
      RegisterUser (sample_txn 110 2) ''bob@example.com'' ''Bob'',
      CreateOrganization (sample_txn 200 3) ''Acme'' ''acme'' 100,
      AddMember (sample_txn 300 4) admin_ctx 110 ENGINEER]"

text \<open>
  C26. An organization always keeps an ADMIN: after any sequence of registrations,
  organization and membership requests, whatever their transactions and contexts, every
  organization has at least one member whose role is ADMIN.
\<close>

theorem organization_keeps_admin:
  "\<forall>org \<in> set (organizations (run_txns tenancy_exec ops empty_db)).
     1 \<le> count_with_role (run_txns tenancy_exec ops empty_db) (o_id org) ADMIN"
proof
  let ?db = "run_txns tenancy_exec ops empty_db"
  fix org assume org: "org \<in> set (organizations ?db)"
  have "tenancy_ok ?db" by (rule tenancy.run_preserves [OF tenancy_ok_empty])
  then obtain m where "m \<in> set (memberships ?db)" "m_org m = o_id org" "m_role m = ADMIN"
    using org by (auto simp: tenancy_ok_def)
  then have "filter (\<lambda>m. m_role m = ADMIN) (members_of ?db (o_id org)) \<noteq> []"
    by (auto simp: members_of_def filter_empty_conv)
  then show "1 \<le> count_with_role ?db (o_id org) ADMIN"
    by (simp add: count_with_role_def Suc_le_eq)
qed

text \<open>Witness: the sole ADMIN tries to leave; the request is refused and the ADMIN stays.\<close>

theorem organization_keeps_admin_witness:
  "map o_id (organizations (run_txns tenancy_exec (sample_setup @ [RemoveMember admin_ctx 100]) empty_db)) = [200] \<and>
   1 \<le> count_with_role (run_txns tenancy_exec (sample_setup @ [RemoveMember admin_ctx 100]) empty_db) 200 ADMIN"
proof -
  let ?db = "run_txns tenancy_exec (sample_setup @ [RemoveMember admin_ctx 100]) empty_db"
  have ids: "map o_id (organizations ?db) = [200]" by code_simp
  then obtain org where "org \<in> set (organizations ?db)" "o_id org = 200" by auto
  then show ?thesis
    using ids organization_keeps_admin [of "sample_setup @ [RemoveMember admin_ctx 100]"] by auto
qed


text \<open>
  Tenant isolation of memberships: requests that act for other tenants, in any number
  and order, leave the members of an organization exactly as they were.
\<close>

theorem membership_isolation:
  assumes "\<forall>op \<in> set ops. tenancy_actor op \<noteq> Some org"
  shows "members_of (run_txns tenancy_exec ops (run_txns tenancy_exec setup empty_db)) org =
    members_of (run_txns tenancy_exec setup empty_db) org"
  by (rule tenancy_scope.run_other_tenants [OF tenancy.run_preserves [OF tenancy_ok_empty] assms])

text \<open>Witness: another organization is created and gets a member; the first keeps its two.\<close>

theorem membership_isolation_witness:
  "map m_user_id (members_of (run_txns tenancy_exec
     [CreateOrganization (sample_txn 400 5) ''Other'' ''other'' 110,
      AddMember (sample_txn 500 6) (admin_ctx\<lparr>ctx_org := 400, ctx_user := 110\<rparr>) 100 VIEWER]
     (run_txns tenancy_exec sample_setup empty_db)) 200) = [100, 110]"
proof -
  have "map m_user_id (members_of (run_txns tenancy_exec sample_setup empty_db) 200) = [100, 110]"
    by code_simp
  moreover have "\<forall>op \<in> set [CreateOrganization (sample_txn 400 5) ''Other'' ''other'' 110,
      AddMember (sample_txn 500 6) (admin_ctx\<lparr>ctx_org := 400, ctx_user := 110\<rparr>) 100 VIEWER].
      tenancy_actor op \<noteq> Some 200"
    by (simp add: sample_txn_def)
  ultimately show ?thesis using membership_isolation by presburger
qed

end
