(* ===== verification/Fact_Store.thy ===== *)
theory Fact_Store
  imports Fact_Rules Tenancy
begin

text \<open>
  The tables behind facts: \<^verbatim>\<open>repositories/facts.py\<close> with the constraints that
  \<^verbatim>\<open>models/fact.py\<close>, \<^verbatim>\<open>models/entity.py\<close>, \<^verbatim>\<open>models/source.py\<close>, \<^verbatim>\<open>models/contradiction.py\<close> and
  migration 0003 declare. A write that violates a constraint is an \<open>IntegrityError\<close>. The
  second half states the version chain of a fact, the invariant the write path keeps, and
  derives from it that no two versions of a fact are valid at one instant.
\<close>

section \<open>Constraints\<close>

definition version_checks :: "fact_version \<Rightarrow> bool" where
  "version_checks v \<longleftrightarrow> 1 \<le> fv_version v \<and>
     (fv_version v = 1) = (fv_supersedes_id v = None) \<and>
     starts_before_end (fv_valid_from v) (fv_valid_until v) \<and>
     (fv_valid_until v = None) = (fv_valid_until_recorded_at v = None) \<and>
     0 \<le> fv_authority v \<and> fv_authority v \<le> 100 \<and>
     0 \<le> fv_confidence v \<and> fv_confidence v \<le> 1 \<and> fv_value v \<noteq> PNone"

definition versions_overlap :: "fact_version \<Rightarrow> fact_version \<Rightarrow> bool" where
  "versions_overlap v w \<longleftrightarrow> fv_fact_id v = fv_fact_id w \<and>
     ranges_overlap (fv_valid_from v) (fv_valid_until v) (fv_valid_from w) (fv_valid_until w)"

definition version_fks :: "db \<Rightarrow> fact_version \<Rightarrow> bool" where
  "version_fks db v \<longleftrightarrow> (fv_org v, fv_fact_id v) \<in> (\<lambda>f. (f_org f, f_id f)) ` set (facts db) \<and>
     (fv_org v, fv_source_id v) \<in> (\<lambda>s. (s_org s, s_id s)) ` set (sources db) \<and>
     (case fv_supersedes_id v of None \<Rightarrow> True
      | Some i \<Rightarrow> (fv_fact_id v, i) \<in> (\<lambda>w. (fv_fact_id w, fv_id w)) ` set (fact_versions db))"

definition version_uniques :: "db \<Rightarrow> fact_version \<Rightarrow> bool" where
  "version_uniques db v \<longleftrightarrow> fv_id v \<notin> fv_id ` set (fact_versions db) \<and>
     (fv_fact_id v, fv_version v) \<notin> (\<lambda>w. (fv_fact_id w, fv_version w)) ` set (fact_versions db) \<and>
     (fv_supersedes_id v = None \<or> fv_supersedes_id v \<notin> fv_supersedes_id ` set (fact_versions db))"

definition insert_version :: "db \<Rightarrow> fact_version \<Rightarrow> db result" where
  "insert_version db v =
     bindr (requirer (version_checks v \<and> version_uniques db v \<and> version_fks db v \<and>
           (\<forall>w \<in> set (fact_versions db). \<not> versions_overlap v w))
         (IntegrityError ''fact_versions'')) (\<lambda>_.
     Inr (db\<lparr>fact_versions := fact_versions db @ [v]\<rparr>))"

text \<open>
  The trigger \<^verbatim>\<open>fact_versions_enforce_append_only\<close> on an update of \<open>old\<close> to \<open>new\<close>: only the
  two end columns may change, and only while the end is not set.
\<close>

definition append_only_update :: "fact_version \<Rightarrow> fact_version \<Rightarrow> bool" where
  "append_only_update old new \<longleftrightarrow>
     new = old\<lparr>fv_valid_until := fv_valid_until new, fv_valid_until_recorded_at := fv_valid_until_recorded_at new\<rparr> \<and>
     (fv_valid_until old \<noteq> None \<longrightarrow>
        fv_valid_until new = fv_valid_until old \<and>
        fv_valid_until_recorded_at new = fv_valid_until_recorded_at old)"

definition entity_checks :: "entity \<Rightarrow> bool" where
  "entity_checks e \<longleftrightarrow> identifier_pattern (en_type e) \<and> length (en_type e) \<le> 128 \<and>
     1 \<le> length (en_external_id e) \<and> length (en_external_id e) \<le> 256"

definition fact_checks :: "fact \<Rightarrow> bool" where
  "fact_checks f \<longleftrightarrow> identifier_pattern (f_property f) \<and> length (f_property f) \<le> 128"

definition source_checks :: "fact_source \<Rightarrow> bool" where
  "source_checks s \<longleftrightarrow> length (s_name s) \<le> 200 \<and> 0 \<le> s_default_authority s \<and> s_default_authority s \<le> 100"

abbreviation entity_key :: "entity \<Rightarrow> uuid \<times> string \<times> string" where
  "entity_key e \<equiv> (en_org e, en_type e, en_external_id e)"

abbreviation fact_key :: "fact \<Rightarrow> uuid \<times> uuid \<times> string" where
  "fact_key f \<equiv> (f_org f, f_entity_id f, f_property f)"

abbreviation source_key :: "fact_source \<Rightarrow> uuid \<times> string" where
  "source_key s \<equiv> (s_org s, s_name s)"

section \<open>Queries and writes of the repository\<close>

definition insert_source :: "db \<Rightarrow> fact_source \<Rightarrow> db result" where
  "insert_source db s =
     bindr (requirer (source_checks s \<and> s_id s \<notin> s_id ` set (sources db) \<and>
           source_key s \<notin> source_key ` set (sources db) \<and> s_org s \<in> o_id ` set (organizations db))
         (IntegrityError ''fact_sources'')) (\<lambda>_.
     Inr (db\<lparr>sources := sources db @ [s]\<rparr>))"

definition get_source :: "db \<Rightarrow> uuid \<Rightarrow> uuid \<Rightarrow> fact_source option" where
  "get_source db org sid = find (\<lambda>s. s_org s = org \<and> s_id s = sid) (sources db)"

definition get_source_by_name :: "db \<Rightarrow> uuid \<Rightarrow> string \<Rightarrow> fact_source option" where
  "get_source_by_name db org name = find (\<lambda>s. s_org s = org \<and> s_name s = name) (sources db)"

definition find_entity :: "db \<Rightarrow> uuid \<Rightarrow> string \<Rightarrow> string \<Rightarrow> entity option" where
  "find_entity db org etype ext = find (\<lambda>e. entity_key e = (org, etype, ext)) (entities db)"

text \<open>
  \<^verbatim>\<open>INSERT ... ON CONFLICT DO NOTHING\<close> on the natural key, then a read: only the other
  constraints can fail.
\<close>

definition get_or_create_entity :: "txn \<Rightarrow> nat \<Rightarrow> uuid \<Rightarrow> string \<Rightarrow> string \<Rightarrow> db \<Rightarrow> (entity \<times> db) result" where
  "get_or_create_entity t n org etype ext db = (case find_entity db org etype ext of
      Some e \<Rightarrow> Inr (e, db)
    | None \<Rightarrow> (let e = \<lparr>en_id = t_ids t n, en_org = org, en_type = etype, en_external_id = ext,
          en_display_name = None, en_created_at = t_now t, en_updated_at = t_now t\<rparr> in
        bindr (requirer (entity_checks e \<and> en_id e \<notin> en_id ` set (entities db) \<and>
            org \<in> o_id ` set (organizations db)) (IntegrityError ''entities'')) (\<lambda>_.
        Inr (e, db\<lparr>entities := entities db @ [e]\<rparr>))))"

definition find_fact :: "db \<Rightarrow> uuid \<Rightarrow> uuid \<Rightarrow> string \<Rightarrow> fact option" where
  "find_fact db org eid pr = find (\<lambda>f. fact_key f = (org, eid, pr)) (facts db)"

definition get_or_create_fact :: "txn \<Rightarrow> nat \<Rightarrow> uuid \<Rightarrow> uuid \<Rightarrow> string \<Rightarrow> db \<Rightarrow> (fact \<times> db) result" where
  "get_or_create_fact t n org eid pr db = (case find_fact db org eid pr of
      Some f \<Rightarrow> Inr (f, db)
    | None \<Rightarrow> (let f = \<lparr>f_id = t_ids t n, f_org = org, f_entity_id = eid, f_property = pr,
          f_created_at = t_now t, f_updated_at = t_now t\<rparr> in
        bindr (requirer (fact_checks f \<and> f_id f \<notin> f_id ` set (facts db) \<and>
            (org, eid) \<in> (\<lambda>e. (en_org e, en_id e)) ` set (entities db)) (IntegrityError ''facts'')) (\<lambda>_.
        Inr (f, db\<lparr>facts := facts db @ [f]\<rparr>))))"

definition get_fact_row :: "db \<Rightarrow> uuid \<Rightarrow> uuid \<Rightarrow> fact option" where
  "get_fact_row db org fid = find (\<lambda>f. f_org f = org \<and> f_id f = fid) (facts db)"

definition versions_of :: "db \<Rightarrow> uuid \<Rightarrow> uuid \<Rightarrow> fact_version list" where
  "versions_of db org fid = filter (\<lambda>v. fv_org v = org \<and> fv_fact_id v = fid) (fact_versions db)"

text \<open>\<^verbatim>\<open>ORDER BY version DESC LIMIT 1\<close>.\<close>

definition latest_version_row :: "db \<Rightarrow> uuid \<Rightarrow> uuid \<Rightarrow> fact_version option" where
  "latest_version_row db org fid =
     (case sort_key (\<lambda>v. - fv_version v) (versions_of db org fid) of [] \<Rightarrow> None | v # _ \<Rightarrow> Some v)"

definition next_transaction_time :: "txn \<Rightarrow> fact_version option \<Rightarrow> instant" where
  "next_transaction_time t latest = (case latest of
      None \<Rightarrow> t_clock t
    | Some v \<Rightarrow> if t_clock t \<le> fv_recorded_at v then fv_recorded_at v + 1 else t_clock t)"

definition close_row :: "instant \<Rightarrow> instant \<Rightarrow> fact_version \<Rightarrow> fact_version" where
  "close_row until rec v = v\<lparr>fv_valid_until := Some until, fv_valid_until_recorded_at := Some rec\<rparr>"

text \<open>
  \<^verbatim>\<open>UPDATE ... WHERE organization_id, id, valid_until IS NULL\<close>: the updated rows must satisfy
  the checks, the trigger and the exclusion constraint.
\<close>

definition close_version :: "uuid \<Rightarrow> fact_version \<Rightarrow> instant \<Rightarrow> instant \<Rightarrow> db \<Rightarrow> db result" where
  "close_version org v until rec db = (let
      hit = (\<lambda>w. fv_org w = org \<and> fv_id w = fv_id v \<and> fv_valid_until w = None);
      upd = (\<lambda>w. if hit w then close_row until rec w else w) in
     bindr (requirer (\<forall>w \<in> set (fact_versions db). hit w \<longrightarrow>
           version_checks (upd w) \<and> append_only_update w (upd w) \<and>
           (\<forall>x \<in> set (fact_versions db). fv_id x \<noteq> fv_id w \<longrightarrow> \<not> versions_overlap (upd w) x))
         (IntegrityError ''fact_versions'')) (\<lambda>_.
     Inr (db\<lparr>fact_versions := map upd (fact_versions db)\<rparr>)))"

definition get_version_row :: "db \<Rightarrow> uuid \<Rightarrow> uuid \<Rightarrow> fact_version option" where
  "get_version_row db org vid = find (\<lambda>v. fv_org v = org \<and> fv_id v = vid) (fact_versions db)"

definition list_version_rows :: "db \<Rightarrow> uuid \<Rightarrow> uuid \<Rightarrow> fact_version list" where
  "list_version_rows db org fid = sort_key fv_version (versions_of db org fid)"

definition contradiction_checks :: "db \<Rightarrow> contradiction \<Rightarrow> bool" where
  "contradiction_checks db c \<longleftrightarrow> c_left_version_id c \<noteq> c_right_version_id c \<and>
     (c_status c = OPEN) = (c_resolved_at c = None) \<and>
     (c_org c, c_entity_id c) \<in> (\<lambda>e. (en_org e, en_id e)) ` set (entities db) \<and>
     (c_org c, c_left_version_id c) \<in> (\<lambda>v. (fv_org v, fv_id v)) ` set (fact_versions db) \<and>
     (c_org c, c_right_version_id c) \<in> (\<lambda>v. (fv_org v, fv_id v)) ` set (fact_versions db)"

abbreviation contradiction_key :: "contradiction \<Rightarrow> uuid \<times> uuid \<times> uuid" where
  "contradiction_key c \<equiv> (c_org c, c_left_version_id c, c_right_version_id c)"

definition insert_contradiction :: "db \<Rightarrow> contradiction \<Rightarrow> db result" where
  "insert_contradiction db c =
     bindr (requirer (contradiction_checks db c \<and> c_id c \<notin> c_id ` set (contradictions db) \<and>
           contradiction_key c \<notin> contradiction_key ` set (contradictions db))
         (IntegrityError ''contradictions'')) (\<lambda>_.
     Inr (db\<lparr>contradictions := contradictions db @ [c]\<rparr>))"

section \<open>The chain of versions of one fact\<close>

text \<open>
  A later version carries the next number, names its predecessor, was recorded strictly
  later, and begins no earlier than the end the predecessor has; that end was learned no
  later than the successor was recorded.
\<close>

definition chain_link :: "fact_version \<Rightarrow> fact_version \<Rightarrow> bool" where
  "chain_link v w \<longleftrightarrow> fv_version w = fv_version v + 1 \<and> fv_supersedes_id w = Some (fv_id v) \<and>
     fv_recorded_at v < fv_recorded_at w \<and>
     (\<exists>u r. fv_valid_until v = Some u \<and> u \<le> fv_valid_from w \<and>
        fv_valid_until_recorded_at v = Some r \<and> r \<le> fv_recorded_at w)"

lemma chain_link_code [code]:
  "chain_link v w \<longleftrightarrow> fv_version w = fv_version v + 1 \<and> fv_supersedes_id w = Some (fv_id v) \<and>
     fv_recorded_at v < fv_recorded_at w \<and>
     (case (fv_valid_until v, fv_valid_until_recorded_at v) of
        (Some u, Some r) \<Rightarrow> u \<le> fv_valid_from w \<and> r \<le> fv_recorded_at w | _ \<Rightarrow> False)"
  by (auto simp: chain_link_def split: option.splits)

definition row_ok :: "fact_version \<Rightarrow> bool" where
  "row_ok v \<longleftrightarrow> version_checks v \<and>
     (case fv_valid_until_recorded_at v of None \<Rightarrow> True | Some r \<Rightarrow> fv_recorded_at v \<le> r)"

definition chain_ok :: "fact_version list \<Rightarrow> bool" where
  "chain_ok vs \<longleftrightarrow> (vs \<noteq> [] \<longrightarrow> fv_version (hd vs) = 1) \<and> (\<forall>x \<in> set vs. row_ok x) \<and>
     successively chain_link vs"

text \<open>What holds between any earlier and any later version of a chain.\<close>

definition precedes :: "fact_version \<Rightarrow> fact_version \<Rightarrow> bool" where
  "precedes v w \<longleftrightarrow> fv_version v < fv_version w \<and> fv_recorded_at v < fv_recorded_at w \<and>
     fv_valid_from v < fv_valid_from w \<and>
     (\<exists>u r. fv_valid_until v = Some u \<and> u \<le> fv_valid_from w \<and>
        fv_valid_until_recorded_at v = Some r \<and> r \<le> fv_recorded_at w)"

lemma row_ok_ends:
  assumes "row_ok v" and "fv_valid_until v = Some u"
  shows "fv_valid_from v < u"
  using assms by (simp add: row_ok_def version_checks_def starts_before_end_def)

lemma chain_link_precedes: "chain_link v w \<Longrightarrow> row_ok v \<Longrightarrow> precedes v w"
  by (auto simp: chain_link_def precedes_def dest: row_ok_ends)

lemma precedes_trans: "precedes u v \<Longrightarrow> precedes v w \<Longrightarrow> precedes u w"
  unfolding precedes_def by force

lemma chain_precedes:
  assumes "\<forall>x \<in> set vs. row_ok x" and "successively chain_link vs"
  shows "sorted_wrt precedes vs"
proof -
  have "successively precedes vs"
    using assms by (induction chain_link vs rule: successively.induct) (auto intro: chain_link_precedes)
  moreover have "transp precedes" by (auto intro: transpI precedes_trans)
  ultimately show ?thesis by (simp add: successively_conv_sorted_wrt)
qed

lemma chain_ok_precedes: "chain_ok vs \<Longrightarrow> sorted_wrt precedes vs"
  by (auto intro: chain_precedes simp: chain_ok_def)

lemma chain_ok_rows: "chain_ok vs \<Longrightarrow> v \<in> set vs \<Longrightarrow> row_ok v"
  by (simp add: chain_ok_def)

lemma precedes_no_overlap: "precedes v w \<Longrightarrow> \<not> versions_overlap v w"
  by (auto simp: precedes_def versions_overlap_def ranges_overlap_def starts_before_end_def)

lemma chain_ok_snoc:
  assumes "chain_ok (vs @ [l])" and "chain_link l v" and "row_ok v"
  shows "chain_ok (vs @ [l] @ [v])"
  using assms by (auto simp: chain_ok_def successively_append_iff hd_append split: if_splits)

lemma chain_ok_single: "fv_version v = 1 \<Longrightarrow> row_ok v \<Longrightarrow> chain_ok [v]"
  by (simp add: chain_ok_def)

text \<open>Closing the last, open version keeps the chain.\<close>

lemma chain_ok_close_last:
  assumes ch: "chain_ok (vs @ [l])" and u: "fv_valid_from l < u" and r: "fv_recorded_at l \<le> r"
  shows "chain_ok (vs @ [close_row u r l])"
proof -
  have row: "row_ok (close_row u r l)"
    using chain_ok_rows [OF ch, of l] u r
    by (auto simp: row_ok_def version_checks_def close_row_def starts_before_end_def)
  have link: "chain_link x (close_row u r l) = chain_link x l" for x
    by (simp add: chain_link_def close_row_def)
  have ver: "fv_version (close_row u r l) = fv_version l" by (simp add: close_row_def)
  show ?thesis
    using ch row by (auto simp: chain_ok_def successively_append_iff hd_append link ver split: if_splits)
qed

section \<open>The invariant of the ledger\<close>

definition fact_rows :: "db \<Rightarrow> uuid \<Rightarrow> fact_version list" where
  "fact_rows db fid = filter (\<lambda>v. fv_fact_id v = fid) (fact_versions db)"

definition ledger_keys_ok :: "db \<Rightarrow> bool" where
  "ledger_keys_ok db \<longleftrightarrow>
     distinct (map f_id (facts db)) \<and> distinct (map fact_key (facts db)) \<and>
     distinct (map en_id (entities db)) \<and> distinct (map entity_key (entities db)) \<and>
     distinct (map s_id (sources db)) \<and> distinct (map source_key (sources db)) \<and>
     (\<forall>f \<in> set (facts db). (f_org f, f_entity_id f) \<in> (\<lambda>e. (en_org e, en_id e)) ` set (entities db)) \<and>
     (\<forall>s \<in> set (sources db). source_checks s)"

definition ledger_ok :: "db \<Rightarrow> bool" where
  "ledger_ok db \<longleftrightarrow> ledger_keys_ok db \<and> distinct (map fv_id (fact_versions db)) \<and>
     (\<forall>v \<in> set (fact_versions db). chain_ok (fact_rows db (fv_fact_id v)) \<and> version_fks db v)"

lemma ledger_ok_empty: "ledger_ok empty_db"
  by (simp add: ledger_ok_def ledger_keys_ok_def empty_db_def)

lemma ledger_ok_cong:
  assumes "facts db' = facts db" "entities db' = entities db" "sources db' = sources db"
    "fact_versions db' = fact_versions db"
  shows "ledger_ok db' = ledger_ok db"
  unfolding ledger_ok_def ledger_keys_ok_def fact_rows_def version_fks_def assms by (rule refl)

lemma ledger_chain:
  assumes "ledger_ok db"
  shows "chain_ok (fact_rows db fid)"
proof (cases "fact_rows db fid")
  case (Cons v vs)
  then have "v \<in> set (fact_rows db fid)" by simp
  then have "v \<in> set (fact_versions db)" "fv_fact_id v = fid" by (auto simp: fact_rows_def)
  then show ?thesis using assms by (auto simp: ledger_ok_def)
qed (simp add: chain_ok_def)

lemma fact_rows_in: "v \<in> set (fact_rows db fid) \<longleftrightarrow> v \<in> set (fact_versions db) \<and> fv_fact_id v = fid"
  by (auto simp: fact_rows_def)

lemma ledger_row_ok: "ledger_ok db \<Longrightarrow> v \<in> set (fact_versions db) \<Longrightarrow> row_ok v"
  using ledger_chain [of db "fv_fact_id v"] by (auto simp: fact_rows_in intro: chain_ok_rows)

text \<open>All versions of a fact belong to the organization of the fact.\<close>

lemma ledger_version_org:
  assumes ok: "ledger_ok db" and v: "v \<in> set (fact_versions db)" and f: "f \<in> set (facts db)"
    and id: "f_id f = fv_fact_id v"
  shows "fv_org v = f_org f"
proof -
  obtain g where g: "g \<in> set (facts db)" "f_org g = fv_org v" "f_id g = fv_fact_id v"
    using ok v by (auto simp: ledger_ok_def version_fks_def)
  then have "f = g" using ok f id by (auto simp: ledger_ok_def ledger_keys_ok_def dest: distinct_map_eqD)
  then show ?thesis using g by simp
qed

lemma versions_of_fact:
  assumes "ledger_ok db" and "f \<in> set (facts db)" and "f_org f = org" and "f_id f = fid"
  shows "versions_of db org fid = fact_rows db fid"
  unfolding versions_of_def fact_rows_def
  using assms ledger_version_org [of db _ f] by (intro filter_cong) auto

lemma sorted_versions:
  assumes "sorted_wrt precedes vs"
  shows "sort_key fv_version vs = vs"
proof (rule sort_key_id_if_sorted)
  show "sorted (map fv_version vs)"
    using assms by (auto simp: sorted_map precedes_def elim: sorted_wrt_mono_rel [rotated])
qed

lemma list_version_rows_fact:
  assumes "ledger_ok db" and "f \<in> set (facts db)" and "f_org f = org" and "f_id f = fid"
  shows "list_version_rows db org fid = fact_rows db fid"
  using assms by (simp add: list_version_rows_def versions_of_fact sorted_versions chain_ok_precedes ledger_chain)

lemma sort_desc_versions:
  assumes "sorted_wrt precedes vs"
  shows "sort_key (\<lambda>v. - fv_version v) vs = rev vs"
proof (rule properties_for_sort_key)
  show "mset (rev vs) = mset vs" by simp
  show "sorted (map (\<lambda>v. - fv_version v) (rev vs))"
    using assms by (auto simp: sorted_map sorted_wrt_rev precedes_def elim: sorted_wrt_mono_rel [rotated])
  fix v assume v: "v \<in> set (rev vs)"
  have "sorted_wrt (\<lambda>x y. \<not> (fv_version x = fv_version v \<and> fv_version y = fv_version v)) vs"
    using assms by (auto simp: precedes_def elim: sorted_wrt_mono_rel [rotated])
  then have "length (filter (\<lambda>y. fv_version y = fv_version v) vs) \<le> 1" by (rule sorted_wrt_exclusive)
  then have "rev (filter (\<lambda>y. fv_version y = fv_version v) vs) = filter (\<lambda>y. fv_version y = fv_version v) vs"
    by (rule length_le_1_cases) auto
  then show "filter (\<lambda>y. - fv_version v = - fv_version y) (rev vs) = filter (\<lambda>y. - fv_version v = - fv_version y) vs"
    by (simp add: rev_filter eq_commute)
qed

lemma latest_version_last:
  assumes "ledger_ok db" and "f \<in> set (facts db)" and "f_org f = org" and "f_id f = fid"
  shows "latest_version_row db org fid = (if fact_rows db fid = [] then None else Some (last (fact_rows db fid)))"
proof -
  have "sort_key (\<lambda>v. - fv_version v) (versions_of db org fid) = rev (fact_rows db fid)"
    using assms by (simp add: versions_of_fact sort_desc_versions chain_ok_precedes ledger_chain)
  then show ?thesis
    by (cases "fact_rows db fid" rule: rev_cases) (simp_all add: latest_version_row_def)
qed

section \<open>What the writes do to the invariant\<close>

lemma image_grow: "x \<in> f ` A \<Longrightarrow> A \<subseteq> B \<Longrightarrow> x \<in> f ` B"
  by blast

lemma version_fks_mono:
  assumes "version_fks db v" and "set (facts db) \<subseteq> set (facts db')" and "set (sources db) \<subseteq> set (sources db')"
    and "set (fact_versions db) \<subseteq> set (fact_versions db')"
  shows "version_fks db' v"
  using assms(1) unfolding version_fks_def
  by (intro conjI; elim conjE)
    (erule image_grow [OF _ assms(2)] image_grow [OF _ assms(3)]
      | cases "fv_supersedes_id v", simp, simp only: option.case, erule image_grow [OF _ assms(4)])+

lemma ledger_ok_grow:
  assumes ok: "ledger_ok db" and "ledger_keys_ok db'" and "fact_versions db' = fact_versions db"
    and "set (facts db) \<subseteq> set (facts db')" and "set (sources db) \<subseteq> set (sources db')"
  shows "ledger_ok db'"
  using assms version_fks_mono [of db _ db'] by (auto simp: ledger_ok_def fact_rows_def)

lemma insert_source_ok:
  assumes "ledger_ok db" and "insert_source db s = Inr db'"
  shows "ledger_ok db'"
proof (rule ledger_ok_grow [OF assms(1)])
  have db': "db' = db\<lparr>sources := sources db @ [s]\<rparr>" and new: "source_checks s"
    "s_id s \<notin> s_id ` set (sources db)" "source_key s \<notin> source_key ` set (sources db)"
    using assms(2) by (simp_all add: insert_source_def result_simps)
  show "ledger_keys_ok db'" using assms(1) new by (simp add: db' ledger_ok_def ledger_keys_ok_def)
qed (use assms(2) in \<open>auto simp: insert_source_def result_simps\<close>)

lemma find_entity_SomeD:
  "find_entity db org etype ext = Some e \<Longrightarrow> e \<in> set (entities db) \<and> entity_key e = (org, etype, ext)"
  unfolding find_entity_def by (drule find_SomeD) simp

lemma find_fact_SomeD:
  "find_fact db org eid pr = Some f \<Longrightarrow> f \<in> set (facts db) \<and> fact_key f = (org, eid, pr)"
  unfolding find_fact_def by (drule find_SomeD) simp

lemma find_entity_NoneD: "find_entity db org etype ext = None \<Longrightarrow> (org, etype, ext) \<notin> entity_key ` set (entities db)"
  by (auto simp: find_entity_def find_None)

lemma find_fact_NoneD: "find_fact db org eid pr = None \<Longrightarrow> (org, eid, pr) \<notin> fact_key ` set (facts db)"
  by (auto simp: find_fact_def find_None)

lemma get_source_SomeD:
  "get_source db org sid = Some s \<Longrightarrow> s \<in> set (sources db) \<and> s_org s = org \<and> s_id s = sid"
  unfolding get_source_def by (drule find_SomeD) simp

lemma get_fact_row_SomeD:
  "get_fact_row db org fid = Some f \<Longrightarrow> f \<in> set (facts db) \<and> f_org f = org \<and> f_id f = fid"
  unfolding get_fact_row_def by (drule find_SomeD) simp

lemma get_version_row_SomeD:
  "get_version_row db org vid = Some v \<Longrightarrow> v \<in> set (fact_versions db) \<and> fv_org v = org \<and> fv_id v = vid"
  unfolding get_version_row_def by (drule find_SomeD) simp

text \<open>What \<^verbatim>\<open>get_or_create_entity\<close> and \<^verbatim>\<open>get_or_create_fact\<close> leave behind.\<close>

lemma get_or_create_entity_Inr:
  assumes "get_or_create_entity t n org etype ext db = Inr (e, db')" and "ledger_ok db"
  shows "ledger_ok db'" "e \<in> set (entities db')" "en_org e = org" "fact_versions db' = fact_versions db"
    "facts db' = facts db" "sources db' = sources db" "db' = db\<lparr>entities := entities db'\<rparr>"
    "set (entities db) \<subseteq> set (entities db')"
proof -
  consider (old) "find_entity db org etype ext = Some e" "db' = db"
    | (new) "find_entity db org etype ext = None" "entity_key e = (org, etype, ext)" "db' = db\<lparr>entities := entities db @ [e]\<rparr>"
        "en_id e \<notin> en_id ` set (entities db)"
    using assms(1) by (auto simp: get_or_create_entity_def Let_def result_simps split: option.splits)
  then show "ledger_ok db'" "e \<in> set (entities db')" "en_org e = org" "fact_versions db' = fact_versions db"
    "facts db' = facts db" "sources db' = sources db" "db' = db\<lparr>entities := entities db'\<rparr>"
    "set (entities db) \<subseteq> set (entities db')"
    using assms(2) find_entity_SomeD [of db org etype ext e] find_entity_NoneD [of db org etype ext]
    by (cases; auto simp: ledger_ok_def ledger_keys_ok_def fact_rows_def version_fks_def split: option.splits)+
qed

lemma get_or_create_fact_Inr:
  assumes "get_or_create_fact t n org eid pr db = Inr (f, db')" and "ledger_ok db"
  shows "ledger_ok db'" "f \<in> set (facts db')" "f_org f = org" "fact_versions db' = fact_versions db"
    "entities db' = entities db" "sources db' = sources db" "db' = db\<lparr>facts := facts db'\<rparr>"
    "set (facts db) \<subseteq> set (facts db')" "\<exists>fs. facts db' = facts db @ fs"
proof -
  consider (old) "find_fact db org eid pr = Some f" "db' = db"
    | (new) "find_fact db org eid pr = None" "fact_key f = (org, eid, pr)" "db' = db\<lparr>facts := facts db @ [f]\<rparr>"
        "f_id f \<notin> f_id ` set (facts db)" "(org, eid) \<in> (\<lambda>e. (en_org e, en_id e)) ` set (entities db)"
    using assms(1) by (auto simp: get_or_create_fact_def Let_def result_simps split: option.splits)
  then show "ledger_ok db'" "f \<in> set (facts db')" "f_org f = org" "fact_versions db' = fact_versions db"
    "entities db' = entities db" "sources db' = sources db" "db' = db\<lparr>facts := facts db'\<rparr>"
    "set (facts db) \<subseteq> set (facts db')" "\<exists>fs. facts db' = facts db @ fs"
    using assms(2) find_fact_SomeD [of db org eid pr f] find_fact_NoneD [of db org eid pr]
    by (cases; auto simp: ledger_ok_def ledger_keys_ok_def fact_rows_def version_fks_def split: option.splits)+
qed

lemma insert_version_Inr:
  assumes "insert_version db v = Inr db'"
  shows "db' = db\<lparr>fact_versions := fact_versions db @ [v]\<rparr>" "version_checks v" "version_uniques db v" "version_fks db v"
  using assms by (auto simp: insert_version_def result_simps)

lemma insert_version_ok:
  assumes ok: "ledger_ok db" and ins: "insert_version db v = Inr db'"
    and ch: "chain_ok (fact_rows db (fv_fact_id v) @ [v])"
  shows "ledger_ok db'"
proof -
  note i = insert_version_Inr [OF ins]
  have rows: "fact_rows db' fid = fact_rows db fid @ (if fv_fact_id v = fid then [v] else [])" for fid
    using i(1) by (simp add: fact_rows_def)
  have mono: "version_fks db w \<Longrightarrow> version_fks db' w" for w
    using i(1) by (auto elim!: version_fks_mono)
  have keys: "ledger_keys_ok db'" using ok i(1) by (simp add: ledger_ok_def ledger_keys_ok_def)
  have ids: "distinct (map fv_id (fact_versions db'))"
    using ok i(1,3) by (simp add: ledger_ok_def version_uniques_def)
  have "chain_ok (fact_rows db' fid)" for fid
    using ledger_chain [OF ok, of fid] ch by (auto simp: rows)
  moreover have "version_fks db' w" if "w \<in> set (fact_versions db')" for w
    using that i(1,4) ok mono by (auto simp: ledger_ok_def)
  ultimately show ?thesis using keys ids by (simp add: ledger_ok_def)
qed

text \<open>Closing the last version of a fact changes that row and nothing else.\<close>

definition closed_db :: "fact_version \<Rightarrow> instant \<Rightarrow> instant \<Rightarrow> db \<Rightarrow> db" where
  "closed_db l u r db = db\<lparr>fact_versions :=
     map (\<lambda>w. if fv_id w = fv_id l then close_row u r w else w) (fact_versions db)\<rparr>"

lemma close_version_closed_db:
  assumes ok: "ledger_ok db" and l: "l \<in> set (fact_versions db)" and op: "fv_valid_until l = None"
    and close: "close_version (fv_org l) l u r db = Inr db'"
  shows "db' = closed_db l u r db"
proof -
  have "fv_org w = fv_org l \<and> fv_id w = fv_id l \<and> fv_valid_until w = None \<longleftrightarrow> fv_id w = fv_id l"
    if "w \<in> set (fact_versions db)" for w
    using ok l op that by (auto simp: ledger_ok_def dest: distinct_map_eqD)
  then show ?thesis
    using close by (auto simp: close_version_def closed_db_def Let_def result_simps)
qed

lemma fact_rows_closed_db:
  assumes ok: "ledger_ok db" and rows: "fact_rows db (fv_fact_id l) = vs @ [l]"
  shows "fact_rows (closed_db l u r db) fid =
    (if fid = fv_fact_id l then vs @ [close_row u r l] else fact_rows db fid)"
proof -
  let ?f = "\<lambda>w. if fv_id w = fv_id l then close_row u r w else w"
  have m: "fact_rows (closed_db l u r db) fid = map ?f (fact_rows db fid)"
    unfolding fact_rows_def closed_db_def
    by (simp add: filter_map_if_other close_row_def)
  have l: "l \<in> set (fact_versions db)" using rows fact_rows_in [of l db "fv_fact_id l"] by auto
  have eq: "w = l" if "w \<in> set (fact_versions db)" "fv_id w = fv_id l" for w
    using ok l that by (auto simp: ledger_ok_def dest: distinct_map_eqD)
  have "distinct (vs @ [l])"
    using ok rows unfolding ledger_ok_def fact_rows_def by (metis distinct_filter distinct_map)
  then have "map ?f vs = vs"
    using eq rows fact_rows_in [of _ db "fv_fact_id l"] by (intro map_idI_on) force
  moreover have "map ?f (fact_rows db fid) = fact_rows db fid" if "fid \<noteq> fv_fact_id l"
    using eq that by (intro map_idI_on) (auto simp: fact_rows_in)
  ultimately show ?thesis using m rows by auto
qed

lemma closed_db_ok:
  assumes ok: "ledger_ok db" and rows: "fact_rows db (fv_fact_id l) = vs @ [l]"
    and u: "fv_valid_from l < u" and r: "fv_recorded_at l \<le> r"
  shows "ledger_ok (closed_db l u r db)"
proof -
  let ?f = "\<lambda>w. if fv_id w = fv_id l then close_row u r w else w"
  have fields: "fv_id (?f w) = fv_id w" "fv_fact_id (?f w) = fv_fact_id w" for w
    by (simp_all add: close_row_def)
  have ids: "(\<lambda>w. (fv_fact_id w, fv_id w)) ` ?f ` set (fact_versions db) =
      (\<lambda>w. (fv_fact_id w, fv_id w)) ` set (fact_versions db)"
    unfolding image_image by (intro image_cong) (simp_all add: close_row_def)
  have tables: "facts (closed_db l u r db) = facts db" "sources (closed_db l u r db) = sources db"
      "set (fact_versions (closed_db l u r db)) = ?f ` set (fact_versions db)"
    by (simp_all add: closed_db_def)
  have fks: "version_fks (closed_db l u r db) (?f w) = version_fks db w" for w
    unfolding version_fks_def tables ids by (simp add: close_row_def split: option.split)
  have "chain_ok (fact_rows (closed_db l u r db) fid)" for fid
    using ledger_chain [OF ok, of fid] chain_ok_close_last [of vs l u r] rows u r
    by (auto simp: fact_rows_closed_db [OF ok rows])
  moreover have "version_fks (closed_db l u r db) x" if "x \<in> set (fact_versions (closed_db l u r db))" for x
  proof -
    obtain w where "w \<in> set (fact_versions db)" "x = ?f w" using \<open>x \<in> _\<close> tables(3) by blast
    then show ?thesis using ok fks [of w] by (simp add: ledger_ok_def)
  qed
  moreover have "ledger_keys_ok (closed_db l u r db)"
    using ok by (simp add: ledger_ok_def ledger_keys_ok_def closed_db_def)
  moreover have "map fv_id (fact_versions (closed_db l u r db)) = map fv_id (fact_versions db)"
    by (simp add: closed_db_def fields)
  ultimately show ?thesis using ok by (simp add: ledger_ok_def)
qed

end
