(* ===== verification/Temporal_Reference.thy ===== *)
theory Temporal_Reference
  imports Fact_Store
begin

text \<open>
  The bitemporal semantics: the value types of \<^verbatim>\<open>temporal/model.py\<close> and the pure functions of
  \<^verbatim>\<open>temporal/reference.py\<close>, which define what the right answer is. Shown for every
  well-formed history: a question has at most one answer, so the defensive
  InvariantViolationError is never raised; the answer is the version whose interval, as it
  was known, contains the instant; what is known at an instant is a prefix of the chain;
  and a reported change is a real one.
\<close>

section \<open>Snapshots\<close>

record version_snapshot =
  vs_id :: uuid
  vs_fact_id :: uuid
  vs_version :: int
  vs_value :: pyval
  vs_source_id :: uuid
  vs_valid_from :: instant
  vs_valid_until :: "instant option"
  vs_observed_at :: instant
  vs_recorded_at :: instant
  vs_valid_until_recorded_at :: "instant option"
  vs_supersedes_id :: "uuid option"
  vs_authority :: int
  vs_confidence :: rat
  vs_privacy_scope :: privacy_scope

record resolved_fact =
  rf_fact_id :: uuid
  rf_entity_id :: uuid
  rf_entity_type :: string
  rf_external_id :: string
  rf_property :: string
  rf_version :: version_snapshot

record fact_change =
  fc_fact_id :: uuid
  fc_property :: string
  fc_before :: "version_snapshot option"
  fc_after :: "version_snapshot option"
  fc_transitions :: "version_snapshot list"

record lineage =
  li_version :: version_snapshot
  li_ancestors :: "version_snapshot list"
  li_descendants :: "version_snapshot list"

definition superseded_by :: "lineage \<Rightarrow> version_snapshot option" where
  "superseded_by l = (case li_descendants l of [] \<Rightarrow> None | v # _ \<Rightarrow> Some v)"

record timeline_entry =
  te_property :: string
  te_version :: version_snapshot

definition to_snapshot :: "fact_version \<Rightarrow> version_snapshot" where
  "to_snapshot v = \<lparr>vs_id = fv_id v, vs_fact_id = fv_fact_id v, vs_version = fv_version v,
     vs_value = fv_value v, vs_source_id = fv_source_id v, vs_valid_from = fv_valid_from v,
     vs_valid_until = fv_valid_until v, vs_observed_at = fv_observed_at v,
     vs_recorded_at = fv_recorded_at v, vs_valid_until_recorded_at = fv_valid_until_recorded_at v,
     vs_supersedes_id = fv_supersedes_id v, vs_authority = fv_authority v,
     vs_confidence = fv_confidence v, vs_privacy_scope = fv_privacy_scope v\<rparr>"

section \<open>The reference functions\<close>

text \<open>\<open>None\<close> as the time of knowledge means everything recorded so far.\<close>

definition is_known :: "version_snapshot \<Rightarrow> instant option \<Rightarrow> bool" where
  "is_known v known_at \<longleftrightarrow> (case known_at of None \<Rightarrow> True | Some k \<Rightarrow> vs_recorded_at v \<le> k)"

definition as_known :: "version_snapshot \<Rightarrow> instant option \<Rightarrow> version_snapshot" where
  "as_known v known_at = (case (known_at, vs_valid_until_recorded_at v) of
      (Some k, Some closed_at) \<Rightarrow>
        if closed_at \<le> k then v
        else v\<lparr>vs_valid_until := None, vs_valid_until_recorded_at := None\<rparr>
    | _ \<Rightarrow> v)"

definition is_valid_at :: "version_snapshot \<Rightarrow> instant \<Rightarrow> bool" where
  "is_valid_at v i \<longleftrightarrow> vs_valid_from v \<le> i \<and>
     (case vs_valid_until v of None \<Rightarrow> True | Some u \<Rightarrow> i < u)"

definition known_history :: "version_snapshot list \<Rightarrow> instant option \<Rightarrow> version_snapshot list" where
  "known_history versions known_at =
     map (\<lambda>v. as_known v known_at) (filter (\<lambda>v. is_known v known_at) (sort_key vs_version versions))"

definition aware_opt :: "pydatetime option \<Rightarrow> string \<Rightarrow> instant option result" where
  "aware_opt value field = (case value of None \<Rightarrow> Inr None
     | Some d \<Rightarrow> bindr (require_aware d field) (\<lambda>i. Inr (Some i)))"

definition history_as_known ::
  "version_snapshot list \<Rightarrow> pydatetime option \<Rightarrow> version_snapshot list result" where
  "history_as_known versions known_at =
     bindr (aware_opt known_at ''known_at'') (\<lambda>k. Inr (known_history versions k))"

definition resolve ::
  "version_snapshot list \<Rightarrow> pydatetime \<Rightarrow> pydatetime option \<Rightarrow> version_snapshot option result" where
  "resolve versions valid_at known_at =
     bindr (require_aware valid_at ''valid_at'') (\<lambda>t.
     bindr (history_as_known versions known_at) (\<lambda>known.
     let matches = filter (\<lambda>v. is_valid_at v t) known in
     bindr (requirer (\<not> 1 < length matches)
         (InvariantViolationError ''several versions of one fact are valid'')) (\<lambda>_.
     Inr (case matches of [] \<Rightarrow> None | m # _ \<Rightarrow> Some m))))"

definition change_between ::
  "version_snapshot list \<Rightarrow> pydatetime \<Rightarrow> pydatetime \<Rightarrow> pydatetime option \<Rightarrow>
     (version_snapshot option \<times> version_snapshot option \<times> version_snapshot list) option result" where
  "change_between versions start finish known_at =
     bindr (require_aware start ''start'') (\<lambda>s.
     bindr (require_aware finish ''end'') (\<lambda>e.
     bindr (requirer (\<not> e \<le> s) (ValidationFailedError ''end must be later than start'')) (\<lambda>_.
     bindr (history_as_known versions known_at) (\<lambda>known.
     bindr (resolve known start None) (\<lambda>before.
     bindr (resolve known finish None) (\<lambda>after.
     let transitions = filter (\<lambda>v. s < vs_valid_from v \<and> vs_valid_from v \<le> e) known in
     Inr (if map_option vs_id before = map_option vs_id after \<and> transitions = [] then None
          else Some (before, after, transitions))))))))"

section \<open>Well-formed histories\<close>

text \<open>The relation of \<^const>\<open>precedes\<close>, on snapshots.\<close>

definition sn_precedes :: "version_snapshot \<Rightarrow> version_snapshot \<Rightarrow> bool" where
  "sn_precedes v w \<longleftrightarrow> vs_version v < vs_version w \<and> vs_recorded_at v < vs_recorded_at w \<and>
     vs_valid_from v < vs_valid_from w \<and>
     (\<exists>u r. vs_valid_until v = Some u \<and> u \<le> vs_valid_from w \<and>
        vs_valid_until_recorded_at v = Some r \<and> r \<le> vs_recorded_at w)"

abbreviation history_ok :: "version_snapshot list \<Rightarrow> bool" where
  "history_ok vs \<equiv> sorted_wrt sn_precedes vs"

lemma to_snapshot_precedes: "sn_precedes (to_snapshot v) (to_snapshot w) = precedes v w"
  by (simp add: sn_precedes_def precedes_def to_snapshot_def)

lemma chain_history_ok: "chain_ok vs \<Longrightarrow> history_ok (map to_snapshot vs)"
  by (simp add: sorted_wrt_map to_snapshot_precedes chain_ok_precedes)

text \<open>A version answers a question when it was known, had started, and had no known end by then.\<close>

definition answers :: "instant \<Rightarrow> instant option \<Rightarrow> version_snapshot \<Rightarrow> bool" where
  "answers t k v \<longleftrightarrow> is_known v k \<and> is_valid_at (as_known v k) t"

lemma as_known_fields [simp]:
  "vs_id (as_known v k) = vs_id v" "vs_version (as_known v k) = vs_version v"
  "vs_valid_from (as_known v k) = vs_valid_from v" "vs_recorded_at (as_known v k) = vs_recorded_at v"
  "vs_fact_id (as_known v k) = vs_fact_id v" "vs_value (as_known v k) = vs_value v"
  "vs_privacy_scope (as_known v k) = vs_privacy_scope v" "vs_source_id (as_known v k) = vs_source_id v"
  by (simp_all add: as_known_def split: option.splits)

lemma as_known_None [simp]: "as_known v None = v"
  by (simp add: as_known_def)

lemma is_known_None [simp]: "is_known v None"
  by (simp add: is_known_def)

lemma sort_history: "history_ok vs \<Longrightarrow> sort_key vs_version vs = vs"
proof (rule sort_key_id_if_sorted)
  assume "history_ok vs"
  then show "sorted (map vs_version vs)"
    by (auto simp: sorted_map sn_precedes_def elim: sorted_wrt_mono_rel [rotated])
qed

lemma known_history_ok:
  "history_ok vs \<Longrightarrow> known_history vs k = map (\<lambda>v. as_known v k) (filter (\<lambda>v. is_known v k) vs)"
  by (simp add: known_history_def sort_history)

text \<open>Of two versions both known, the earlier is seen closed before the later begins.\<close>

lemma as_known_precedes:
  assumes "sn_precedes v w" and "is_known w k"
  shows "sn_precedes (as_known v k) (as_known w k)"
  using assms by (auto simp: sn_precedes_def is_known_def as_known_def split: option.splits)

lemma known_history_sorted:
  assumes "history_ok vs"
  shows "history_ok (known_history vs k)"
proof -
  have "sorted_wrt sn_precedes (filter (\<lambda>v. is_known v k) vs)"
    using assms by (rule sorted_wrt_filter)
  then have "sorted_wrt (\<lambda>v w. sn_precedes (as_known v k) (as_known w k)) (filter (\<lambda>v. is_known v k) vs)"
    by (rule sorted_wrt_mono_rel [rotated]) (auto intro: as_known_precedes)
  then show ?thesis by (simp add: known_history_ok [OF assms] sorted_wrt_map)
qed

lemma history_valid_once:
  assumes "history_ok vs"
  shows "length (filter (\<lambda>v. is_valid_at v t) vs) \<le> 1"
proof (rule sorted_wrt_exclusive)
  show "sorted_wrt (\<lambda>x y. \<not> (is_valid_at x t \<and> is_valid_at y t)) vs"
    using assms by (rule sorted_wrt_mono_rel [rotated]) (auto simp: sn_precedes_def is_valid_at_def)
qed

lemma answers_exclusive: "sn_precedes x y \<Longrightarrow> \<not> (answers t k x \<and> answers t k y)"
  using as_known_precedes [of x y k] by (auto simp: answers_def sn_precedes_def is_valid_at_def)

lemma answers_once: "history_ok vs \<Longrightarrow> length (filter (answers t k) vs) \<le> 1"
  by (rule sorted_wrt_exclusive) (auto intro: sorted_wrt_mono_rel [rotated] dest: answers_exclusive)

lemma filter_valid_known:
  "history_ok vs \<Longrightarrow> filter (\<lambda>v. is_valid_at v t) (known_history vs k) = map (\<lambda>v. as_known v k) (filter (answers t k) vs)"
  by (simp add: known_history_ok filter_map o_def answers_def[abs_def] conj_commute)

lemma find_filter_hd: "find P xs = (case filter P xs of [] \<Rightarrow> None | x # _ \<Rightarrow> Some x)"
  by (induction xs) auto

text \<open>The reference answers with the one version that answers, as it was known.\<close>

lemma resolve_history:
  assumes "history_ok vs"
  shows "resolve vs (Aware t) (map_option Aware k) =
    Inr (map_option (\<lambda>v. as_known v k) (find (answers t k) vs))"
proof -
  have k: "history_as_known vs (map_option Aware k) = Inr (known_history vs k)"
    by (cases k) (simp_all add: history_as_known_def aware_opt_def require_aware_def)
  have "\<not> 1 < length (filter (\<lambda>v. is_valid_at v t) (known_history vs k))"
    using history_valid_once [OF known_history_sorted [OF assms]] by (simp add: not_less)
  then show ?thesis
    using k by (simp add: resolve_def require_aware_def filter_valid_known [OF assms] find_filter_hd
        split: list.splits)
qed

lemma find_answers_iff:
  assumes "history_ok vs"
  shows "find (answers t k) vs = Some v \<longleftrightarrow> v \<in> set vs \<and> answers t k v"
proof
  assume r: "v \<in> set vs \<and> answers t k v"
  show "find (answers t k) vs = Some v"
    using answers_once [OF assms, of t k]
  proof (cases rule: length_le_1_cases)
    case 1
    then show ?thesis using r by (auto simp: filter_empty_conv)
  next
    case (2 x)
    have "v \<in> set (filter (answers t k) vs)" using r by simp
    then show ?thesis using 2 by (simp add: find_filter_hd)
  qed
qed (auto dest: find_SomeD)

section \<open>Properties of the reference\<close>

text \<open>A small history for the witnesses: two versions, the first closed when the second arrived.\<close>

definition snap :: "uuid \<Rightarrow> int \<Rightarrow> instant \<Rightarrow> instant option \<Rightarrow> instant \<Rightarrow> instant option \<Rightarrow> version_snapshot" where
  "snap i n f u r ur = \<lparr>vs_id = i, vs_fact_id = 7, vs_version = n, vs_value = PInt n, vs_source_id = 8,
     vs_valid_from = f, vs_valid_until = u, vs_observed_at = f, vs_recorded_at = r,
     vs_valid_until_recorded_at = ur, vs_supersedes_id = (if n = 1 then None else Some (i - 1)),
     vs_authority = 50, vs_confidence = 1, vs_privacy_scope = INTERNAL\<rparr>"

definition two_versions :: "version_snapshot list" where
  "two_versions = [snap 1 1 0 (Some 50) 10 (Some 60), snap 2 2 50 None 60 None]"

lemma two_versions_ok: "history_ok two_versions"
  by (simp add: two_versions_def snap_def sn_precedes_def)

text \<open>
  C9. On a well-formed history the reference never raises InvariantViolationError: every
  question with aware instants is answered, by the version of the history that had been
  recorded, had begun and had no end known before the instant, if there is one; that
  version is unique.
\<close>

theorem resolve_unique_answer:
  assumes "history_ok vs"
  shows "\<exists>r. resolve vs (Aware t) (map_option Aware k) = Inr r \<and>
    (\<forall>w. r = Some w \<longleftrightarrow> (\<exists>v \<in> set vs. answers t k v \<and> w = as_known v k)) \<and>
    length (filter (answers t k) vs) \<le> 1"
proof -
  have "find (answers t k) vs = Some v \<longleftrightarrow> v \<in> set vs \<and> answers t k v" for v
    by (rule find_answers_iff [OF assms])
  then show ?thesis using resolve_history [OF assms, of t k] answers_once [OF assms] by auto
qed

text \<open>Witness: at instant 70 as known at 55 the end of the first version was not yet known.\<close>

theorem resolve_unique_answer_witness:
  "(\<exists>r. resolve two_versions (Aware 70) (map_option Aware (Some 55)) = Inr r \<and>
     (\<forall>w. r = Some w \<longleftrightarrow> (\<exists>v \<in> set two_versions. answers 70 (Some 55) v \<and> w = as_known v (Some 55))) \<and>
     length (filter (answers 70 (Some 55)) two_versions) \<le> 1) \<and>
   map vs_version (filter (answers 70 (Some 55)) two_versions) = [1]"
proof -
  have "map vs_version (filter (answers 70 (Some 55)) two_versions) = [1]" by code_simp
  then show ?thesis using resolve_unique_answer [OF two_versions_ok, of 70 "Some 55"] by simp
qed

text \<open>
  What is known at an instant is a prefix of the chain: the history as known at \<open>k\<close> lists
  the first versions of the chain, those recorded by \<open>k\<close>, in order, and only the last of
  them can look open-ended.
\<close>

theorem known_history_prefix:
  assumes "history_ok vs"
  shows "\<exists>n. known_history vs k = map (\<lambda>v. as_known v k) (take n vs) \<and>
    (\<forall>v \<in> set (take n vs). is_known v k) \<and> (\<forall>v \<in> set (drop n vs). \<not> is_known v k) \<and>
    (\<forall>w \<in> set (butlast (known_history vs k)). vs_valid_until w \<noteq> None)"
proof -
  let ?P = "\<lambda>v. is_known v k"
  define n where "n = length (takeWhile ?P vs)"
  have tk: "take n vs = takeWhile ?P vs" and dr: "drop n vs = dropWhile ?P vs"
    unfolding n_def by (simp_all add: takeWhile_eq_take [symmetric] dropWhile_eq_drop [symmetric])
  have known: "\<forall>v \<in> set (take n vs). ?P v" unfolding tk by (auto dest: set_takeWhileD)
  have unknown: "\<forall>v \<in> set (drop n vs). \<not> ?P v"
  proof (cases "dropWhile ?P vs")
    case (Cons x xs)
    then have "\<not> ?P x" using hd_dropWhile [of ?P vs] by simp
    moreover have "sorted_wrt sn_precedes (x # xs)"
      using assms Cons dr by (metis append_take_drop_id sorted_wrt_append)
    ultimately show ?thesis using dr Cons by (auto simp: sn_precedes_def is_known_def split: option.splits)
  next
    case Nil
    show ?thesis unfolding dr Nil by simp
  qed
  have "filter ?P vs = filter ?P (take n vs @ drop n vs)" by simp
  also have "\<dots> = take n vs" using known unknown by (simp only: filter_append) (simp add: filter_id_conv filter_empty_conv)
  finally have hist: "known_history vs k = map (\<lambda>v. as_known v k) (take n vs)"
    by (simp add: known_history_ok [OF assms])
  have "vs_valid_until w \<noteq> None" if "w \<in> set (butlast (known_history vs k))" for w
  proof -
    have ne: "known_history vs k \<noteq> []" using that by auto
    have "sorted_wrt sn_precedes (butlast (known_history vs k) @ [last (known_history vs k)])"
      using known_history_sorted [OF assms, of k] ne by simp
    then show ?thesis using that by (auto simp: sorted_wrt_append sn_precedes_def)
  qed
  then show ?thesis using hist known unknown by blast
qed

text \<open>Witness: as known at 55 only the first of the two versions is listed.\<close>

theorem known_history_prefix_witness:
  "(\<exists>n. known_history two_versions (Some 55) = map (\<lambda>v. as_known v (Some 55)) (take n two_versions) \<and>
     (\<forall>v \<in> set (take n two_versions). is_known v (Some 55)) \<and>
     (\<forall>v \<in> set (drop n two_versions). \<not> is_known v (Some 55)) \<and>
     (\<forall>w \<in> set (butlast (known_history two_versions (Some 55))). vs_valid_until w \<noteq> None)) \<and>
   map vs_version (known_history two_versions (Some 55)) = [1]"
proof -
  have "map vs_version (known_history two_versions (Some 55)) = [1]" by code_simp
  then show ?thesis using known_history_prefix [OF two_versions_ok, of "Some 55"] by blast
qed

text \<open>The questions a change asks, in terms of the original history.\<close>

lemma resolve_known:
  assumes "history_ok vs"
  shows "resolve (known_history vs k) (Aware t) None = Inr (map_option (\<lambda>v. as_known v k) (find (answers t k) vs))"
proof -
  have "find (answers t None) (known_history vs k) = map_option (\<lambda>v. as_known v k) (find (answers t k) vs)"
    by (simp add: find_filter_hd filter_valid_known [OF assms] answers_def[of t None, abs_def] split: list.splits)
  then show ?thesis
    using resolve_history [OF known_history_sorted [OF assms], of k t None] by (simp add: option.map_ident)
qed

definition answer_id :: "version_snapshot list \<Rightarrow> instant option \<Rightarrow> instant \<Rightarrow> uuid option" where
  "answer_id vs k t = map_option vs_id (find (answers t k) vs)"

definition window_ok :: "version_snapshot \<Rightarrow> bool" where
  "window_ok v \<longleftrightarrow> starts_before_end (vs_valid_from v) (vs_valid_until v)"

lemma answers_at_start: "window_ok v \<Longrightarrow> is_known v k \<Longrightarrow> answers (vs_valid_from v) k v"
  by (auto simp: answers_def is_valid_at_def window_ok_def starts_before_end_def as_known_def
      split: option.splits)

lemma answers_convex: "answers s k v \<Longrightarrow> answers e k v \<Longrightarrow> s \<le> i \<Longrightarrow> i \<le> e \<Longrightarrow> answers i k v"
  by (auto simp: answers_def is_valid_at_def split: option.splits)

lemma answers_earlier: "answers i k v \<Longrightarrow> vs_valid_from v \<le> s \<Longrightarrow> s \<le> i \<Longrightarrow> answers s k v"
  by (auto simp: answers_def is_valid_at_def split: option.splits)

lemma answer_id_Some:
  assumes "history_ok vs"
  shows "answer_id vs k t = Some i \<longleftrightarrow> (\<exists>v \<in> set vs. answers t k v \<and> vs_id v = i)"
  using find_answers_iff [OF assms] by (auto simp: answer_id_def)

text \<open>With no version beginning in the period, the answer cannot change inside it and change back.\<close>

lemma constant_answer:
  assumes h: "history_ok vs" and d: "distinct (map vs_id vs)" and se: "s < e"
    and same: "answer_id vs k s = answer_id vs k e"
    and quiet: "\<forall>v \<in> set vs. is_known v k \<longrightarrow> \<not> (s < vs_valid_from v \<and> vs_valid_from v \<le> e)"
    and i: "s \<le> i" "i \<le> e"
  shows "answer_id vs k i = answer_id vs k s"
proof (cases "answer_id vs k s")
  case (Some x)
  then obtain v w where v: "v \<in> set vs" "answers s k v" "vs_id v = x" and w: "w \<in> set vs" "answers e k w" "vs_id w = x"
    using same answer_id_Some [OF h] by metis
  then have "v = w" using d distinct_map_eqD by metis
  then have "answers i k v" using v w i answers_convex by blast
  then show ?thesis using v Some answer_id_Some [OF h] by metis
next
  case None
  have "answer_id vs k i = None"
  proof (rule ccontr)
    assume "answer_id vs k i \<noteq> None"
    then obtain v where v: "v \<in> set vs" "answers i k v" using answer_id_Some [OF h] by fastforce
    then have "is_known v k" "vs_valid_from v \<le> i" by (auto simp: answers_def is_valid_at_def)
    then have "answers s k v" using quiet v i answers_earlier [OF v(2), of s] by force
    then show False using None v(1) answer_id_Some [OF h, of k s "vs_id v"] by auto
  qed
  then show ?thesis using None by simp
qed

lemma reported_iff:
  "res = Inr (if P then None else Some x) \<Longrightarrow> P = Q \<Longrightarrow> \<exists>r. res = Inr r \<and> (r = None \<longleftrightarrow> Q)"
  by simp

text \<open>
  C10. \<^verbatim>\<open>change_between\<close> reports no change exactly when nothing changed: for aware instants with
  the start before the end it always answers, and the answer is \<open>None\<close> if and only if at
  every instant of the period the same version is valid (or none is) as at its start.
\<close>

theorem change_between_iff:
  assumes h: "history_ok vs" and d: "distinct (map vs_id vs)" and w: "\<forall>v \<in> set vs. window_ok v"
    and se: "s < e"
  shows "\<exists>r. change_between vs (Aware s) (Aware e) (map_option Aware k) = Inr r \<and>
    (r = None \<longleftrightarrow> (\<forall>i. s \<le> i \<and> i \<le> e \<longrightarrow> answer_id vs k i = answer_id vs k s))"
proof -
  let ?tr = "filter (\<lambda>v. s < vs_valid_from v \<and> vs_valid_from v \<le> e) (known_history vs k)"
  have hk: "history_as_known vs (map_option Aware k) = Inr (known_history vs k)"
    by (cases k) (simp_all add: history_as_known_def aware_opt_def require_aware_def)
  have ids: "map_option vs_id (map_option (\<lambda>v. as_known v k) (find (answers t k) vs)) = answer_id vs k t" for t
    by (cases "find (answers t k) vs") (simp_all add: answer_id_def)
  have tr: "?tr = [] \<longleftrightarrow> (\<forall>v \<in> set vs. is_known v k \<longrightarrow> \<not> (s < vs_valid_from v \<and> vs_valid_from v \<le> e))"
    by (auto simp: known_history_ok [OF h] filter_empty_conv)
  obtain x where eq: "change_between vs (Aware s) (Aware e) (map_option Aware k) =
      Inr (if answer_id vs k s = answer_id vs k e \<and> ?tr = [] then None else Some x)"
    using se by (simp add: change_between_def require_aware_def hk resolve_known [OF h] ids Let_def)
  have "answer_id vs k s = answer_id vs k e \<and> ?tr = [] \<longleftrightarrow>
    (\<forall>i. s \<le> i \<and> i \<le> e \<longrightarrow> answer_id vs k i = answer_id vs k s)" (is "?l \<longleftrightarrow> ?r")
  proof
    assume ?l
    then show ?r using constant_answer [OF h d se] tr by blast
  next
    assume r: ?r
    have "\<not> (s < vs_valid_from v \<and> vs_valid_from v \<le> e)" if v: "v \<in> set vs" "is_known v k" for v
    proof
      assume b: "s < vs_valid_from v \<and> vs_valid_from v \<le> e"
      then have "answer_id vs k s = Some (vs_id v)"
        using r v w answers_at_start [of v k] answer_id_Some [OF h] by (metis less_imp_le)
      then obtain x where "x \<in> set vs" "answers s k x" "vs_id x = vs_id v" using answer_id_Some [OF h] by metis
      moreover then have "x = v" using d v distinct_map_eqD by metis
      ultimately show False using b by (auto simp: answers_def is_valid_at_def)
    qed
    then have "?tr = []" using tr by blast
    moreover have "answer_id vs k e = answer_id vs k s"
      by (rule r [rule_format]) (use se in auto)
    ultimately show ?l by simp
  qed
  then show ?thesis by (rule reported_iff [OF eq])
qed

text \<open>Witness: between 10 and 90 the second version took over, so a change is reported.\<close>

theorem change_between_iff_witness:
  "\<exists>r. change_between two_versions (Aware 10) (Aware 90) (map_option Aware None) = Inr r \<and> r \<noteq> None \<and>
     \<not> (\<forall>i. 10 \<le> i \<and> i \<le> 90 \<longrightarrow> answer_id two_versions None i = answer_id two_versions None 10)"
proof -
  have "distinct (map vs_id two_versions)" "\<forall>v \<in> set two_versions. window_ok v" by code_simp+
  moreover have "answer_id two_versions None 90 \<noteq> answer_id two_versions None 10" by code_simp
  moreover obtain r where "change_between two_versions (Aware 10) (Aware 90) (map_option Aware None) = Inr r"
      "r = None \<longleftrightarrow> (\<forall>i. 10 \<le> i \<and> i \<le> 90 \<longrightarrow> answer_id two_versions None i = answer_id two_versions None 10)"
    using calculation change_between_iff [OF two_versions_ok, of 10 90 None] by auto
  moreover have "(10::int) \<le> 90" by simp
  ultimately show ?thesis by blast
qed

end
