(* ===== verification/Evidence.thy ===== *)
theory Evidence
  imports Temporal_Reference
begin

text \<open>
  Evidence and its links to fact versions: \<^verbatim>\<open>domain/evidence.py\<close>,
  \<^verbatim>\<open>repositories/evidence.py\<close>, \<^verbatim>\<open>services/evidence.py\<close>. Evidence is content-addressed by the
  SHA-256 of its normalised excerpt; links are append-only. Shown: capturing the same text
  again stores nothing and returns the first row, line endings and surrounding spaces do
  not matter, and no link is ever changed or removed.
\<close>

section \<open>Rules\<close>

definition EXCERPT_MAX_CHARS :: nat where "EXCERPT_MAX_CHARS = 8000"
definition METADATA_MAX_BYTES :: nat where "METADATA_MAX_BYTES = 4096"

abbreviation CR :: char where "CR \<equiv> CHR 0x0D"
abbreviation LF :: char where "LF \<equiv> CHR 0x0A"

text \<open>\<^verbatim>\<open>replace("\r\n", "\n")\<close>, scanning from the left.\<close>

fun replace_crlf :: "string \<Rightarrow> string" where
  "replace_crlf [] = []"
| "replace_crlf [c] = [c]"
| "replace_crlf (c # d # cs) = (if c = CR \<and> d = LF then LF # replace_crlf cs else c # replace_crlf (d # cs))"

definition replace_cr :: "string \<Rightarrow> string" where
  "replace_cr s = map (\<lambda>c. if c = CR then LF else c) s"

definition normalize_excerpt :: "string \<Rightarrow> string result" where
  "normalize_excerpt value = (let excerpt = strip (replace_cr (replace_crlf value)) in
     bindr (requirer (excerpt \<noteq> []) (ValidationFailedError ''excerpt must not be empty'')) (\<lambda>_.
     bindr (requirer (\<not> EXCERPT_MAX_CHARS < length excerpt)
         (ValidationFailedError ''excerpt must be at most 8000 characters'')) (\<lambda>_.
     bindr (requirer (CHR 0x00 \<notin> set excerpt)
         (ValidationFailedError ''excerpt must not contain NUL characters'')) (\<lambda>_.
     Inr excerpt))))"

definition content_hash :: "runtime \<Rightarrow> string \<Rightarrow> string" where
  "content_hash R normalized_excerpt = sha256 R normalized_excerpt"

definition validate_metadata :: "runtime \<Rightarrow> pyval option \<Rightarrow> pyval result" where
  "validate_metadata R value = (case value of
      None \<Rightarrow> Inr (PDict [])
    | Some (PDict kvs) \<Rightarrow>
        bindr (some_or (json_dumps strict_json (float_repr R) (PDict kvs))
            (ValidationFailedError ''metadata is not valid JSON'')) (\<lambda>encoded.
        bindr (requirer (\<not> METADATA_MAX_BYTES < length encoded)
            (ValidationFailedError ''metadata must be at most 4096 bytes'')) (\<lambda>_.
        Inr (PDict kvs)))
    | Some _ \<Rightarrow> Inl (ValidationFailedError ''metadata must be a JSON object''))"

lemma replace_crlf_no_cr: "CR \<notin> set s \<Longrightarrow> replace_crlf s = s"
  by (induction s rule: replace_crlf.induct) auto

lemma replace_cr_no_cr: "CR \<notin> set s \<Longrightarrow> replace_cr s = s"
  by (auto simp: replace_cr_def intro!: map_idI_on)

lemma no_cr_replace_cr: "CR \<notin> set (replace_cr s)"
  by (auto simp: replace_cr_def)

lemma normalize_excerpt_idem:
  assumes "normalize_excerpt v = Inr e"
  shows "normalize_excerpt e = Inr e"
proof -
  have e: "e = strip (replace_cr (replace_crlf v))"
    using assms by (simp add: normalize_excerpt_def Let_def result_simps)
  have "CR \<notin> set e"
    unfolding e using no_cr_replace_cr set_strip by blast
  then have "strip (replace_cr (replace_crlf e)) = e"
    by (simp add: replace_crlf_no_cr replace_cr_no_cr) (simp add: e)
  then show ?thesis using assms by (auto simp: normalize_excerpt_def Let_def result_simps)
qed

section \<open>Repository\<close>

definition hex64 :: "string \<Rightarrow> bool" where
  "hex64 s \<longleftrightarrow> length s = 64 \<and> (\<forall>c \<in> set s. is_digit c \<or> (97 \<le> code c \<and> code c \<le> 102))"

definition is_object :: "pyval \<Rightarrow> bool" where
  "is_object v \<longleftrightarrow> (case v of PDict _ \<Rightarrow> True | _ \<Rightarrow> False)"

definition evidence_checks :: "evidence \<Rightarrow> bool" where
  "evidence_checks e \<longleftrightarrow> 1 \<le> length (ev_excerpt e) \<and> length (ev_excerpt e) \<le> 8000 \<and>
     hex64 (ev_content_sha256 e) \<and> is_object (ev_metadata e)"

abbreviation evidence_key :: "evidence \<Rightarrow> uuid \<times> uuid \<times> string" where
  "evidence_key e \<equiv> (ev_org e, ev_source_id e, ev_content_sha256 e)"

definition find_evidence :: "db \<Rightarrow> uuid \<Rightarrow> uuid \<Rightarrow> string \<Rightarrow> evidence option" where
  "find_evidence db org sid sha = find (\<lambda>e. evidence_key e = (org, sid, sha)) (evidence_rows db)"

text \<open>\<^verbatim>\<open>EvidenceRepository.capture\<close>: insert unless the content key exists, then read; the flag is whether a row was inserted.\<close>

definition capture :: "evidence \<Rightarrow> db \<Rightarrow> ((evidence \<times> bool) \<times> db) result" where
  "capture e db = (case find_evidence db (ev_org e) (ev_source_id e) (ev_content_sha256 e) of
      Some old \<Rightarrow> Inr ((old, False), db)
    | None \<Rightarrow>
        bindr (requirer (evidence_checks e \<and> ev_id e \<notin> ev_id ` set (evidence_rows db) \<and>
            (ev_org e, ev_source_id e) \<in> (\<lambda>s. (s_org s, s_id s)) ` set (sources db))
            (IntegrityError ''evidence'')) (\<lambda>_.
        Inr ((e, True), db\<lparr>evidence_rows := evidence_rows db @ [e]\<rparr>)))"

definition get_evidence :: "db \<Rightarrow> uuid \<Rightarrow> uuid \<Rightarrow> evidence option" where
  "get_evidence db org eid = find (\<lambda>e. ev_org e = org \<and> ev_id e = eid) (evidence_rows db)"

definition get_many_evidence :: "db \<Rightarrow> uuid \<Rightarrow> uuid list \<Rightarrow> evidence list" where
  "get_many_evidence db org ids = filter (\<lambda>e. ev_org e = org \<and> ev_id e \<in> set ids) (evidence_rows db)"

abbreviation link_key :: "fact_version_evidence \<Rightarrow> uuid \<times> uuid" where
  "link_key l \<equiv> (fe_fact_version_id l, fe_evidence_id l)"

text \<open>Insert the link unless one with the same primary key exists; True if a row was inserted.\<close>

definition insert_link :: "fact_version_evidence \<Rightarrow> db \<Rightarrow> (bool \<times> db) result" where
  "insert_link l db = (if link_key l \<in> link_key ` set (evidence_links db) then Inr (False, db)
     else bindr (requirer ((fe_org l, fe_fact_version_id l) \<in> (\<lambda>v. (fv_org v, fv_id v)) ` set (fact_versions db) \<and>
          (fe_org l, fe_evidence_id l) \<in> (\<lambda>e. (ev_org e, ev_id e)) ` set (evidence_rows db))
          (IntegrityError ''fact_version_evidence'')) (\<lambda>_.
        Inr (True, db\<lparr>evidence_links := evidence_links db @ [l]\<rparr>)))"

definition get_link :: "db \<Rightarrow> uuid \<Rightarrow> uuid \<Rightarrow> uuid \<Rightarrow> fact_version_evidence option" where
  "get_link db org vid eid =
     find (\<lambda>l. fe_org l = org \<and> fe_fact_version_id l = vid \<and> fe_evidence_id l = eid) (evidence_links db)"

text \<open>The links of a version joined with their evidence and its source.\<close>

definition evidence_for_version ::
  "db \<Rightarrow> uuid \<Rightarrow> uuid \<Rightarrow> (fact_version_evidence \<times> evidence \<times> fact_source) list" where
  "evidence_for_version db org vid =
     sort_key (\<lambda>(l, e, s). (fe_linked_at l, ev_captured_at e, ev_id e))
       [(l, e, s). l \<leftarrow> evidence_links db, fe_org l = org \<and> fe_fact_version_id l = vid,
          e \<leftarrow> evidence_rows db, ev_org e = fe_org l \<and> ev_id e = fe_evidence_id l,
          s \<leftarrow> sources db, s_org s = ev_org e \<and> s_id s = ev_source_id e]"

definition list_source_rows :: "db \<Rightarrow> uuid \<Rightarrow> fact_source list" where
  "list_source_rows db org = sort_key s_name (filter (\<lambda>s. s_org s = org) (sources db))"

section \<open>Service\<close>

definition capture_evidence ::
  "runtime \<Rightarrow> txn \<Rightarrow> tenant_context \<Rightarrow> uuid \<Rightarrow> evidence_type \<Rightarrow> string \<Rightarrow> pydatetime \<Rightarrow> string option \<Rightarrow>
     pyval option \<Rightarrow> privacy_scope \<Rightarrow> db \<Rightarrow> ((evidence \<times> bool) \<times> db) result" where
  "capture_evidence R t ctx source_id etype excerpt captured_at uri metadata scope db =
     bindr (normalize_excerpt excerpt) (\<lambda>normalized.
     let digest = content_hash R normalized in
     bindr (validate_metadata R metadata) (\<lambda>clean_metadata.
     bindr (normalize_uri uri) (\<lambda>clean_uri.
     bindr (require_aware captured_at ''captured_at'') (\<lambda>captured.
     bindr (require_permission db ctx WRITE_FACTS) (\<lambda>_.
     bindr (some_or (get_source db (ctx_org ctx) source_id) (NotFoundError ''source not found'')) (\<lambda>_.
     capture \<lparr>ev_id = t_ids t 0, ev_org = ctx_org ctx, ev_source_id = source_id, ev_type = etype,
        ev_excerpt = normalized, ev_content_sha256 = digest, ev_uri = clean_uri,
        ev_metadata = clean_metadata, ev_privacy_scope = scope, ev_captured_at = captured,
        ev_recorded_at = t_now t\<rparr> db))))))"

text \<open>The loop of \<^verbatim>\<open>link_evidence\<close> over the unique identifiers, counting the links it creates.\<close>

fun link_loop ::
  "txn \<Rightarrow> tenant_context \<Rightarrow> uuid \<Rightarrow> evidence_relation \<Rightarrow> uuid list \<Rightarrow> nat \<Rightarrow> db \<Rightarrow> (nat \<times> db) result" where
  "link_loop t ctx vid rel [] created db = Inr (created, db)"
| "link_loop t ctx vid rel (eid # eids) created db =
     (case get_link db (ctx_org ctx) vid eid of
        Some existing \<Rightarrow>
          bindr (requirer (fe_relation existing = rel) (ConflictError ''evidence is already linked'')) (\<lambda>_.
          link_loop t ctx vid rel eids created db)
      | None \<Rightarrow>
          bindr (insert_link \<lparr>fe_org = ctx_org ctx, fe_fact_version_id = vid, fe_evidence_id = eid,
             fe_relation = rel, fe_linked_at = t_now t, fe_linked_by_user_id = Some (ctx_user ctx)\<rparr> db) (\<lambda>(new, db').
          link_loop t ctx vid rel eids (if new then created + 1 else created) db'))"

definition link_evidence ::
  "txn \<Rightarrow> tenant_context \<Rightarrow> uuid \<Rightarrow> uuid list \<Rightarrow> evidence_relation \<Rightarrow> db \<Rightarrow> (nat \<times> db) result" where
  "link_evidence t ctx vid evidence_ids rel db = (let unique_ids = dedupe_on id evidence_ids in
     if unique_ids = [] then Inr (0, db)
     else
       bindr (some_or (get_version_row db (ctx_org ctx) vid) (NotFoundError ''fact version not found'')) (\<lambda>_.
       bindr (requirer (\<forall>i \<in> set unique_ids. i \<in> ev_id ` set (get_many_evidence db (ctx_org ctx) unique_ids))
           (NotFoundError ''evidence not found'')) (\<lambda>_.
       link_loop t ctx vid rel unique_ids 0 db)))"

definition attach ::
  "txn \<Rightarrow> tenant_context \<Rightarrow> uuid \<Rightarrow> uuid \<Rightarrow> evidence_relation \<Rightarrow> db \<Rightarrow> (bool \<times> db) result" where
  "attach t ctx vid eid rel db =
     bindr (require_permission db ctx WRITE_FACTS) (\<lambda>_.
     bindr (link_evidence t ctx vid [eid] rel db) (\<lambda>(n, db'). Inr (0 < n, db')))"

record linked_evidence =
  le_evidence :: evidence
  le_source :: fact_source
  le_relation :: evidence_relation
  le_linked_at :: instant
  le_linked_by_user_id :: "uuid option"

record version_provenance =
  vp_snapshot :: version_snapshot
  vp_source :: fact_source
  vp_evidence :: "linked_evidence list"

definition provenance :: "db \<Rightarrow> tenant_context \<Rightarrow> uuid \<Rightarrow> version_provenance result" where
  "provenance db ctx vid =
     bindr (require_permission db ctx READ_FACTS) (\<lambda>_.
     bindr (some_or (get_version_row db (ctx_org ctx) vid) (NotFoundError ''fact version not found'')) (\<lambda>version.
     bindr (some_or (get_source db (ctx_org ctx) (fv_source_id version)) (NotFoundError ''source not found'')) (\<lambda>source.
     Inr \<lparr>vp_snapshot = to_snapshot version, vp_source = source,
        vp_evidence = map (\<lambda>(l, e, s). \<lparr>le_evidence = e, le_source = s, le_relation = fe_relation l,
            le_linked_at = fe_linked_at l, le_linked_by_user_id = fe_linked_by_user_id l\<rparr>)
          (evidence_for_version db (ctx_org ctx) vid)\<rparr>)))"

definition list_sources :: "db \<Rightarrow> tenant_context \<Rightarrow> fact_source list result" where
  "list_sources db ctx =
     bindr (require_permission db ctx READ_FACTS) (\<lambda>_. Inr (list_source_rows db (ctx_org ctx)))"

definition read_source :: "db \<Rightarrow> tenant_context \<Rightarrow> uuid \<Rightarrow> fact_source result" where
  "read_source db ctx sid =
     bindr (require_permission db ctx READ_FACTS) (\<lambda>_.
     some_or (get_source db (ctx_org ctx) sid) (NotFoundError ''source not found''))"

section \<open>What capturing and linking change\<close>

lemma find_evidence_SomeD:
  "find_evidence db org sid sha = Some e \<Longrightarrow> e \<in> set (evidence_rows db) \<and> evidence_key e = (org, sid, sha)"
  unfolding find_evidence_def by (drule find_SomeD) simp

lemma capture_cases:
  assumes "capture e db = Inr ((e', created), db')"
  obtains (old) "\<not> created" "db' = db" "find_evidence db (ev_org e) (ev_source_id e) (ev_content_sha256 e) = Some e'"
  | (new) "created" "e' = e" "db' = db\<lparr>evidence_rows := evidence_rows db @ [e]\<rparr>" "evidence_checks e"
      "find_evidence db (ev_org e) (ev_source_id e) (ev_content_sha256 e) = None"
      "ev_id e \<notin> ev_id ` set (evidence_rows db)"
  using assms by (auto simp: capture_def result_simps split: option.splits)

lemma capture_found:
  assumes "capture e db = Inr ((e', created), db')"
  shows "find_evidence db' (ev_org e) (ev_source_id e) (ev_content_sha256 e) = Some e'"
  using assms by (cases rule: capture_cases) (simp_all add: find_evidence_def find_append)

text \<open>A link row created by one call: its tenant, version and relation are those of the call.\<close>

definition link_of_call :: "tenant_context \<Rightarrow> uuid \<Rightarrow> evidence_relation \<Rightarrow> uuid list \<Rightarrow> fact_version_evidence \<Rightarrow> bool" where
  "link_of_call ctx vid rel eids l \<longleftrightarrow> fe_org l = ctx_org ctx \<and> fe_fact_version_id l = vid \<and>
     fe_relation l = rel \<and> fe_evidence_id l \<in> set eids"

lemma insert_link_Inr:
  assumes "insert_link l db = Inr (new, db')"
  shows "db' = db\<lparr>evidence_links := evidence_links db @ (if new then [l] else [])\<rparr>"
  using assms by (auto simp: insert_link_def result_simps split: if_splits)

lemma link_loop_Inr:
  assumes "link_loop t ctx vid rel eids c db = Inr (n, db')"
  shows "\<exists>new. db' = db\<lparr>evidence_links := evidence_links db @ new\<rparr> \<and> n = c + length new \<and>
    list_all (link_of_call ctx vid rel eids) new"
  using assms
proof (induction t ctx vid rel eids c db rule: link_loop.induct)
  case (2 t ctx vid rel eid eids c db)
  have weaken: "link_of_call ctx vid rel eids l \<Longrightarrow> link_of_call ctx vid rel (eid # eids) l" for l
    by (simp add: link_of_call_def)
  show ?case
  proof (cases "get_link db (ctx_org ctx) vid eid")
    case None
    let ?l = "\<lparr>fe_org = ctx_org ctx, fe_fact_version_id = vid, fe_evidence_id = eid,
        fe_relation = rel, fe_linked_at = t_now t, fe_linked_by_user_id = Some (ctx_user ctx)\<rparr>"
    obtain b d where ins: "insert_link ?l db = Inr (b, d)"
      and rest: "link_loop t ctx vid rel eids (if b then c + 1 else c) d = Inr (n, db')"
      using "2.prems" None by (auto simp: result_simps)
    obtain new where "db' = d\<lparr>evidence_links := evidence_links d @ new\<rparr>"
      "n = (if b then c + 1 else c) + length new" "list_all (link_of_call ctx vid rel eids) new"
      using "2.IH"(1) [OF None rest] by blast
    then show ?thesis
      using insert_link_Inr [OF ins] weaken
      by (intro exI [of _ "(if b then [?l] else []) @ new"]) (auto simp: link_of_call_def list_all_iff)
  next
    case (Some l)
    then show ?thesis using "2.prems" "2.IH"(2) [OF Some] weaken by (auto simp: result_simps list_all_iff)
  qed
qed simp

lemma link_evidence_Inr:
  assumes "link_evidence t ctx vid eids rel db = Inr (n, db')"
  shows "\<exists>new. db' = db\<lparr>evidence_links := evidence_links db @ new\<rparr> \<and> n = length new \<and>
    list_all (link_of_call ctx vid rel eids) new"
proof (cases "dedupe_on id eids = []")
  case True
  then show ?thesis using assms by (intro exI [of _ "[]"]) (simp add: link_evidence_def)
next
  case False
  then have "link_loop t ctx vid rel (dedupe_on id eids) 0 db = Inr (n, db')"
    using assms by (simp add: link_evidence_def Let_def result_simps)
  moreover have "set (dedupe_on id eids) = set eids" using dedupe_on_keys [of id eids] by simp
  ultimately show ?thesis using link_loop_Inr [of t ctx vid rel "dedupe_on id eids" 0 db n db'] by (simp add: link_of_call_def [abs_def])
qed

text \<open>With the version and all evidence present, linking fails only on a conflicting relation.\<close>

lemma link_loop_no_integrity:
  assumes "(ctx_org ctx, vid) \<in> (\<lambda>v. (fv_org v, fv_id v)) ` set (fact_versions db)"
    and "\<forall>i \<in> set eids. (ctx_org ctx, i) \<in> (\<lambda>e. (ev_org e, ev_id e)) ` set (evidence_rows db)"
  shows "link_loop t ctx vid rel eids c db \<noteq> Inl (IntegrityError m)"
  using assms
proof (induction t ctx vid rel eids c db rule: link_loop.induct)
  case (2 t ctx vid rel eid eids c db)
  show ?case
  proof (cases "get_link db (ctx_org ctx) vid eid")
    case None
    let ?l = "\<lparr>fe_org = ctx_org ctx, fe_fact_version_id = vid, fe_evidence_id = eid,
        fe_relation = rel, fe_linked_at = t_now t, fe_linked_by_user_id = Some (ctx_user ctx)\<rparr>"
    have "\<exists>b d. insert_link ?l db = Inr (b, d)" using "2.prems" by (simp add: insert_link_def) blast
    then obtain b d where ins: "insert_link ?l db = Inr (b, d)" by blast
    have d: "fact_versions d = fact_versions db" "evidence_rows d = evidence_rows db"
      using insert_link_Inr [OF ins] by simp_all
    have "link_loop t ctx vid rel eids (if b then c + 1 else c) d \<noteq> Inl (IntegrityError m)"
      by (rule "2.IH"(1) [OF None]) (use "2.prems" d in simp_all)
    then show ?thesis using None ins by simp
  next
    case (Some l)
    then show ?thesis using "2.prems" "2.IH"(2) [OF Some] by (simp add: result_simps)
  qed
qed simp

lemma link_evidence_no_integrity:
  "link_evidence t ctx vid eids rel db \<noteq> Inl (IntegrityError m)"
proof (cases "link_evidence t ctx vid eids rel db = Inl (IntegrityError m)")
  case True
  let ?ids = "dedupe_on id eids"
  have l: "link_loop t ctx vid rel ?ids 0 db = Inl (IntegrityError m)"
    and v: "get_version_row db (ctx_org ctx) vid \<noteq> None"
    and e: "\<forall>i \<in> set ?ids. i \<in> ev_id ` set (get_many_evidence db (ctx_org ctx) ?ids)"
    using True by (auto simp: link_evidence_def Let_def result_simps split: if_splits)
  have "(ctx_org ctx, vid) \<in> (\<lambda>v. (fv_org v, fv_id v)) ` set (fact_versions db)"
    using v get_version_row_SomeD by (force simp: image_iff)
  moreover have "\<forall>i \<in> set ?ids. (ctx_org ctx, i) \<in> (\<lambda>e. (ev_org e, ev_id e)) ` set (evidence_rows db)"
    using e by (force simp: get_many_evidence_def image_iff)
  ultimately show ?thesis using l link_loop_no_integrity by blast
qed

section \<open>Properties\<close>

text \<open>A database with an organization, its ADMIN, and one source, for the witnesses of later theories too.\<close>

definition sample_source :: fact_source where
  "sample_source = \<lparr>s_id = 600, s_org = 200, s_name = ''billing'', s_type = SYSTEM_OF_RECORD, s_uri = None,
     s_default_authority = 90, s_created_at = 5, s_updated_at = 5\<rparr>"

definition crm_source :: fact_source where
  "crm_source = sample_source\<lparr>s_id := 601, s_name := ''crm'', s_type := API, s_default_authority := 60\<rparr>"

definition base_db :: db where
  "base_db = empty_db\<lparr>
     organizations := [\<lparr>o_id = 200, o_slug = ''acme'', o_name = ''Acme'', o_created_at = 3, o_updated_at = 3\<rparr>],
     users := [\<lparr>u_id = 100, u_email = ''ada@example.com'', u_display_name = ''Ada'', u_is_active = True,
        u_created_at = 1, u_updated_at = 1\<rparr>],
     memberships := [\<lparr>m_id = 201, m_org = 200, m_user_id = 100, m_role = ADMIN, m_created_at = 3, m_updated_at = 3\<rparr>],
     sources := [sample_source, crm_source]\<rparr>"

text \<open>A stand-in for SHA-256 in the witnesses: 64 digits, the last from the length of the text.\<close>

definition toy_runtime :: runtime where
  "toy_runtime = \<lparr>sha256 = (\<lambda>s. replicate 63 CHR ''0'' @ [hex_digit (length s mod 16)]), float_repr = (\<lambda>r. ''0.5''),
     decimal_str = (\<lambda>d. ''0.5'')\<rparr>"

text \<open>
  C38. Evidence capture is idempotent by content: once a text was captured, capturing any
  text with the same normal form (other line endings, surrounding spaces) from the same
  source succeeds with the row stored first, reports that nothing was created, and leaves
  the database unchanged, whatever type, scope, URI, metadata or time accompany it.
\<close>

theorem capture_evidence_idempotent:
  assumes first: "capture_evidence R t ctx sid ty x tm u md sc db = Inr ((e, c), db')"
    and same: "normalize_excerpt x' = normalize_excerpt x"
    and valid: "validate_metadata R md' = Inr m'" "normalize_uri u' = Inr v'" "tm' = Aware i"
  shows "capture_evidence R t' ctx sid ty' x' tm' u' md' sc' db' = Inr ((e, False), db')"
proof -
  obtain n m v a r s where n: "normalize_excerpt x = Inr n" and perm: "require_permission db ctx WRITE_FACTS = Inr r"
    and src: "get_source db (ctx_org ctx) sid = Some s"
    and cap: "capture \<lparr>ev_id = t_ids t 0, ev_org = ctx_org ctx, ev_source_id = sid, ev_type = ty,
        ev_excerpt = n, ev_content_sha256 = content_hash R n, ev_uri = v, ev_metadata = m,
        ev_privacy_scope = sc, ev_captured_at = a, ev_recorded_at = t_now t\<rparr> db = Inr ((e, c), db')"
    using first by (auto simp: capture_evidence_def Let_def result_simps)
  have found: "find_evidence db' (ctx_org ctx) sid (content_hash R n) = Some e"
    using capture_found [OF cap] by simp
  have keep: "users db' = users db" "memberships db' = memberships db" "sources db' = sources db"
    using cap by (cases rule: capture_cases; simp)+
  have "require_permission db' ctx WRITE_FACTS = Inr r" "get_source db' (ctx_org ctx) sid = Some s"
    using perm src keep
    by (simp_all add: require_permission_def active_membership_def get_user_def get_membership_def get_source_def)
  then show ?thesis
    using n same valid found by (simp add: capture_evidence_def Let_def require_aware_def capture_def)
qed

text \<open>Witness: the same excerpt, first with a Unix, then with a Windows line ending.\<close>

theorem capture_evidence_idempotent_witness:
  "\<exists>e db'. capture_evidence toy_runtime (sample_txn 700 9) admin_ctx 600 DOCUMENT_EXCERPT ([CHR ''a'', LF, CHR ''b''])
      (Aware 4) None None INTERNAL base_db = Inr ((e, True), db') \<and>
    capture_evidence toy_runtime (sample_txn 800 11) admin_ctx 600 API_RESPONSE ([CHR ''a'', CR, LF, CHR ''b''])
      (Aware 6) None None PUBLIC db' = Inr ((e, False), db')"
proof -
  let ?x = "[CHR ''a'', LF, CHR ''b'']" and ?y = "[CHR ''a'', CR, LF, CHR ''b'']"
  have norm: "normalize_excerpt ?x = Inr ?x" "normalize_excerpt ?y = Inr ?x"
    and md: "validate_metadata toy_runtime None = Inr (PDict [])" and uri: "normalize_uri None = Inr None"
    and perm: "require_permission base_db admin_ctx WRITE_FACTS = Inr ADMIN"
    and src: "get_source base_db 200 600 = Some sample_source"
    and sha: "hex64 (content_hash toy_runtime ?x)"
    by code_simp+
  have "\<exists>e db'. capture_evidence toy_runtime (sample_txn 700 9) admin_ctx 600 DOCUMENT_EXCERPT ?x
      (Aware 4) None None INTERNAL base_db = Inr ((e, True), db')"
    using perm src sha
    by (simp add: capture_evidence_def norm md uri Let_def require_aware_def capture_def find_evidence_def
        evidence_checks_def is_object_def admin_ctx_def base_db_def empty_db_def sample_source_def crm_source_def)
  then obtain e db' where f: "capture_evidence toy_runtime (sample_txn 700 9) admin_ctx 600 DOCUMENT_EXCERPT ?x
      (Aware 4) None None INTERNAL base_db = Inr ((e, True), db')" by blast
  have "normalize_excerpt ?y = normalize_excerpt ?x" by (simp add: norm)
  from capture_evidence_idempotent [OF f this md uri refl] show ?thesis using f by blast
qed

text \<open>
  Links between evidence and fact versions are append-only: linking only adds rows, each
  of the caller's tenant, version and relation, and reports how many; a row that exists with
  the other relation makes the call fail instead of being rewritten; and no database
  constraint is ever hit.
\<close>

theorem link_evidence_append_only:
  "(\<forall>n db'. link_evidence t ctx vid eids rel db = Inr (n, db') \<longrightarrow>
     (\<exists>new. db' = db\<lparr>evidence_links := evidence_links db @ new\<rparr> \<and> n = length new \<and>
        (\<forall>l \<in> set new. fe_org l = ctx_org ctx \<and> fe_fact_version_id l = vid \<and> fe_relation l = rel))) \<and>
   (\<forall>m. link_evidence t ctx vid eids rel db \<noteq> Inl (IntegrityError m)) \<and>
   (get_link db (ctx_org ctx) vid eid = Some l \<and> fe_relation l \<noteq> rel \<longrightarrow>
     (\<forall>r. link_evidence t ctx vid [eid] rel db \<noteq> Inr r))"
proof (intro conjI allI impI)
  fix n db' assume "link_evidence t ctx vid eids rel db = Inr (n, db')"
  then obtain new where "db' = db\<lparr>evidence_links := evidence_links db @ new\<rparr>" "n = length new"
      "list_all (link_of_call ctx vid rel eids) new"
    using link_evidence_Inr by blast
  then show "\<exists>new. db' = db\<lparr>evidence_links := evidence_links db @ new\<rparr> \<and> n = length new \<and>
      (\<forall>l \<in> set new. fe_org l = ctx_org ctx \<and> fe_fact_version_id l = vid \<and> fe_relation l = rel)"
    by (auto simp: link_of_call_def list_all_iff)
next
  fix r assume "get_link db (ctx_org ctx) vid eid = Some l \<and> fe_relation l \<noteq> rel"
  then show "link_evidence t ctx vid [eid] rel db \<noteq> Inr r"
    by (simp add: link_evidence_def Let_def result_simps)
qed (rule link_evidence_no_integrity)

text \<open>Witness: supporting evidence cannot be relinked as contradicting.\<close>

definition linked_db :: db where
  "linked_db = base_db\<lparr>evidence_links := [\<lparr>fe_org = 200, fe_fact_version_id = 900, fe_evidence_id = 901,
     fe_relation = SUPPORTS, fe_linked_at = 5, fe_linked_by_user_id = Some 100\<rparr>]\<rparr>"

theorem link_evidence_append_only_witness:
  "\<forall>r. link_evidence (sample_txn 950 9) admin_ctx 900 [901] CONTRADICTS linked_db \<noteq> Inr r"
proof -
  let ?l = "\<lparr>fe_org = 200, fe_fact_version_id = 900, fe_evidence_id = 901,
     fe_relation = SUPPORTS, fe_linked_at = 5, fe_linked_by_user_id = Some 100\<rparr>"
  have "get_link linked_db (ctx_org admin_ctx) 900 901 = Some ?l \<and> fe_relation ?l \<noteq> CONTRADICTS"
    by (simp add: get_link_def linked_db_def admin_ctx_def)
  then show ?thesis using link_evidence_append_only by blast
qed

end
