(* ===== verification/Facts.thy ===== *)
theory Facts
  imports Evidence
begin

text \<open>
  The single write path for fact versions: \<^verbatim>\<open>services/facts.py\<close>. The row lock on the fact
  serialises its writers, so a request is one atomic step. Shown: the write path keeps the
  chain invariant, never trips a constraint of the database when its identifiers are
  fresh, and does to the table of versions exactly what its documentation says.
\<close>

section \<open>Commands\<close>

record record_command =
  cmd_entity_type :: string
  cmd_external_id :: string
  cmd_property :: string
  cmd_value :: pyval
  cmd_source_id :: uuid
  cmd_valid_from :: pydatetime
  cmd_valid_until :: "pydatetime option"
  cmd_observed_at :: "pydatetime option"
  cmd_authority :: "pyint option"
  cmd_confidence :: decimal
  cmd_privacy_scope :: privacy_scope
  cmd_evidence_ids :: "uuid list"

definition register_source ::
  "txn \<Rightarrow> tenant_context \<Rightarrow> string \<Rightarrow> source_type \<Rightarrow> string option \<Rightarrow> pyint \<Rightarrow> db \<Rightarrow> (fact_source \<times> db) result" where
  "register_source t ctx name stype uri default_authority db =
     bindr (normalize_name name ''name'') (\<lambda>normalized_name.
     bindr (normalize_uri uri) (\<lambda>normalized_uri.
     bindr (validate_authority default_authority) (\<lambda>authority.
     bindr (require_permission db ctx WRITE_FACTS) (\<lambda>_.
     bindr (requirer (get_source_by_name db (ctx_org ctx) normalized_name = None)
         (ConflictError ''a source with this name already exists'')) (\<lambda>_.
     let s = \<lparr>s_id = t_ids t 0, s_org = ctx_org ctx, s_name = normalized_name, s_type = stype,
              s_uri = normalized_uri, s_default_authority = authority,
              s_created_at = t_now t, s_updated_at = t_now t\<rparr> in
     bindr (on_integrity (ConflictError ''a source with this name already exists'') (insert_source db s))
       (\<lambda>db'. Inr (s, db')))))))"

text \<open>The part of \<^verbatim>\<open>record_version\<close> before its transaction: the inputs, normalised.\<close>

record checked_command =
  ck_entity_type :: string
  ck_external_id :: string
  ck_property :: string
  ck_value :: pyval
  ck_window :: validity_window
  ck_observed_at :: instant
  ck_confidence :: rat

definition check_command :: "runtime \<Rightarrow> record_command \<Rightarrow> checked_command result" where
  "check_command R cmd =
     bindr (normalize_identifier (cmd_entity_type cmd) ''entity_type'') (\<lambda>entity_type.
     bindr (normalize_external_id (cmd_external_id cmd)) (\<lambda>external_id.
     bindr (normalize_identifier (cmd_property cmd) ''property'') (\<lambda>property_name.
     bindr (validate_fact_value R (cmd_value cmd)) (\<lambda>value.
     bindr (mk_window (cmd_valid_from cmd) (cmd_valid_until cmd)) (\<lambda>window.
     bindr (require_aware (case cmd_observed_at cmd of Some d \<Rightarrow> d | None \<Rightarrow> cmd_valid_from cmd) ''observed_at'')
       (\<lambda>observed_at.
     bindr (normalize_confidence (cmd_confidence cmd)) (\<lambda>confidence.
     Inr \<lparr>ck_entity_type = entity_type, ck_external_id = external_id, ck_property = property_name,
        ck_value = value, ck_window = window, ck_observed_at = observed_at,
        ck_confidence = confidence\<rparr>)))))))"

section \<open>Recording a version\<close>

definition detect_value_conflict ::
  "txn \<Rightarrow> tenant_context \<Rightarrow> uuid \<Rightarrow> fact_version \<Rightarrow> version_facts \<Rightarrow> fact_version \<Rightarrow> db \<Rightarrow> db result" where
  "detect_value_conflict t ctx entity_id previous left new db = (let right = rule_view new in
     case value_conflict left right of
       None \<Rightarrow> Inr db
     | Some reason \<Rightarrow> insert_contradiction db
         \<lparr>c_id = t_ids t 3, c_org = ctx_org ctx, c_entity_id = entity_id,
          c_left_version_id = fv_id previous, c_right_version_id = fv_id new, c_kind = VALUE_CONFLICT,
          c_detector = RULE_OBSERVED_VALUE_CONFLICT, c_explanation = reason,
          c_preferred_version_id = Some (preferred left right),
          c_privacy_scope = max (fv_privacy_scope previous) (fv_privacy_scope new),
          c_status = OPEN, c_resolution_note = None, c_resolved_by_user_id = None,
          c_resolved_at = None, c_detected_at = t_now t\<rparr>)"

text \<open>What the plan needs of the latest version: its number and its window, checked again.\<close>

definition latest_view :: "fact_version option \<Rightarrow> latest_version option result" where
  "latest_view latest = (case latest of
      None \<Rightarrow> Inr None
    | Some l \<Rightarrow> bindr (mk_window (Aware (fv_valid_from l)) (map_option Aware (fv_valid_until l))) (\<lambda>w.
        Inr (Some \<lparr>lv_version = fv_version l, lv_window = w\<rparr>)))"

definition new_version ::
  "txn \<Rightarrow> uuid \<Rightarrow> uuid \<Rightarrow> record_command \<Rightarrow> checked_command \<Rightarrow> fact_source \<Rightarrow> int \<Rightarrow>
     fact_version option \<Rightarrow> version_plan \<Rightarrow> fact_version" where
  "new_version t org fid cmd ck source authority latest plan = (let recorded_at = next_transaction_time t latest in
     \<lparr>fv_id = t_ids t 2, fv_org = org, fv_fact_id = fid, fv_version = vp_version plan,
      fv_value = ck_value ck, fv_source_id = s_id source, fv_valid_from = vw_from (ck_window ck),
      fv_valid_until = vw_until (ck_window ck), fv_observed_at = ck_observed_at ck,
      fv_recorded_at = recorded_at,
      fv_valid_until_recorded_at = (case vw_until (ck_window ck) of None \<Rightarrow> None | Some _ \<Rightarrow> Some recorded_at),
      fv_supersedes_id = map_option fv_id latest, fv_authority = authority,
      fv_confidence = ck_confidence ck, fv_privacy_scope = cmd_privacy_scope cmd\<rparr>)"

text \<open>The steps under the lock on the fact: plan, close the previous version, insert, detect, link.\<close>

definition append_version ::
  "txn \<Rightarrow> tenant_context \<Rightarrow> record_command \<Rightarrow> checked_command \<Rightarrow> fact_source \<Rightarrow> int \<Rightarrow> entity \<Rightarrow> fact \<Rightarrow>
     db \<Rightarrow> (fact_version \<times> db) result" where
  "append_version t ctx cmd ck source authority entity fct db = (let
      org = ctx_org ctx;
      latest = latest_version_row db org (f_id fct) in
     bindr (latest_view latest) (\<lambda>view.
     bindr (plan_new_version view (ck_window ck)) (\<lambda>plan.
     bindr (case (latest, vp_close_previous_at plan) of
         (Some l, Some i) \<Rightarrow> close_version org l i (next_transaction_time t latest) db
       | _ \<Rightarrow> Inr db) (\<lambda>db1.
     let v = new_version t org (f_id fct) cmd ck source authority latest plan in
     bindr (insert_version db1 v) (\<lambda>db2.
     bindr (case latest of None \<Rightarrow> Inr db2
       | Some l \<Rightarrow> detect_value_conflict t ctx (en_id entity) l (rule_view l) v db2) (\<lambda>db3.
     bindr (link_evidence t ctx (fv_id v) (cmd_evidence_ids cmd) SUPPORTS db3) (\<lambda>(_, db4).
     Inr (v, db4))))))))"

definition record_version ::
  "runtime \<Rightarrow> txn \<Rightarrow> tenant_context \<Rightarrow> record_command \<Rightarrow> db \<Rightarrow> (fact_version \<times> db) result" where
  "record_version R t ctx cmd db =
     bindr (check_command R cmd) (\<lambda>ck.
     bindr (require_permission db ctx WRITE_FACTS) (\<lambda>_.
     bindr (some_or (get_source db (ctx_org ctx) (cmd_source_id cmd)) (NotFoundError ''source not found'')) (\<lambda>source.
     bindr (validate_authority (case cmd_authority cmd of None \<Rightarrow> PyInt (s_default_authority source) | Some a \<Rightarrow> a))
       (\<lambda>authority.
     bindr (get_or_create_entity t 0 (ctx_org ctx) (ck_entity_type ck) (ck_external_id ck) db) (\<lambda>(entity, db1).
     bindr (get_or_create_fact t 1 (ctx_org ctx) (en_id entity) (ck_property ck) db1) (\<lambda>(fct, db2).
     append_version t ctx cmd ck source authority entity fct db2))))))"

section \<open>Reads\<close>

definition read_version :: "db \<Rightarrow> tenant_context \<Rightarrow> uuid \<Rightarrow> fact_version result" where
  "read_version db ctx vid =
     bindr (require_permission db ctx READ_FACTS) (\<lambda>_.
     some_or (get_version_row db (ctx_org ctx) vid) (NotFoundError ''fact version not found''))"

definition read_fact :: "db \<Rightarrow> tenant_context \<Rightarrow> uuid \<Rightarrow> fact result" where
  "read_fact db ctx fid =
     bindr (require_permission db ctx READ_FACTS) (\<lambda>_.
     some_or (get_fact_row db (ctx_org ctx) fid) (NotFoundError ''fact not found''))"

definition list_versions :: "db \<Rightarrow> tenant_context \<Rightarrow> uuid \<Rightarrow> fact_version list result" where
  "list_versions db ctx fid =
     bindr (require_permission db ctx READ_FACTS) (\<lambda>_.
     bindr (some_or (get_fact_row db (ctx_org ctx) fid) (NotFoundError ''fact not found'')) (\<lambda>_.
     Inr (list_version_rows db (ctx_org ctx) fid)))"

section \<open>Facts on the steps\<close>

lemma check_command_Inr:
  assumes "check_command R cmd = Inr ck"
  shows "identifier_pattern (ck_entity_type ck)" "length (ck_entity_type ck) \<le> 128"
    "ck_external_id ck \<noteq> []" "length (ck_external_id ck) \<le> 256"
    "identifier_pattern (ck_property ck)" "length (ck_property ck) \<le> 128" "ck_value ck \<noteq> PNone"
    "starts_before_end (vw_from (ck_window ck)) (vw_until (ck_window ck))"
    "0 \<le> ck_confidence ck" "ck_confidence ck \<le> 1"
  using assms
  by (auto simp: check_command_def result_simps dest: normalize_identifier_sound normalize_external_id_sound
      validate_fact_value_same mk_window_ordered normalize_confidence_range)

lemma next_transaction_time_after: "fv_recorded_at l < next_transaction_time t (Some l)"
  by (simp add: next_transaction_time_def)

lemma latest_view_row:
  assumes "row_ok l"
  shows "latest_view (Some l) =
    Inr (Some \<lparr>lv_version = fv_version l, lv_window = \<lparr>vw_from = fv_valid_from l, vw_until = fv_valid_until l\<rparr>\<rparr>)"
  using assms mk_window_row [of "fv_valid_from l" "fv_valid_until l"]
  by (simp add: latest_view_def row_ok_def version_checks_def)

lemma new_version_fields [simp]:
  "fv_id (new_version t org fid cmd ck s a latest plan) = t_ids t 2"
  "fv_org (new_version t org fid cmd ck s a latest plan) = org"
  "fv_fact_id (new_version t org fid cmd ck s a latest plan) = fid"
  "fv_version (new_version t org fid cmd ck s a latest plan) = vp_version plan"
  "fv_valid_from (new_version t org fid cmd ck s a latest plan) = vw_from (ck_window ck)"
  "fv_valid_until (new_version t org fid cmd ck s a latest plan) = vw_until (ck_window ck)"
  "fv_recorded_at (new_version t org fid cmd ck s a latest plan) = next_transaction_time t latest"
  "fv_supersedes_id (new_version t org fid cmd ck s a latest plan) = map_option fv_id latest"
  "fv_source_id (new_version t org fid cmd ck s a latest plan) = s_id s"
  "fv_value (new_version t org fid cmd ck s a latest plan) = ck_value ck"
  "fv_privacy_scope (new_version t org fid cmd ck s a latest plan) = cmd_privacy_scope cmd"
  by (simp_all add: new_version_def Let_def)

lemma new_version_row_ok:
  assumes ck: "check_command R cmd = Inr ck" and a: "0 \<le> a" "a \<le> 100"
    and p: "1 \<le> vp_version plan" "(vp_version plan = 1) = (latest = None)"
  shows "row_ok (new_version t org fid cmd ck s a latest plan)"
  using check_command_Inr [OF ck] a p
  by (auto simp: row_ok_def version_checks_def new_version_def Let_def split: option.splits)

lemma insert_contradiction_Inr:
  assumes "insert_contradiction db c = Inr db'"
  shows "db' = db\<lparr>contradictions := contradictions db @ [c]\<rparr>" "contradiction_checks db c"
  using assms by (auto simp: insert_contradiction_def result_simps)

text \<open>What a contradiction recorded by the rule says of the two versions.\<close>

definition contradiction_of :: "fact_version option \<Rightarrow> fact_version \<Rightarrow> contradiction \<Rightarrow> bool" where
  "contradiction_of latest v c \<longleftrightarrow> (case latest of None \<Rightarrow> False | Some l \<Rightarrow>
     value_conflict (rule_view l) (rule_view v) = Some (c_explanation c) \<and>
     c_left_version_id c = fv_id l \<and> c_right_version_id c = fv_id v \<and> fv_id l \<noteq> fv_id v \<and>
     c_privacy_scope c = max (fv_privacy_scope l) (fv_privacy_scope v) \<and>
     c_kind c = VALUE_CONFLICT \<and> c_status c = OPEN \<and>
     c_preferred_version_id c = Some (preferred (rule_view l) (rule_view v)))"

lemma detect_value_conflict_Inr:
  assumes "detect_value_conflict t ctx eid l (rule_view l) v db = Inr db'"
  shows "\<exists>new. db' = db\<lparr>contradictions := contradictions db @ new\<rparr> \<and> length new \<le> 1 \<and>
    (\<forall>c \<in> set new. contradiction_of (Some l) v c \<and> c_org c = ctx_org ctx) \<and>
    (\<forall>c \<in> set new. c_entity_id c = eid \<and> c_resolved_at c = None) \<and>
    (new = [] \<longleftrightarrow> value_conflict (rule_view l) (rule_view v) = None) \<and>
    (distinct (map c_id (contradictions db)) \<and> distinct (map contradiction_key (contradictions db)) \<longrightarrow>
       distinct (map c_id (contradictions db @ new)) \<and> distinct (map contradiction_key (contradictions db @ new)))"
proof (cases "value_conflict (rule_view l) (rule_view v)")
  case None
  then show ?thesis using assms by (intro exI [of _ "[]"]) (simp add: detect_value_conflict_def)
next
  case (Some r)
  then obtain c where c: "insert_contradiction db c = Inr db'" "c_org c = ctx_org ctx" "c_entity_id c = eid" "c_resolved_at c = None"
      "c_explanation c = r" "c_left_version_id c = fv_id l" "c_right_version_id c = fv_id v"
      "c_privacy_scope c = max (fv_privacy_scope l) (fv_privacy_scope v)" "c_kind c = VALUE_CONFLICT"
      "c_status c = OPEN" "c_preferred_version_id c = Some (preferred (rule_view l) (rule_view v))"
    using assms by (auto simp: detect_value_conflict_def Let_def)
  have "contradiction_of (Some l) v c"
    using c Some insert_contradiction_Inr(2) [OF c(1)] by (simp add: contradiction_of_def contradiction_checks_def)
  moreover have "c_id c \<notin> c_id ` set (contradictions db)" "contradiction_key c \<notin> contradiction_key ` set (contradictions db)"
    using c(1) by (auto simp: insert_contradiction_def result_simps)
  ultimately show ?thesis
    using insert_contradiction_Inr [OF c(1)] c(2-4) Some by (intro exI [of _ "[c]"]) simp
qed

section \<open>The chain after one more version\<close>

text \<open>
  The newest version of a fact was never closed by a successor: if it has an end, it was
  recorded with it. Between closing the previous version and inserting the next one this
  does not hold, so it is stated beside \<^const>\<open>ledger_ok\<close>, which holds throughout.
\<close>

definition end_fixed_at_creation :: "fact_version \<Rightarrow> bool" where
  "end_fixed_at_creation v \<longleftrightarrow> (case fv_valid_until_recorded_at v of None \<Rightarrow> True | Some r \<Rightarrow> r = fv_recorded_at v)"

definition ledger_inv :: "db \<Rightarrow> bool" where
  "ledger_inv db \<longleftrightarrow> ledger_ok db \<and>
     (\<forall>v \<in> set (fact_versions db). end_fixed_at_creation (last (fact_rows db (fv_fact_id v))))"

lemma ledger_inv_ok: "ledger_inv db \<Longrightarrow> ledger_ok db"
  by (simp add: ledger_inv_def)

lemma ledger_inv_empty: "ledger_inv empty_db"
  using ledger_ok_empty by (simp add: ledger_inv_def empty_db_def)

lemma ledger_inv_last:
  assumes "ledger_inv db" and "fact_rows db fid = vs @ [l]"
  shows "end_fixed_at_creation l"
proof -
  have "l \<in> set (fact_rows db fid)" using assms by simp
  then have "l \<in> set (fact_versions db)" "fv_fact_id l = fid" by (auto simp: fact_rows_in)
  then show ?thesis using assms by (auto simp: ledger_inv_def)
qed

text \<open>The database in which the plan's closing of the latest version is done.\<close>

definition planned_db :: "fact_version option \<Rightarrow> version_plan \<Rightarrow> instant \<Rightarrow> db \<Rightarrow> db" where
  "planned_db latest plan rec db = (case (latest, vp_close_previous_at plan) of
      (Some l, Some i) \<Rightarrow> closed_db l i rec db | _ \<Rightarrow> db)"

text \<open>
  \<open>append_inputs\<close> collects what is known when the steps under the lock begin: the ledger is
  well formed, the fact and the source belong to the caller's tenant, the inputs are checked.
\<close>

definition append_inputs ::
  "runtime \<Rightarrow> tenant_context \<Rightarrow> record_command \<Rightarrow> checked_command \<Rightarrow> fact_source \<Rightarrow> int \<Rightarrow> fact \<Rightarrow> db \<Rightarrow> bool" where
  "append_inputs R ctx cmd ck s a f db \<longleftrightarrow> ledger_inv db \<and> f \<in> set (facts db) \<and> f_org f = ctx_org ctx \<and>
     s \<in> set (sources db) \<and> s_org s = ctx_org ctx \<and> check_command R cmd = Inr ck \<and> 0 \<le> a \<and> a \<le> 100"

lemma latest_of_inputs:
  assumes "append_inputs R ctx cmd ck s a f db"
  shows "latest_version_row db (ctx_org ctx) (f_id f) =
    (if fact_rows db (f_id f) = [] then None else Some (last (fact_rows db (f_id f))))"
  using assms latest_version_last [of db f] by (simp add: append_inputs_def ledger_inv_ok)

lemma planned_chain:
  fixes t :: txn
  assumes inp: "append_inputs R ctx cmd ck s a f db"
    and latest: "latest = latest_version_row db (ctx_org ctx) (f_id f)"
    and view: "latest_view latest = Inr view" and plan: "plan_new_version view (ck_window ck) = Inr plan"
  defines "v \<equiv> new_version t (ctx_org ctx) (f_id f) cmd ck s a latest plan"
  defines "db1 \<equiv> planned_db latest plan (next_transaction_time t latest) db"
  shows "ledger_ok db1" "chain_ok (fact_rows db1 (f_id f) @ [v])" "row_ok v"
    "fid \<noteq> f_id f \<Longrightarrow> fact_rows db1 fid = fact_rows db fid"
    "set (map fv_id (fact_versions db1)) = set (map fv_id (fact_versions db))"
proof -
  have inv: "ledger_inv db" and ok: "ledger_ok db" and ck: "check_command R cmd = Inr ck" and a: "0 \<le> a" "a \<le> 100"
    using inp by (simp_all add: append_inputs_def ledger_inv_ok)
  let ?rows = "fact_rows db (f_id f)"
  have all: "ledger_ok db1 \<and> chain_ok (fact_rows db1 (f_id f) @ [v]) \<and> row_ok v \<and>
      (fid \<noteq> f_id f \<longrightarrow> fact_rows db1 fid = fact_rows db fid) \<and>
      set (map fv_id (fact_versions db1)) = set (map fv_id (fact_versions db))"
  proof (cases "?rows" rule: rev_cases)
    case Nil
    then have l: "latest = None" using latest latest_of_inputs [OF inp] by simp
    then have p: "plan = \<lparr>vp_version = 1, vp_close_previous_at = None\<rparr>"
      using view plan by (simp add: latest_view_def plan_first)
    have "row_ok v" unfolding v_def by (rule new_version_row_ok [OF ck a]) (simp_all add: p l)
    then show ?thesis using ok l p Nil by (simp add: db1_def planned_db_def v_def chain_ok_single)
  next
    case (snoc vs l)
    then have l: "latest = Some l" using latest latest_of_inputs [OF inp] by simp
    have l_in: "l \<in> set ?rows" using snoc by simp
    have fid: "fv_fact_id l = f_id f" and lrow: "row_ok l"
      using l_in ledger_row_ok [OF ok] by (auto simp: fact_rows_in)
    have ch: "chain_ok (vs @ [l])" using ledger_chain [OF ok, of "f_id f"] snoc by simp
    define lv where "lv = \<lparr>lv_version = fv_version l, lv_window = \<lparr>vw_from = fv_valid_from l, vw_until = fv_valid_until l\<rparr>\<rparr>"
    have "view = Some lv" using view l latest_view_row [OF lrow] by (simp add: lv_def)
    note pl = plan_next [OF plan [unfolded this]]
    let ?r = "next_transaction_time t latest"
    have rec: "fv_recorded_at l < ?r" unfolding l by (rule next_transaction_time_after)
    have "1 \<le> fv_version l" using lrow by (simp add: row_ok_def version_checks_def)
    then have vrow: "row_ok v"
      unfolding v_def by (intro new_version_row_ok [OF ck a]) (use pl(1) in \<open>simp_all add: lv_def l\<close>)
    have rows: "fact_rows db (fv_fact_id l) = vs @ [l]" using snoc fid by simp
    show ?thesis
    proof (cases "fv_valid_until l")
      case None
      let ?c = "close_row (vw_from (ck_window ck)) ?r l"
      have close: "vp_close_previous_at plan = Some (vw_from (ck_window ck))"
        using pl(4) None by (simp add: lv_def)
      have db1: "db1 = closed_db l (vw_from (ck_window ck)) ?r db"
        using close l by (simp add: db1_def planned_db_def)
      have from_: "fv_valid_from l < vw_from (ck_window ck)" using pl(2) by (simp add: lv_def)
      have link: "chain_link ?c v"
        using pl(1) rec by (simp add: chain_link_def close_row_def v_def l lv_def)
      have "chain_ok (vs @ [?c] @ [v])"
        by (rule chain_ok_snoc [OF chain_ok_close_last [OF ch from_] link vrow]) (use rec in simp)
      moreover have "ledger_ok db1" unfolding db1 by (rule closed_db_ok [OF ok rows from_]) (use rec in simp)
      moreover have "set (map fv_id (fact_versions db1)) = set (map fv_id (fact_versions db))"
        unfolding db1 by (auto simp: closed_db_def close_row_def image_image intro: rev_image_eqI)
      ultimately show ?thesis
        using vrow fid by (simp add: db1 fact_rows_closed_db [OF ok rows])
    next
      case (Some u)
      have close: "vp_close_previous_at plan = None" using pl(4) Some by (simp add: lv_def)
      have db1: "db1 = db" using close l by (simp add: db1_def planned_db_def)
      obtain r where r: "fv_valid_until_recorded_at l = Some r"
        using lrow Some by (auto simp: row_ok_def version_checks_def)
      have "r = fv_recorded_at l"
        using ledger_inv_last [OF inv snoc] r by (simp add: end_fixed_at_creation_def)
      then have "chain_link l v"
        using pl(1,3) rec Some r close by (auto simp: chain_link_def v_def l lv_def planned_end_def)
      then show ?thesis using ok vrow chain_ok_snoc [OF ch] snoc by (simp add: db1)
    qed
  qed
  then show "ledger_ok db1" "chain_ok (fact_rows db1 (f_id f) @ [v])" "row_ok v"
    "fid \<noteq> f_id f \<Longrightarrow> fact_rows db1 fid = fact_rows db fid"
    "set (map fv_id (fact_versions db1)) = set (map fv_id (fact_versions db))"
    by simp_all
qed

section \<open>The constraints hold by construction\<close>

lemma chain_predecessor:
  assumes "chain_ok vs" and "w \<in> set vs" and "fv_supersedes_id w = Some i"
  shows "\<exists>p \<in> set vs. fv_id p = i \<and> chain_link p w"
proof -
  obtain xs ys where vs: "vs = xs @ w # ys" using assms(2) by (meson split_list)
  show ?thesis
  proof (cases xs rule: rev_cases)
    case Nil
    then have "fv_version w = 1" "row_ok w" using assms(1) vs by (auto simp: chain_ok_def)
    then show ?thesis using assms(3) by (simp add: row_ok_def version_checks_def)
  next
    case (snoc us p)
    then have "chain_link p w" using assms(1) vs by (auto simp: chain_ok_def successively_append_iff)
    then show ?thesis using assms(3) vs snoc by (auto simp: chain_link_def)
  qed
qed

lemma close_version_success:
  assumes ok: "ledger_ok db" and rows: "fact_rows db (fv_fact_id l) = vs @ [l]" and op: "fv_valid_until l = None"
    and u: "fv_valid_from l < u" and r: "fv_recorded_at l \<le> r"
  shows "close_version (fv_org l) l u r db = Inr (closed_db l u r db)"
proof -
  have l: "l \<in> set (fact_versions db)" using rows fact_rows_in [of l db "fv_fact_id l"] by simp
  have eq: "w = l" if "w \<in> set (fact_versions db)" "fv_id w = fv_id l" for w
    using ok l that by (auto simp: ledger_ok_def dest: distinct_map_eqD)
  have "row_ok l" using ledger_row_ok [OF ok l] .
  then have checks: "version_checks (close_row u r l)"
    using u by (auto simp: row_ok_def version_checks_def close_row_def starts_before_end_def)
  have upd: "append_only_update l (close_row u r l)"
    using op by (simp add: append_only_update_def close_row_def)
  have apart: "\<not> versions_overlap (close_row u r l) x" if x: "x \<in> set (fact_versions db)" "fv_id x \<noteq> fv_id l" for x
  proof
    assume ov: "versions_overlap (close_row u r l) x"
    then have "x \<in> set (fact_rows db (fv_fact_id l))"
      using x by (simp add: fact_rows_in versions_overlap_def close_row_def)
    then have "x \<in> set vs" using rows x by auto
    then have "precedes x l"
      using chain_ok_precedes [OF ledger_chain [OF ok, of "fv_fact_id l"]] rows by (auto simp: sorted_wrt_append)
    then show False
      using ov by (auto simp: precedes_def versions_overlap_def ranges_overlap_def starts_before_end_def close_row_def)
  qed
  have "\<exists>db'. close_version (fv_org l) l u r db = Inr db'"
    using eq op checks upd apart by (auto simp: close_version_def Let_def result_simps requirer_def)
  then show ?thesis using close_version_closed_db [OF ok l op] by auto
qed

lemma insert_version_success:
  assumes ok: "ledger_ok db1" and ch: "chain_ok (fact_rows db1 (fv_fact_id v) @ [v])"
    and id: "fv_id v \<notin> fv_id ` set (fact_versions db1)"
    and fact: "(fv_org v, fv_fact_id v) \<in> (\<lambda>f. (f_org f, f_id f)) ` set (facts db1)"
    and source: "(fv_org v, fv_source_id v) \<in> (\<lambda>s. (s_org s, s_id s)) ` set (sources db1)"
  shows "insert_version db1 v = Inr (db1\<lparr>fact_versions := fact_versions db1 @ [v]\<rparr>)"
proof -
  let ?rows = "fact_rows db1 (fv_fact_id v)"
  have row: "row_ok v" using chain_ok_rows [OF ch] by simp
  have before: "precedes w v" if "w \<in> set (fact_versions db1)" "fv_fact_id w = fv_fact_id v" for w
    using chain_ok_precedes [OF ch] that by (simp add: sorted_wrt_append fact_rows_in)
  have sup: "\<exists>p \<in> set ?rows. fv_id p = i \<and> chain_link p v" if "fv_supersedes_id v = Some i" for i
    using chain_predecessor [OF ch _ that] by (auto simp: chain_link_def)
  have unique: "fv_supersedes_id w \<noteq> fv_supersedes_id v"
    if w: "w \<in> set (fact_versions db1)" and s: "fv_supersedes_id v = Some i" for w i
  proof
    assume same: "fv_supersedes_id w = fv_supersedes_id v"
    obtain p where p: "p \<in> set ?rows" "fv_id p = i" "chain_link p v" using sup [OF s] by blast
    have "version_fks db1 w" using ok w by (simp add: ledger_ok_def)
    then obtain q where q: "q \<in> set (fact_versions db1)" "fv_fact_id q = fv_fact_id w" "fv_id q = i"
      using same s by (auto simp: version_fks_def)
    have "p \<in> set (fact_versions db1)" using p by (simp add: fact_rows_in)
    then have "p = q" using ok p q by (auto simp: ledger_ok_def dest: distinct_map_eqD)
    then have wf: "fv_fact_id w = fv_fact_id v" using p q by (simp add: fact_rows_in)
    obtain x where x: "x \<in> set ?rows" "fv_id x = i" "chain_link x w"
      using chain_predecessor [OF ledger_chain [OF ok, of "fv_fact_id v"], of w i] w wf same s
      by (auto simp: fact_rows_in)
    then have "x = p" using ok p by (auto simp: ledger_ok_def fact_rows_in dest: distinct_map_eqD)
    then have "fv_version w = fv_version v" using x p by (simp add: chain_link_def)
    then show False using before [OF w wf] by (simp add: precedes_def)
  qed
  have "version_checks v" using row by (simp add: row_ok_def)
  moreover have "version_uniques db1 v"
    using id before unique unfolding version_uniques_def
    by (cases "fv_supersedes_id v") (force simp: precedes_def)+
  moreover have "version_fks db1 v"
    using fact source sup unfolding version_fks_def
    by (cases "fv_supersedes_id v") (force simp: fact_rows_in)+
  moreover have "\<not> versions_overlap v w" if "w \<in> set (fact_versions db1)" for w
    using before [OF that] precedes_no_overlap [of w v] by (auto simp: versions_overlap_def ranges_overlap_def)
  ultimately show ?thesis by (simp add: insert_version_def)
qed

text \<open>Every contradiction names two versions of its own tenant.\<close>

definition contradictions_ok :: "db \<Rightarrow> bool" where
  "contradictions_ok db \<longleftrightarrow> distinct (map c_id (contradictions db)) \<and>
     distinct (map contradiction_key (contradictions db)) \<and>
     (\<forall>c \<in> set (contradictions db). c_left_version_id c \<in> fv_id ` set (fact_versions db) \<and>
        c_right_version_id c \<in> fv_id ` set (fact_versions db) \<and> c_left_version_id c \<noteq> c_right_version_id c)"

lemma detect_value_conflict_success:
  assumes v: "v \<in> set (fact_versions db)" "fv_org v = ctx_org ctx" and l: "(ctx_org ctx, fv_id l) \<in> (\<lambda>v. (fv_org v, fv_id v)) ` set (fact_versions db)"
    and e: "(ctx_org ctx, eid) \<in> (\<lambda>e. (en_org e, en_id e)) ` set (entities db)" and ne: "fv_id l \<noteq> fv_id v"
    and id: "t_ids t 3 \<notin> c_id ` set (contradictions db)"
    and new: "fv_id v \<notin> c_right_version_id ` set (contradictions db)"
  shows "\<exists>db'. detect_value_conflict t ctx eid l left v db = Inr db'"
proof -
  have right: "(ctx_org ctx, fv_id v) \<in> (\<lambda>v. (fv_org v, fv_id v)) ` set (fact_versions db)" using v by force
  have key: "(ctx_org ctx, fv_id l, fv_id v) \<notin> contradiction_key ` set (contradictions db)" using new by force
  show ?thesis
    using right l e ne id key
    by (simp add: detect_value_conflict_def Let_def insert_contradiction_def contradiction_checks_def split: option.split)
qed

lemma latest_row:
  assumes inp: "append_inputs R ctx cmd ck s a f db" and l: "latest_version_row db (ctx_org ctx) (f_id f) = Some x"
  shows "x \<in> set (fact_versions db)" "fv_org x = ctx_org ctx" "row_ok x" "fv_fact_id x = f_id f"
    "fact_rows db (fv_fact_id x) = butlast (fact_rows db (f_id f)) @ [x]"
proof -
  have ok: "ledger_ok db" and f: "f \<in> set (facts db)" "f_org f = ctx_org ctx"
    using inp by (auto simp: append_inputs_def ledger_inv_ok)
  have ne: "fact_rows db (f_id f) \<noteq> []" and x: "x = last (fact_rows db (f_id f))"
    using l latest_of_inputs [OF inp] by (auto split: if_splits)
  show xin: "x \<in> set (fact_versions db)" and fid: "fv_fact_id x = f_id f"
    using last_in_set [OF ne] x by (auto simp: fact_rows_in)
  show "fv_org x = ctx_org ctx" "row_ok x"
    using ledger_version_org [OF ok xin f(1)] f(2) fid ledger_row_ok [OF ok xin] by auto
  show "fact_rows db (fv_fact_id x) = butlast (fact_rows db (f_id f)) @ [x]" using ne x fid by simp
qed

text \<open>Carrying out the plan's closing always succeeds, and gives the planned database.\<close>

lemma close_step:
  assumes inp: "append_inputs R ctx cmd ck s a f db" and latest: "latest = latest_version_row db (ctx_org ctx) (f_id f)"
    and view: "latest_view latest = Inr view" and plan: "plan_new_version view (ck_window ck) = Inr plan"
  shows "(case (latest, vp_close_previous_at plan) of
      (Some l, Some i) \<Rightarrow> close_version (ctx_org ctx) l i (next_transaction_time t latest) db | _ \<Rightarrow> Inr db) =
    Inr (planned_db latest plan (next_transaction_time t latest) db)"
proof (cases latest)
  case (Some l)
  note lr = latest_row [OF inp latest [symmetric, unfolded Some]]
  have "view = Some \<lparr>lv_version = fv_version l, lv_window = \<lparr>vw_from = fv_valid_from l, vw_until = fv_valid_until l\<rparr>\<rparr>"
    using view Some latest_view_row [OF lr(3)] by simp
  note pn = plan_next [OF plan [unfolded this]]
  show ?thesis
  proof (cases "vp_close_previous_at plan")
    case (Some i)
    then have "fv_valid_until l = None" "fv_valid_from l < i" using pn(2,4) by (auto split: if_splits)
    then show ?thesis
      using close_version_success [OF ledger_inv_ok lr(5), of i "next_transaction_time t latest"] inp lr(2) Some
        \<open>latest = Some l\<close> next_transaction_time_after [of l t]
      by (simp add: planned_db_def append_inputs_def)
  qed (simp add: Some planned_db_def)
qed (simp add: planned_db_def)

lemma planned_db_keys:
  "(\<lambda>v. (fv_org v, fv_id v)) ` set (fact_versions (planned_db l p r db)) = (\<lambda>v. (fv_org v, fv_id v)) ` set (fact_versions db)"
proof -
  have "map (\<lambda>v. (fv_org v, fv_id v)) (fact_versions (closed_db x i r db)) =
      map (\<lambda>v. (fv_org v, fv_id v)) (fact_versions db)" for x i
    by (simp add: closed_db_def close_row_def)
  from this [THEN arg_cong [where f = set]]
  have "(\<lambda>v. (fv_org v, fv_id v)) ` set (fact_versions (closed_db x i r db)) =
      (\<lambda>v. (fv_org v, fv_id v)) ` set (fact_versions db)" for x i
    by (simp only: set_map)
  then show ?thesis by (simp add: planned_db_def split: option.split)
qed

section \<open>What one request does\<close>

text \<open>
  The steps under the lock, undone: the version is the planned one, the table of versions is
  the old one with the latest version closed as planned and the new one appended, and apart
  from it only contradictions and links of the caller's tenant are added.
\<close>

lemma append_version_Inr:
  assumes inp: "append_inputs R ctx cmd ck s a f db"
    and run: "append_version t ctx cmd ck s a e f db = Inr (v, db')"
  obtains latest view plan db1 cs ls where
    "latest = latest_version_row db (ctx_org ctx) (f_id f)" "latest_view latest = Inr view"
    "plan_new_version view (ck_window ck) = Inr plan"
    "v = new_version t (ctx_org ctx) (f_id f) cmd ck s a latest plan"
    "db1 = planned_db latest plan (next_transaction_time t latest) db"
    "insert_version db1 v = Inr (db1\<lparr>fact_versions := fact_versions db1 @ [v]\<rparr>)"
    "db' = db1\<lparr>fact_versions := fact_versions db1 @ [v],
        contradictions := contradictions db @ cs, evidence_links := evidence_links db @ ls\<rparr>"
    "length cs \<le> 1" "\<forall>c \<in> set cs. contradiction_of latest v c \<and> c_org c = ctx_org ctx"
    "distinct (map c_id (contradictions db)) \<and> distinct (map contradiction_key (contradictions db)) \<longrightarrow>
       distinct (map c_id (contradictions db @ cs)) \<and> distinct (map contradiction_key (contradictions db @ cs))"
    "list_all (link_of_call ctx (fv_id v) SUPPORTS (cmd_evidence_ids cmd)) ls"
    "\<forall>c \<in> set cs. c_entity_id c = en_id e \<and> c_resolved_at c = None"
proof -
  let ?latest = "latest_version_row db (ctx_org ctx) (f_id f)"
  obtain view plan db1 db2 db3 n where view: "latest_view ?latest = Inr view"
    and plan: "plan_new_version view (ck_window ck) = Inr plan"
    and close: "(case (?latest, vp_close_previous_at plan) of
         (Some l, Some i) \<Rightarrow> close_version (ctx_org ctx) l i (next_transaction_time t ?latest) db | _ \<Rightarrow> Inr db) = Inr db1"
    and v: "v = new_version t (ctx_org ctx) (f_id f) cmd ck s a ?latest plan"
    and ins: "insert_version db1 v = Inr db2"
    and det: "(case ?latest of None \<Rightarrow> Inr db2 | Some l \<Rightarrow> detect_value_conflict t ctx (en_id e) l (rule_view l) v db2) = Inr db3"
    and link: "link_evidence t ctx (fv_id v) (cmd_evidence_ids cmd) SUPPORTS db3 = Inr (n, db')"
    using run by (auto simp: append_version_def Let_def result_simps)
  let ?p = "planned_db ?latest plan (next_transaction_time t ?latest) db"
  have p: "db1 = ?p" using close close_step [OF inp refl view plan, of t] by simp
  have db2: "db2 = ?p\<lparr>fact_versions := fact_versions ?p @ [v]\<rparr>"
    using insert_version_Inr(1) [OF ins] p by simp
  have same: "contradictions ?p = contradictions db" "evidence_links ?p = evidence_links db"
    by (simp_all add: planned_db_def closed_db_def split: option.splits)
  obtain cs where cs: "db3 = db2\<lparr>contradictions := contradictions db2 @ cs\<rparr>" "length cs \<le> 1"
    "\<forall>c \<in> set cs. contradiction_of ?latest v c \<and> c_org c = ctx_org ctx"
    "distinct (map c_id (contradictions db)) \<and> distinct (map contradiction_key (contradictions db)) \<longrightarrow>
       distinct (map c_id (contradictions db @ cs)) \<and> distinct (map contradiction_key (contradictions db @ cs))"
    "\<forall>c \<in> set cs. c_entity_id c = en_id e \<and> c_resolved_at c = None"
  proof (cases ?latest)
    case None
    then show ?thesis using det that [of "[]"] by simp
  next
    case (Some l)
    have c2: "contradictions db2 = contradictions db" by (simp add: db2 same)
    show ?thesis
      by (rule exE [OF detect_value_conflict_Inr [of t ctx "en_id e" l v db2 db3]])
        (use det Some c2 that in \<open>auto simp: contradiction_of_def contradiction_checks_def\<close>)
  qed
  obtain ls where ls: "db' = db3\<lparr>evidence_links := evidence_links db3 @ ls\<rparr>"
    "list_all (link_of_call ctx (fv_id v) SUPPORTS (cmd_evidence_ids cmd)) ls"
    using link_evidence_Inr [OF link] by blast
  show ?thesis
    by (rule that [OF refl view plan v refl _ _ cs(2-4) ls(2) cs(5)])
      (use ins p db2 cs(1) ls(1) same in simp_all)
qed

lemma ledger_inv_cong:
  assumes "ledger_ok db'" and "fact_versions db' = fact_versions db" and "ledger_inv db"
  shows "ledger_inv db'"
  using assms by (simp add: ledger_inv_def fact_rows_def)

lemma record_version_steps:
  assumes inv: "ledger_inv db" and run: "record_version R t ctx cmd db = Inr (v, db')"
  obtains ck s a e f db2 where
    "append_inputs R ctx cmd ck s a f db2" "append_version t ctx cmd ck s a e f db2 = Inr (v, db')"
    "e \<in> set (entities db2)" "en_org e = ctx_org ctx"
    "db2 = db\<lparr>entities := entities db2, facts := facts db2\<rparr>" "fact_versions db2 = fact_versions db"
    "set (facts db) \<subseteq> set (facts db2)" "set (entities db) \<subseteq> set (entities db2)"
    "find_fact db2 (ctx_org ctx) (en_id e) (ck_property ck) = Some f"
    "find_entity db2 (ctx_org ctx) (ck_entity_type ck) (ck_external_id ck) = Some e"
    "\<exists>fs. facts db2 = facts db @ fs" "\<exists>es. entities db2 = entities db @ es"
    "filter (\<lambda>x. en_org x \<noteq> ctx_org ctx) (entities db2) = filter (\<lambda>x. en_org x \<noteq> ctx_org ctx) (entities db)"
    "filter (\<lambda>x. f_org x \<noteq> ctx_org ctx) (facts db2) = filter (\<lambda>x. f_org x \<noteq> ctx_org ctx) (facts db)"
proof -
  obtain ck s a e db1 f db2 r where ck: "check_command R cmd = Inr ck"
    and s: "get_source db (ctx_org ctx) (cmd_source_id cmd) = Some s"
    and a: "validate_authority (case cmd_authority cmd of None \<Rightarrow> PyInt (s_default_authority s) | Some a \<Rightarrow> a) = Inr a"
    and e: "get_or_create_entity t 0 (ctx_org ctx) (ck_entity_type ck) (ck_external_id ck) db = Inr (e, db1)"
    and f: "get_or_create_fact t 1 (ctx_org ctx) (en_id e) (ck_property ck) db1 = Inr (f, db2)"
    and ap: "append_version t ctx cmd ck s a e f db2 = Inr (v, db')"
    and perm: "require_permission db ctx WRITE_FACTS = Inr r"
    using run by (auto simp: record_version_def result_simps)
  note e' = get_or_create_entity_Inr [OF e ledger_inv_ok [OF inv]]
  note f' = get_or_create_fact_Inr [OF f e'(1)]
  have inv2: "ledger_inv db2" using ledger_inv_cong [OF f'(1) _ inv] f'(4) e'(4) by simp
  have src: "s \<in> set (sources db2)" "s_org s = ctx_org ctx"
    using get_source_SomeD [OF s] f'(6) e'(6) by auto
  have inp: "append_inputs R ctx cmd ck s a f db2"
    using inv2 f'(2,3) src ck validate_authority_range [OF a] by (simp add: append_inputs_def)
  have found: "find_fact db2 (ctx_org ctx) (en_id e) (ck_property ck) = Some f"
    using f by (auto simp: get_or_create_fact_def find_fact_def find_append Let_def result_simps split: option.splits)
  have found_e: "find_entity db2 (ctx_org ctx) (ck_entity_type ck) (ck_external_id ck) = Some e"
    using e f'(5) by (auto simp: get_or_create_entity_def find_entity_def find_append Let_def result_simps split: option.splits)
  have own: "filter (\<lambda>x. en_org x \<noteq> ctx_org ctx) (entities db2) = filter (\<lambda>x. en_org x \<noteq> ctx_org ctx) (entities db)"
    "filter (\<lambda>x. f_org x \<noteq> ctx_org ctx) (facts db2) = filter (\<lambda>x. f_org x \<noteq> ctx_org ctx) (facts db)"
    using e f f'(5) e'(5) by (auto simp: get_or_create_entity_def get_or_create_fact_def Let_def result_simps split: option.splits)
  have grown: "\<exists>es. entities db2 = entities db @ es"
    using e f'(5) by (auto simp: get_or_create_entity_def Let_def result_simps split: option.splits)
  show ?thesis
  proof (rule that [OF inp ap _ e'(3) _ _ _ _ found found_e _ grown own])
    show "db2 = db\<lparr>entities := entities db2, facts := facts db2\<rparr>" using f'(7) f'(5) e'(7) by simp
  qed (use e' f' in simp_all)
qed

lemma tenancy_ok_cong:
  "users db' = users db \<Longrightarrow> organizations db' = organizations db \<Longrightarrow> memberships db' = memberships db \<Longrightarrow>
     tenancy_ok db' = tenancy_ok db"
  by (simp add: tenancy_ok_def)

definition store_ok :: "db \<Rightarrow> bool" where
  "store_ok db \<longleftrightarrow> tenancy_ok db \<and> ledger_inv db \<and> contradictions_ok db"

lemma planned_db_tables [simp]:
  "users (planned_db l p r db) = users db" "organizations (planned_db l p r db) = organizations db"
  "memberships (planned_db l p r db) = memberships db" "facts (planned_db l p r db) = facts db"
  "sources (planned_db l p r db) = sources db" "entities (planned_db l p r db) = entities db"
  "contradictions (planned_db l p r db) = contradictions db" "evidence_links (planned_db l p r db) = evidence_links db"
  "evidence_rows (planned_db l p r db) = evidence_rows db" "revocations (planned_db l p r db) = revocations db"
  "decisions (planned_db l p r db) = decisions db" "snapshots (planned_db l p r db) = snapshots db"
  "decision_facts (planned_db l p r db) = decision_facts db" "impacts (planned_db l p r db) = impacts db"
  "snapshot_facts (planned_db l p r db) = snapshot_facts db" "agent_clients (planned_db l p r db) = agent_clients db"
  by (simp_all add: planned_db_def closed_db_def split: option.splits)

text \<open>The rows of every fact after a committed request.\<close>

lemma record_version_rows:
  assumes inv: "ledger_inv db" and run: "record_version R t ctx cmd db = Inr (v, db')"
  obtains latest plan db1 where
    "ledger_inv db'" "fact_versions db' = fact_versions db1 @ [v]"
    "db1 = planned_db latest plan (fv_recorded_at v) db"
    "latest = (if fact_rows db (fv_fact_id v) = [] then None else Some (last (fact_rows db (fv_fact_id v))))"
    "\<forall>fid. fid \<noteq> fv_fact_id v \<longrightarrow> fact_rows db' fid = fact_rows db fid"
    "fact_rows db' (fv_fact_id v) = fact_rows db1 (fv_fact_id v) @ [v]"
    "case latest of None \<Rightarrow> True | Some l \<Rightarrow> fv_recorded_at l < fv_recorded_at v \<and>
       vp_close_previous_at plan = (if fv_valid_until l = None then Some (fv_valid_from v) else None)"
    "set (map fv_id (fact_versions db1)) = set (map fv_id (fact_versions db))" "fv_org v = ctx_org ctx"
    "latest = None \<longrightarrow> vp_close_previous_at plan = None"
proof -
  obtain ck s a e f db2 where inp: "append_inputs R ctx cmd ck s a f db2"
    and ap: "append_version t ctx cmd ck s a e f db2 = Inr (v, db')"
    and same: "fact_versions db2 = fact_versions db" "db2 = db\<lparr>entities := entities db2, facts := facts db2\<rparr>"
    by (rule record_version_steps [OF inv run]) blast
  obtain latest view plan db3 cs ls where l: "latest = latest_version_row db2 (ctx_org ctx) (f_id f)"
    and view: "latest_view latest = Inr view" and plan: "plan_new_version view (ck_window ck) = Inr plan"
    and v: "v = new_version t (ctx_org ctx) (f_id f) cmd ck s a latest plan"
    and db3: "db3 = planned_db latest plan (next_transaction_time t latest) db2"
    and ins: "insert_version db3 v = Inr (db3\<lparr>fact_versions := fact_versions db3 @ [v]\<rparr>)"
    and db': "db' = db3\<lparr>fact_versions := fact_versions db3 @ [v],
        contradictions := contradictions db2 @ cs, evidence_links := evidence_links db2 @ ls\<rparr>"
    by (rule append_version_Inr [OF inp ap]) blast
  note pc = planned_chain [OF inp l view plan, where t = t, folded v db3]
  have rows2: "fact_rows db2 fid = fact_rows db fid" for fid by (simp add: fact_rows_def same(1))
  have fid: "fv_fact_id v = f_id f" and rec: "fv_recorded_at v = next_transaction_time t latest" by (simp_all add: v)
  have lat: "latest = (if fact_rows db (fv_fact_id v) = [] then None else Some (last (fact_rows db (fv_fact_id v))))"
    using l latest_of_inputs [OF inp] rows2 fid by simp
  define db1 where "db1 = planned_db latest plan (fv_recorded_at v) db"
  have fv1: "fact_versions db1 = fact_versions db3"
    using same(1) by (simp add: db1_def db3 planned_db_def closed_db_def rec split: option.splits)
  have rows1: "fact_rows db1 fid = fact_rows db3 fid" for fid by (simp add: fact_rows_def fv1)
  have rows': "fact_rows db' fid = fact_rows db3 fid @ (if fv_fact_id v = fid then [v] else [])" for fid
    by (simp add: db' fact_rows_def)
  have ok': "ledger_ok db'"
    using insert_version_ok [OF pc(1) ins] pc(2) fid ledger_ok_cong [of db' "db3\<lparr>fact_versions := fact_versions db3 @ [v]\<rparr>"]
    by (simp add: db')
  have fixed: "end_fixed_at_creation v" by (simp add: v new_version_def Let_def end_fixed_at_creation_def split: option.split)
  have inv': "ledger_inv db'"
    unfolding ledger_inv_def
  proof (intro conjI ok' ballI)
    fix w assume w: "w \<in> set (fact_versions db')"
    show "end_fixed_at_creation (last (fact_rows db' (fv_fact_id w)))"
    proof (cases "fv_fact_id w = fv_fact_id v")
      case True
      then show ?thesis using fixed by (simp add: rows')
    next
      case False
      then have eq: "fact_rows db' (fv_fact_id w) = fact_rows db (fv_fact_id w)"
        using pc(4) [of "fv_fact_id w"] rows2 fid by (simp add: rows')
      moreover have "w \<in> set (fact_rows db' (fv_fact_id w))" using w by (simp add: fact_rows_in)
      ultimately have "w \<in> set (fact_versions db)" by (simp add: fact_rows_in)
      then show ?thesis using inv eq by (simp add: ledger_inv_def)
    qed
  qed
  have close: "case latest of None \<Rightarrow> True | Some l \<Rightarrow> fv_recorded_at l < fv_recorded_at v \<and>
       vp_close_previous_at plan = (if fv_valid_until l = None then Some (fv_valid_from v) else None)"
  proof (cases latest)
    case (Some x)
    then have "x \<in> set (fact_rows db (fv_fact_id v))" using lat last_in_set by (auto split: if_splits)
    then have "row_ok x" using ledger_row_ok [OF ledger_inv_ok [OF inv]] by (simp add: fact_rows_in)
    note lv = latest_view_row [OF this]
    show ?thesis
      using Some view plan lv plan_next(4) [of _ "ck_window ck" plan] next_transaction_time_after [of x t]
      by (auto simp: rec v)
  qed simp
  have none: "latest = None \<longrightarrow> vp_close_previous_at plan = None"
    using view plan by (auto simp: latest_view_def plan_first)
  show ?thesis
  proof (rule that [OF inv' _ db1_def lat _ _ close _ _ none])
    show "fact_versions db' = fact_versions db1 @ [v]" by (simp add: db' fv1)
    show "\<forall>x. x \<noteq> fv_fact_id v \<longrightarrow> fact_rows db' x = fact_rows db x"
      using pc(4) rows2 fid by (simp add: rows')
    show "fact_rows db' (fv_fact_id v) = fact_rows db1 (fv_fact_id v) @ [v]" by (simp add: rows' rows1)
    show "set (map fv_id (fact_versions db1)) = set (map fv_id (fact_versions db))"
      using pc(5) by (simp add: fv1 same(1))
    show "fv_org v = ctx_org ctx" by (simp add: v)
  qed
qed

text \<open>What a committed request leaves alone, and when it records.\<close>

lemma record_version_frame:
  assumes inv: "ledger_inv db" and run: "record_version R t ctx cmd db = Inr (v, db')"
  shows "revocations db' = revocations db" "snapshots db' = snapshots db" "snapshot_facts db' = snapshot_facts db"
    "decisions db' = decisions db" "decision_facts db' = decision_facts db" "impacts db' = impacts db"
    "memberships db' = memberships db" "users db' = users db" "organizations db' = organizations db"
    "sources db' = sources db" "evidence_rows db' = evidence_rows db" "agent_clients db' = agent_clients db"
    "\<exists>fs. facts db' = facts db @ fs" "t_clock t \<le> fv_recorded_at v"
    "\<exists>es. entities db' = entities db @ es" "\<exists>ls. evidence_links db' = evidence_links db @ ls"
proof -
  obtain ck s a e f db2 where inp: "append_inputs R ctx cmd ck s a f db2"
    and ap: "append_version t ctx cmd ck s a e f db2 = Inr (v, db')"
    and db2: "db2 = db\<lparr>entities := entities db2, facts := facts db2\<rparr>" and fs: "\<exists>fs. facts db2 = facts db @ fs"
    and es: "\<exists>es. entities db2 = entities db @ es"
    by (rule record_version_steps [OF inv run]) (rule that)
  obtain latest plan cs ls where v: "v = new_version t (ctx_org ctx) (f_id f) cmd ck s a latest plan"
    and db': "db' = (planned_db latest plan (next_transaction_time t latest) db2)\<lparr>fact_versions :=
        fact_versions (planned_db latest plan (next_transaction_time t latest) db2) @ [v],
        contradictions := contradictions db2 @ cs, evidence_links := evidence_links db2 @ ls\<rparr>"
    by (rule append_version_Inr [OF inp ap]) simp
  show "\<exists>fs. facts db' = facts db @ fs" "\<exists>es. entities db' = entities db @ es" using fs es by (simp_all add: db')
  show "\<exists>ls. evidence_links db' = evidence_links db @ ls" by (simp add: db', subst db2, simp)
  show "t_clock t \<le> fv_recorded_at v"
    by (simp add: v next_transaction_time_def split: option.split)
  show "revocations db' = revocations db" "snapshots db' = snapshots db" "snapshot_facts db' = snapshot_facts db"
    "decisions db' = decisions db" "decision_facts db' = decision_facts db" "impacts db' = impacts db"
    "memberships db' = memberships db" "users db' = users db" "organizations db' = organizations db"
    "sources db' = sources db" "evidence_rows db' = evidence_rows db" "agent_clients db' = agent_clients db"
    by (simp add: db', subst db2, simp)+
qed

lemma contradictions_ok_grow:
  assumes ok: "contradictions_ok db" and ids: "fv_id ` set (fact_versions db) \<subseteq> fv_id ` set (fact_versions db')"
    and db': "contradictions db' = contradictions db @ cs"
    and dist: "distinct (map c_id (contradictions db @ cs))" "distinct (map contradiction_key (contradictions db @ cs))"
    and new: "\<forall>c \<in> set cs. contradiction_of latest v c" and v: "v \<in> set (fact_versions db')"
    and latest: "\<forall>l. latest = Some l \<longrightarrow> fv_id l \<in> fv_id ` set (fact_versions db')"
  shows "contradictions_ok db'"
proof -
  have "c_left_version_id c \<in> fv_id ` set (fact_versions db') \<and> c_right_version_id c \<in> fv_id ` set (fact_versions db') \<and>
      c_left_version_id c \<noteq> c_right_version_id c" if "c \<in> set (contradictions db')" for c
  proof (cases "c \<in> set cs")
    case True
    then show ?thesis using new v latest by (auto simp: contradiction_of_def split: option.splits)
  next
    case False
    then show ?thesis using that ok ids db' by (auto simp: contradictions_ok_def)
  qed
  then show ?thesis using dist db' unfolding contradictions_ok_def by simp
qed

lemma record_version_store_ok:
  assumes st: "store_ok db" and run: "record_version R t ctx cmd db = Inr (v, db')"
  shows "store_ok db'"
proof -
  have inv: "ledger_inv db" and c: "contradictions_ok db" and ten: "tenancy_ok db"
    using st by (simp_all add: store_ok_def)
  obtain ck s a e f db2 where inp: "append_inputs R ctx cmd ck s a f db2"
    and ap: "append_version t ctx cmd ck s a e f db2 = Inr (v, db')"
    and db2: "db2 = db\<lparr>entities := entities db2, facts := facts db2\<rparr>" and fv2: "fact_versions db2 = fact_versions db"
    by (rule record_version_steps [OF inv run]) blast
  have tab: "contradictions db2 = contradictions db" "users db2 = users db" "organizations db2 = organizations db"
    "memberships db2 = memberships db" by (subst db2, simp)+
  obtain latest view plan db1 cs ls where l: "latest = latest_version_row db2 (ctx_org ctx) (f_id f)"
    and p: "latest_view latest = Inr view" "plan_new_version view (ck_window ck) = Inr plan"
    and v: "v = new_version t (ctx_org ctx) (f_id f) cmd ck s a latest plan"
    and db1: "db1 = planned_db latest plan (next_transaction_time t latest) db2"
    and db': "db' = db1\<lparr>fact_versions := fact_versions db1 @ [v],
        contradictions := contradictions db2 @ cs, evidence_links := evidence_links db2 @ ls\<rparr>"
    and cs: "\<forall>c \<in> set cs. contradiction_of latest v c \<and> c_org c = ctx_org ctx"
    and dist: "distinct (map c_id (contradictions db2)) \<and> distinct (map contradiction_key (contradictions db2)) \<longrightarrow>
       distinct (map c_id (contradictions db2 @ cs)) \<and> distinct (map contradiction_key (contradictions db2 @ cs))"
    by (rule append_version_Inr [OF inp ap]) blast
  have ids: "set (map fv_id (fact_versions db1)) = set (map fv_id (fact_versions db2))"
    using planned_chain(5) [OF inp l p, where t = t] db1 by simp
  have old: "fv_id x \<in> fv_id ` set (fact_versions db')" if "latest = Some x" for x
  proof -
    have "x \<in> set (fact_rows db2 (f_id f))"
      using that l latest_of_inputs [OF inp] last_in_set by (auto split: if_splits)
    then have "fv_id x \<in> set (map fv_id (fact_versions db2))" by (simp add: fact_rows_in)
    then show ?thesis using ids by (auto simp: db')
  qed
  have "contradictions_ok db'"
  proof (rule contradictions_ok_grow [OF c, of db' cs latest v])
    show "fv_id ` set (fact_versions db) \<subseteq> fv_id ` set (fact_versions db')"
      using ids fv2 by (auto simp: db')
  qed (use cs dist c tab old in \<open>auto simp: db' contradictions_ok_def\<close>)
  moreover have "tenancy_ok db'" using ten tenancy_ok_cong [of db' db] tab by (simp add: db' db1)
  moreover have "ledger_inv db'" by (rule record_version_rows [OF inv run])
  ultimately show ?thesis by (simp add: store_ok_def)
qed

section \<open>Which errors a request can raise\<close>

named_theorems no_integrity \<open>steps that never violate a database constraint\<close>

lemma check_command_no_integrity [no_integrity]: "check_command R cmd \<noteq> Inl (IntegrityError m)"
proof -
  have "require_aware d f \<noteq> Inl (IntegrityError m)" for d f
    by (simp add: require_aware_def split: pydatetime.split)
  moreover have "mk_window a b \<noteq> Inl (IntegrityError m)" for a b
    using calculation by (auto simp: mk_window_def result_simps split: option.splits)
  moreover have "validate_fact_value R w \<noteq> Inl (IntegrityError m)" for w
    by (auto simp: validate_fact_value_def result_simps)
  moreover have "normalize_confidence d \<noteq> Inl (IntegrityError m)" for d
    by (auto simp: normalize_confidence_def result_simps split: decimal.splits)
  ultimately show ?thesis
    by (auto simp: check_command_def normalizer_defs result_simps)
qed

lemma require_permission_no_integrity [no_integrity]: "require_permission db ctx p \<noteq> Inl (IntegrityError m)"
  by (auto simp: require_permission_def result_simps)

lemma validate_authority_no_integrity [no_integrity]: "validate_authority a \<noteq> Inl (IntegrityError m)"
  by (auto simp: validate_authority_def result_simps split: pyint.splits)

lemma plan_no_integrity [no_integrity]: "plan_new_version l w \<noteq> Inl (IntegrityError m)"
  by (auto simp: plan_new_version_def result_simps split: option.splits)

lemma permitted_org_exists:
  assumes "tenancy_ok db" and "require_permission db ctx p = Inr r"
  shows "ctx_org ctx \<in> o_id ` set (organizations db)"
proof -
  obtain m where "get_membership db (ctx_org ctx) (ctx_user ctx) = Some m"
    using assms(2) by (auto simp: require_permission_Inr active_membership_Some)
  note m = get_membership_SomeD [OF this]
  have "m_org m \<in> o_id ` set (organizations db)" using assms(1) m(1) by (simp add: tenancy_ok_def)
  then show ?thesis using m(2) by simp
qed

lemma append_version_no_integrity:
  assumes inp: "append_inputs R ctx cmd ck s a f db" and c: "contradictions_ok db"
    and fresh: "t_ids t 2 \<notin> fv_id ` set (fact_versions db)" "t_ids t 3 \<notin> c_id ` set (contradictions db)"
    and e: "e \<in> set (entities db)" "en_org e = ctx_org ctx"
  shows "append_version t ctx cmd ck s a e f db \<noteq> Inl (IntegrityError m)"
proof
  let ?latest = "latest_version_row db (ctx_org ctx) (f_id f)"
  assume bad: "append_version t ctx cmd ck s a e f db = Inl (IntegrityError m)"
  have f: "f \<in> set (facts db)" "f_org f = ctx_org ctx" and src: "s \<in> set (sources db)" "s_org s = ctx_org ctx"
    using inp by (auto simp: append_inputs_def)
  obtain view where view: "latest_view ?latest = Inr view"
    using latest_row(3) [OF inp] latest_view_row by (cases ?latest) (auto simp: latest_view_def)
  then obtain plan where plan: "plan_new_version view (ck_window ck) = Inr plan"
    using bad plan_no_integrity by (cases "plan_new_version view (ck_window ck)") (auto simp: append_version_def Let_def)
  define db1 where "db1 = planned_db ?latest plan (next_transaction_time t ?latest) db"
  define v where "v = new_version t (ctx_org ctx) (f_id f) cmd ck s a ?latest plan"
  note pc = planned_chain [OF inp refl view plan, where t = t, folded v_def db1_def]
  note close = close_step [OF inp refl view plan, of t, folded db1_def]
  have id1: "fv_id v \<notin> fv_id ` set (fact_versions db1)" using pc(5) fresh(1) by (simp add: v_def)
  let ?db2 = "db1\<lparr>fact_versions := fact_versions db1 @ [v]\<rparr>"
  have ins: "insert_version db1 v = Inr ?db2"
  proof (rule insert_version_success [OF pc(1) _ id1])
    show "chain_ok (fact_rows db1 (fv_fact_id v) @ [v])" using pc(2) by (simp add: v_def)
  qed (use f src in \<open>force simp: db1_def v_def\<close>)+
  have right: "fv_id v \<notin> c_right_version_id ` set (contradictions db)"
    using c fresh(1) by (auto simp: contradictions_ok_def v_def)
  obtain db3 where det: "(case ?latest of None \<Rightarrow> Inr ?db2 | Some l \<Rightarrow> detect_value_conflict t ctx (en_id e) l (rule_view l) v ?db2) = Inr db3"
  proof (cases ?latest)
    case None
    then show ?thesis using that by simp
  next
    case (Some l)
    note lr = latest_row [OF inp Some]
    have "(ctx_org ctx, fv_id l) \<in> (\<lambda>v. (fv_org v, fv_id v)) ` set (fact_versions db1)"
      unfolding db1_def planned_db_keys using lr(1,2) by force
    moreover have "fv_id l \<noteq> fv_id v" using lr(1) fresh(1) by (force simp: v_def)
    moreover have "(ctx_org ctx, en_id e) \<in> (\<lambda>e. (en_org e, en_id e)) ` set (entities db)" using e by force
    ultimately have "\<exists>d. detect_value_conflict t ctx (en_id e) l (rule_view l) v ?db2 = Inr d"
      using fresh(2) right by (intro detect_value_conflict_success) (auto simp: v_def db1_def)
    then show ?thesis using Some that by auto
  qed
  have "append_version t ctx cmd ck s a e f db =
      bindr (link_evidence t ctx (fv_id v) (cmd_evidence_ids cmd) SUPPORTS db3) (\<lambda>(_, d). Inr (v, d))"
    unfolding append_version_def Let_def view bindr_simps plan close v_def [symmetric] ins det ..
  then have "bindr (link_evidence t ctx (fv_id v) (cmd_evidence_ids cmd) SUPPORTS db3) (\<lambda>(_, d). Inr (v, d)) =
      Inl (IntegrityError m)" using bad by simp
  then show False using link_evidence_no_integrity by (auto simp: result_simps)
qed

lemma get_or_create_entity_success:
  assumes ck: "check_command R cmd = Inr ck" and org: "org \<in> o_id ` set (organizations db)"
    and id: "t_ids t n \<notin> en_id ` set (entities db)"
  shows "\<exists>r. get_or_create_entity t n org (ck_entity_type ck) (ck_external_id ck) db = Inr r"
  using check_command_Inr [OF ck] org id
  by (auto simp: get_or_create_entity_def Let_def entity_checks_def Suc_le_eq split: option.split)

lemma get_or_create_fact_success:
  assumes ck: "check_command R cmd = Inr ck" and e: "e \<in> set (entities db)" "en_org e = org"
    and id: "t_ids t n \<notin> f_id ` set (facts db)"
  shows "\<exists>r. get_or_create_fact t n org (en_id e) (ck_property ck) db = Inr r"
proof -
  have "(org, en_id e) \<in> (\<lambda>e. (en_org e, en_id e)) ` set (entities db)" using e by force
  then show ?thesis
    using check_command_Inr [OF ck] id
    by (auto simp: get_or_create_fact_def Let_def fact_checks_def split: option.split)
qed

lemma record_version_no_integrity:
  assumes st: "store_ok db" and fresh: "fresh_ids db (t_ids t)"
  shows "record_version R t ctx cmd db \<noteq> Inl (IntegrityError m)"
proof
  assume bad: "record_version R t ctx cmd db = Inl (IntegrityError m)"
  have inv: "ledger_inv db" and c: "contradictions_ok db" and ten: "tenancy_ok db"
    using st by (simp_all add: store_ok_def)
  obtain ck r s a where ck: "check_command R cmd = Inr ck" and perm: "require_permission db ctx WRITE_FACTS = Inr r"
    and s: "get_source db (ctx_org ctx) (cmd_source_id cmd) = Some s"
    and a: "validate_authority (case cmd_authority cmd of None \<Rightarrow> PyInt (s_default_authority s) | Some a \<Rightarrow> a) = Inr a"
    and rest: "bindr (get_or_create_entity t 0 (ctx_org ctx) (ck_entity_type ck) (ck_external_id ck) db) (\<lambda>(e, db1).
     bindr (get_or_create_fact t 1 (ctx_org ctx) (en_id e) (ck_property ck) db1) (\<lambda>(f, db2).
     append_version t ctx cmd ck s a e f db2)) = Inl (IntegrityError m)"
    using bad no_integrity unfolding record_version_def by (auto simp: result_simps)
  obtain e db1 where e: "get_or_create_entity t 0 (ctx_org ctx) (ck_entity_type ck) (ck_external_id ck) db = Inr (e, db1)"
    using get_or_create_entity_success [OF ck permitted_org_exists [OF ten perm] fresh_idsD(4) [OF fresh]] by force
  note e' = get_or_create_entity_Inr [OF e ledger_inv_ok [OF inv]]
  have "t_ids t 1 \<notin> f_id ` set (facts db1)" using fresh_idsD(6) [OF fresh, of 1] e'(5) by simp
  then obtain f db2 where f: "get_or_create_fact t 1 (ctx_org ctx) (en_id e) (ck_property ck) db1 = Inr (f, db2)"
    using get_or_create_fact_success [OF ck e'(2,3)] by force
  note f' = get_or_create_fact_Inr [OF f e'(1)]
  have "contradictions db1 = contradictions db" "contradictions db2 = contradictions db1"
    by (subst e'(7), simp) (subst f'(7), simp)
  then have same: "fact_versions db2 = fact_versions db" "contradictions db2 = contradictions db"
    using f'(4) e'(4) by simp_all
  have inp: "append_inputs R ctx cmd ck s a f db2"
    using ledger_inv_cong [OF f'(1) same(1) inv] f'(2,3) get_source_SomeD [OF s] f'(6) e'(6) ck
      validate_authority_range [OF a] by (simp add: append_inputs_def)
  have "contradictions_ok db2" using c same by (simp add: contradictions_ok_def)
  then have "append_version t ctx cmd ck s a e f db2 \<noteq> Inl (IntegrityError m)"
    using append_version_no_integrity [OF inp] fresh_idsD(7,10) [OF fresh] same e'(2,3) f'(5) by simp
  then show False using rest e f by simp
qed

section \<open>Properties\<close>

lemma chain_numbers:
  "chain_ok vs \<Longrightarrow> map fv_version vs = map int [1..<Suc (length vs)]"
proof (induction vs rule: rev_induct)
  case (snoc v vs)
  have "chain_ok vs" using snoc.prems by (auto simp: chain_ok_def successively_append_iff hd_append split: if_splits)
  note IH = snoc.IH [OF this]
  show ?case
  proof (cases vs rule: rev_cases)
    case Nil
    then show ?thesis using snoc.prems by (simp add: chain_ok_def)
  next
    case (snoc us p)
    then have "fv_version v = fv_version p + 1"
      using snoc.prems by (auto simp: chain_ok_def successively_append_iff chain_link_def)
    moreover have "fv_version p = int (length vs)" using IH snoc by simp
    ultimately show ?thesis using IH by simp
  qed
qed simp

lemma ledger_no_overlap:
  assumes ok: "ledger_ok db" and x: "x \<in> set (fact_versions db)" and y: "y \<in> set (fact_versions db)" and ne: "x \<noteq> y"
  shows "\<not> versions_overlap x y"
proof
  assume ov: "versions_overlap x y"
  let ?rows = "fact_rows db (fv_fact_id x)"
  have "x \<in> set ?rows" "y \<in> set ?rows" using x y ov by (auto simp: fact_rows_in versions_overlap_def)
  moreover have "sorted_wrt precedes ?rows" by (rule chain_ok_precedes [OF ledger_chain [OF ok]])
  ultimately have "precedes x y \<or> precedes y x"
    using ne by (auto dest: sorted_wrt_either)
  then show False
    using ov precedes_no_overlap [of x y] precedes_no_overlap [of y x]
    by (auto simp: versions_overlap_def ranges_overlap_def)
qed

text \<open>A command for the witnesses, and the same property stated again later by another source.\<close>

definition sample_command :: record_command where
  "sample_command = \<lparr>cmd_entity_type = '' Customer'', cmd_external_id = ''customer-991'',
     cmd_property = ''credit_limit'', cmd_value = PInt 5000, cmd_source_id = 600, cmd_valid_from = Aware 10,
     cmd_valid_until = None, cmd_observed_at = Some (Aware 40), cmd_authority = None, cmd_confidence = DFinite 1,
     cmd_privacy_scope = INTERNAL, cmd_evidence_ids = []\<rparr>"

definition second_command :: record_command where
  "second_command = sample_command\<lparr>cmd_value := PInt 9000, cmd_source_id := 601, cmd_valid_from := Aware 30,
     cmd_observed_at := None, cmd_privacy_scope := CONFIDENTIAL\<rparr>"

text \<open>The database after the first command; checked below to be what the request leaves.\<close>

definition first_version :: fact_version where
  "first_version = \<lparr>fv_id = 702, fv_org = 200, fv_fact_id = 701, fv_version = 1, fv_value = PInt 5000,
     fv_source_id = 600, fv_valid_from = 10, fv_valid_until = None, fv_observed_at = 40, fv_recorded_at = 20,
     fv_valid_until_recorded_at = None, fv_supersedes_id = None, fv_authority = 90, fv_confidence = 1,
     fv_privacy_scope = INTERNAL\<rparr>"

definition one_version_db :: db where
  "one_version_db = base_db\<lparr>
     entities := [\<lparr>en_id = 700, en_org = 200, en_type = ''customer'', en_external_id = ''customer-991'',
        en_display_name = None, en_created_at = 20, en_updated_at = 20\<rparr>],
     facts := [\<lparr>f_id = 701, f_org = 200, f_entity_id = 700, f_property = ''credit_limit'',
        f_created_at = 20, f_updated_at = 20\<rparr>],
     fact_versions := [first_version]\<rparr>"

lemma base_db_ok: "store_ok base_db"
  by code_simp

lemma one_version_db_ok: "store_ok one_version_db"
  by code_simp

lemma sample_inputs:
  "normalize_identifier '' Customer'' f = Inr ''customer''" "normalize_identifier ''credit_limit'' f = Inr ''credit_limit''"
  "normalize_external_id ''customer-991'' = Inr ''customer-991''" "normalize_confidence (DFinite 1) = Inr 1"
proof -
  have "normalize_identifier '' Customer'' [] = Inr ''customer''" "normalize_identifier ''credit_limit'' [] = Inr ''credit_limit''"
    by code_simp+
  then show "normalize_identifier '' Customer'' f = Inr ''customer''" "normalize_identifier ''credit_limit'' f = Inr ''credit_limit''"
    by (blast intro: normalize_identifier_field)+
qed code_simp+

lemma small_int_value: "validate_fact_value R (PInt 5000) = Inr (PInt 5000)" "validate_fact_value R (PInt 9000) = Inr (PInt 9000)"
  by (simp_all add: validate_fact_value_def int_str_def nat_str.simps length_limits)

lemma sample_check:
  "check_command toy_runtime sample_command = Inr \<lparr>ck_entity_type = ''customer'', ck_external_id = ''customer-991'',
     ck_property = ''credit_limit'', ck_value = PInt 5000, ck_window = \<lparr>vw_from = 10, vw_until = None\<rparr>,
     ck_observed_at = 40, ck_confidence = 1\<rparr>"
  by (simp add: check_command_def sample_command_def sample_inputs small_int_value mk_window_def require_aware_def)

lemma second_check:
  "check_command toy_runtime second_command = Inr \<lparr>ck_entity_type = ''customer'', ck_external_id = ''customer-991'',
     ck_property = ''credit_limit'', ck_value = PInt 9000, ck_window = \<lparr>vw_from = 30, vw_until = None\<rparr>,
     ck_observed_at = 30, ck_confidence = 1\<rparr>"
  by (simp add: check_command_def second_command_def sample_command_def sample_inputs small_int_value mk_window_def require_aware_def)

lemma admin_may_write:
  "require_permission base_db admin_ctx WRITE_FACTS = Inr ADMIN" "require_permission one_version_db admin_ctx WRITE_FACTS = Inr ADMIN"
  by code_simp+

lemmas sample_defs = sample_command_def second_command_def sample_txn_def admin_ctx_def base_db_def empty_db_def
  sample_source_def crm_source_def one_version_db_def first_version_def

lemma sample_names: "identifier_pattern ''customer''" "identifier_pattern ''credit_limit''"
  by code_simp+

lemmas write_path_defs = record_version_def get_source_def validate_authority_def get_or_create_entity_def
  find_entity_def get_or_create_fact_def find_fact_def append_version_def latest_version_row_def versions_of_def
  latest_view_def plan_new_version_def new_version_def next_transaction_time_def insert_version_def link_evidence_def
  mk_window_def require_aware_def

lemma first_run:
  "record_version toy_runtime (sample_txn 700 20) admin_ctx sample_command base_db = Inr (first_version, one_version_db)"
  unfolding write_path_defs sample_check bindr_simps admin_may_write
  by (simp add: sample_defs Let_def entity_checks_def fact_checks_def sample_names version_checks_def version_uniques_def
      version_fks_def starts_before_end_def)

text \<open>The second command closes the first version and records a contradiction.\<close>

definition second_run :: "(fact_version \<times> db) result" where
  "second_run = record_version toy_runtime (sample_txn 800 50) admin_ctx second_command one_version_db"

lemma second_run_ok:
  obtains v db' where "second_run = Inr (v, db')" "fv_version v = 2" "fv_valid_from v = 30" "fv_recorded_at v = 50"
    "map fv_valid_until (fact_versions db') = [Some 30, None]" "length (contradictions db') = 1" "fv_fact_id v = 701"
    "map c_privacy_scope (contradictions db') = [CONFIDENTIAL]"
proof -
  have "case second_run of Inl e \<Rightarrow> False | Inr (v, db') \<Rightarrow> fv_version v = 2 \<and> fv_valid_from v = 30 \<and> fv_recorded_at v = 50 \<and>
      map fv_valid_until (fact_versions db') = [Some 30, None] \<and> length (contradictions db') = 1 \<and> fv_fact_id v = 701 \<and>
      map c_privacy_scope (contradictions db') = [CONFIDENTIAL]"
    unfolding second_run_def write_path_defs second_check bindr_simps admin_may_write
    by (simp add: sample_defs Let_def entity_checks_def fact_checks_def sample_names version_checks_def version_uniques_def
        version_fks_def starts_before_end_def close_version_def close_row_def append_only_update_def versions_overlap_def
        ranges_overlap_def detect_value_conflict_def value_conflict_def rule_view_def insert_contradiction_def
        contradiction_checks_def max_def less_eq_privacy_scope_def)
  then show ?thesis using that by (auto split: sum.splits)
qed

lemma fresh_sample: "fresh_ids one_version_db (t_ids (sample_txn 800 50))"
proof -
  have "used_ids one_version_db = {100, 200, 201, 600, 601, 700, 701, 702}"
    by (auto simp: used_ids_def sample_defs)
  then show ?thesis by (auto simp: fresh_ids_def sample_txn_def inj_def)
qed

text \<open>
  C6. Recording a version keeps the ledger well formed: from a well-formed store every
  committed request leads to a well-formed store, in which the versions of each fact are
  numbered 1, 2, 3, ... in order of insertion and no two versions of one fact are valid at
  one instant.
\<close>

theorem record_version_keeps_ledger:
  assumes "store_ok db" and "record_version R t ctx cmd db = Inr (v, db')"
  shows "store_ok db' \<and>
    (\<forall>fid. map fv_version (fact_rows db' fid) = map int [1..<Suc (length (fact_rows db' fid))]) \<and>
    (\<forall>x \<in> set (fact_versions db'). \<forall>y \<in> set (fact_versions db'). x \<noteq> y \<longrightarrow> \<not> versions_overlap x y)"
proof -
  have st: "store_ok db'" by (rule record_version_store_ok [OF assms])
  then have ok: "ledger_ok db'" by (simp add: store_ok_def ledger_inv_ok)
  then show ?thesis using st chain_numbers [OF ledger_chain [OF ok]] ledger_no_overlap [OF ok] by blast
qed

text \<open>Witness: the second command on a fact with one open version.\<close>

theorem record_version_keeps_ledger_witness:
  "\<exists>v db'. record_version toy_runtime (sample_txn 800 50) admin_ctx second_command one_version_db = Inr (v, db') \<and>
     store_ok db' \<and>
     (\<forall>fid. map fv_version (fact_rows db' fid) = map int [1..<Suc (length (fact_rows db' fid))]) \<and>
     (\<forall>x \<in> set (fact_versions db'). \<forall>y \<in> set (fact_versions db'). x \<noteq> y \<longrightarrow> \<not> versions_overlap x y)"
  using second_run_ok [unfolded second_run_def] record_version_keeps_ledger [OF one_version_db_ok] by metis

text \<open>
  C7. The write path never trips a constraint of the database: on a well-formed store and
  with fresh identifiers, no check, uniqueness, foreign-key, exclusion or append-only rule is
  violated, whatever the command, so every failure is one of the service's own errors.
\<close>

theorem record_version_no_constraint_violation:
  assumes "store_ok db" and "fresh_ids db (t_ids t)"
  shows "\<forall>m. record_version R t ctx cmd db \<noteq> Inl (IntegrityError m)"
  using record_version_no_integrity [OF assms] by blast

text \<open>Witness: the second command, with identifiers from 800 on.\<close>

theorem record_version_no_constraint_violation_witness:
  "\<forall>m. record_version toy_runtime (sample_txn 800 50) admin_ctx second_command one_version_db \<noteq> Inl (IntegrityError m)"
  by (rule record_version_no_constraint_violation [OF one_version_db_ok fresh_sample])

lemma length_fact_rows_planned: "length (fact_rows (planned_db l p r db) fid) = length (fact_rows db fid)"
proof -
  have "length (fact_rows (closed_db x i r db) fid) = length (fact_rows db fid)" for x i
    by (simp add: fact_rows_def closed_db_def filter_map_if_other close_row_def)
  then show ?thesis by (simp add: planned_db_def split: option.split)
qed

text \<open>
  C8. What a committed request does to the versions: the new version is appended to the
  chain of its fact, numbered after and superseding the latest one and recorded strictly
  later; the latest version, if it was open-ended, is closed at the start of the new one,
  at the transaction time of the request; a version with an end, every other version of the
  fact and every other fact stay as they are.
\<close>

theorem record_version_effect:
  assumes st: "store_ok db" and run: "record_version R t ctx cmd db = Inr (v, db')"
  shows "fact_rows db' (fv_fact_id v) =
      (if fact_rows db (fv_fact_id v) = [] then []
       else (let l = last (fact_rows db (fv_fact_id v)) in
          butlast (fact_rows db (fv_fact_id v)) @
            [if fv_valid_until l = None then close_row (fv_valid_from v) (fv_recorded_at v) l else l])) @ [v] \<and>
    (\<forall>fid. fid \<noteq> fv_fact_id v \<longrightarrow> fact_rows db' fid = fact_rows db fid) \<and>
    fv_version v = int (length (fact_rows db (fv_fact_id v))) + 1 \<and>
    (fact_rows db (fv_fact_id v) \<noteq> [] \<longrightarrow> fv_recorded_at (last (fact_rows db (fv_fact_id v))) < fv_recorded_at v)"
proof -
  have inv: "ledger_inv db" using st by (simp add: store_ok_def)
  let ?rows = "fact_rows db (fv_fact_id v)"
  obtain latest plan db1 where inv': "ledger_inv db'"
    and db1: "db1 = planned_db latest plan (fv_recorded_at v) db"
    and lat: "latest = (if ?rows = [] then None else Some (last ?rows))"
    and others: "\<forall>fid. fid \<noteq> fv_fact_id v \<longrightarrow> fact_rows db' fid = fact_rows db fid"
    and rows': "fact_rows db' (fv_fact_id v) = fact_rows db1 (fv_fact_id v) @ [v]"
    and close: "case latest of None \<Rightarrow> True | Some l \<Rightarrow> fv_recorded_at l < fv_recorded_at v \<and>
       vp_close_previous_at plan = (if fv_valid_until l = None then Some (fv_valid_from v) else None)"
    and none: "latest = None \<longrightarrow> vp_close_previous_at plan = None"
    by (rule record_version_rows [OF inv run]) (rule that)
  have len: "length (fact_rows db1 (fv_fact_id v)) = length ?rows"
    by (simp add: db1 length_fact_rows_planned)
  have "fv_version v = int (length ?rows) + 1"
    using chain_numbers [OF ledger_chain [OF ledger_inv_ok [OF inv'], of "fv_fact_id v"]] rows' len by simp
  moreover have "fact_rows db1 (fv_fact_id v) = (if ?rows = [] then [] else (let l = last ?rows in
      butlast ?rows @ [if fv_valid_until l = None then close_row (fv_valid_from v) (fv_recorded_at v) l else l]))"
  proof (cases ?rows rule: rev_cases)
    case Nil
    then show ?thesis using lat none by (simp add: db1 planned_db_def)
  next
    case (snoc vs l)
    then have l: "latest = Some l" using lat by simp
    have "l \<in> set ?rows" using snoc by simp
    then have fid: "fv_fact_id l = fv_fact_id v" by (simp add: fact_rows_in)
    show ?thesis
    proof (cases "fv_valid_until l")
      case None
      then have "db1 = closed_db l (fv_valid_from v) (fv_recorded_at v) db"
        using close l by (simp add: db1 planned_db_def)
      then show ?thesis
        using fact_rows_closed_db [OF ledger_inv_ok [OF inv], of l vs] snoc fid None by simp
    next
      case (Some u)
      then show ?thesis using close l snoc by (simp add: db1 planned_db_def)
    qed
  qed
  ultimately show ?thesis using rows' others close lat by (auto split: if_splits)
qed

text \<open>Witness: the first version is closed at 30 by the second, recorded at 50.\<close>

theorem record_version_effect_witness:
  "\<exists>v db'. record_version toy_runtime (sample_txn 800 50) admin_ctx second_command one_version_db = Inr (v, db') \<and>
     fact_rows db' 701 = [close_row 30 50 first_version, v] \<and> fv_version v = 2"
proof -
  have rows: "fact_rows one_version_db 701 = [first_version]" by code_simp
  have until: "fv_valid_until first_version = None" by (simp add: first_version_def)
  obtain v db' where run: "record_version toy_runtime (sample_txn 800 50) admin_ctx second_command one_version_db = Inr (v, db')"
    and v: "fv_valid_from v = 30" "fv_recorded_at v = 50" "fv_fact_id v = 701"
    by (rule second_run_ok [unfolded second_run_def]) blast
  show ?thesis using record_version_effect [OF one_version_db_ok run] run by (simp add: v rows until)
qed

end
