(* ===== verification/Temporal.thy ===== *)
theory Temporal
  imports Facts
begin

text \<open>
  Temporal resolution over the database: \<^verbatim>\<open>repositories/temporal.py\<close> and
  \<^verbatim>\<open>services/temporal.py\<close>. The SQL condition for valid at T as known at K is related to the
  reference of \<^verbatim>\<open>temporal/reference.py\<close>: on a well-formed ledger the query answers with the
  reference's version of every fact, less the versions revoked as known at K.
\<close>

section \<open>SQL conditions and queries\<close>

definition revoked_as_known :: "db \<Rightarrow> uuid \<Rightarrow> uuid \<Rightarrow> instant option \<Rightarrow> bool" where
  "revoked_as_known db org vid known_at \<longleftrightarrow> (\<exists>r \<in> set (revocations db).
     rv_org r = org \<and> rv_fact_version_id r = vid \<and>
     (case known_at of None \<Rightarrow> True | Some k \<Rightarrow> rv_revoked_at r \<le> k))"

definition not_revoked_condition :: "db \<Rightarrow> instant option \<Rightarrow> fact_version \<Rightarrow> bool" where
  "not_revoked_condition db known_at v \<longleftrightarrow> \<not> revoked_as_known db (fv_org v) (fv_id v) known_at"

text \<open>A comparison with a NULL column is not true.\<close>

definition opt_greater :: "instant option \<Rightarrow> instant \<Rightarrow> bool" where
  "opt_greater x i \<longleftrightarrow> (case x of None \<Rightarrow> False | Some u \<Rightarrow> i < u)"

definition valid_at_condition :: "db \<Rightarrow> instant \<Rightarrow> instant option \<Rightarrow> fact_version \<Rightarrow> bool" where
  "valid_at_condition db valid_at known_at v \<longleftrightarrow> (case known_at of
      None \<Rightarrow> fv_valid_from v \<le> valid_at \<and>
        (fv_valid_until v = None \<or> opt_greater (fv_valid_until v) valid_at) \<and>
        not_revoked_condition db None v
    | Some k \<Rightarrow> not_revoked_condition db (Some k) v \<and> fv_recorded_at v \<le> k \<and> fv_valid_from v \<le> valid_at \<and>
        (fv_valid_until v = None \<or> opt_greater (fv_valid_until_recorded_at v) k \<or>
         opt_greater (fv_valid_until v) valid_at))"

text \<open>The join of versions with their facts, for one entity of one organization.\<close>

definition entity_rows :: "db \<Rightarrow> uuid \<Rightarrow> uuid \<Rightarrow> (fact_version \<times> string) list" where
  "entity_rows db org eid = [(v, f_property f). v \<leftarrow> fact_versions db, f \<leftarrow> facts db,
     f_org f = fv_org v \<and> f_id f = fv_fact_id v \<and> fv_org v = org \<and> f_entity_id f = eid]"

definition facts_valid_at ::
  "db \<Rightarrow> uuid \<Rightarrow> uuid \<Rightarrow> instant \<Rightarrow> instant option \<Rightarrow> (fact_version \<times> string) list" where
  "facts_valid_at db org eid valid_at known_at =
     dedupe_on (\<lambda>(v, p). fv_fact_id v)
       (sort_key (\<lambda>(v, p). (fv_fact_id v, - fv_version v))
         (filter (\<lambda>(v, p). valid_at_condition db valid_at known_at v) (entity_rows db org eid)))"

definition entity_versions :: "db \<Rightarrow> uuid \<Rightarrow> uuid \<Rightarrow> instant option \<Rightarrow> (fact_version \<times> string) list" where
  "entity_versions db org eid known_at =
     sort_key (\<lambda>(v, p). (p, fv_version v))
       (filter (\<lambda>(v, p). case known_at of None \<Rightarrow> True | Some k \<Rightarrow> fv_recorded_at v \<le> k) (entity_rows db org eid))"

section \<open>The service\<close>

definition require_entity :: "db \<Rightarrow> uuid \<Rightarrow> string \<Rightarrow> string \<Rightarrow> entity result" where
  "require_entity db org etype ext =
     bindr (normalize_identifier etype ''entity_type'') (\<lambda>t.
     bindr (normalize_external_id ext) (\<lambda>x.
     some_or (find_entity db org t x) (NotFoundError ''entity not found'')))"

definition resolved :: "entity \<Rightarrow> string \<Rightarrow> version_snapshot \<Rightarrow> resolved_fact" where
  "resolved e p v = \<lparr>rf_fact_id = vs_fact_id v, rf_entity_id = en_id e, rf_entity_type = en_type e,
     rf_external_id = en_external_id e, rf_property = p, rf_version = v\<rparr>"

text \<open>\<open>clock\<close> is the service's UTC clock, an aware datetime.\<close>

definition facts_at ::
  "db \<Rightarrow> tenant_context \<Rightarrow> instant \<Rightarrow> string \<Rightarrow> string \<Rightarrow> pydatetime option \<Rightarrow> pydatetime option \<Rightarrow> resolved_fact list result" where
  "facts_at db ctx clock etype ext valid_at known_at =
     bindr (require_aware (case valid_at of Some d \<Rightarrow> d | None \<Rightarrow> Aware clock) ''valid_at'') (\<lambda>instant.
     bindr (aware_opt known_at ''known_at'') (\<lambda>k.
     bindr (require_permission db ctx READ_FACTS) (\<lambda>_.
     bindr (require_entity db (ctx_org ctx) etype ext) (\<lambda>entity.
     Inr (sort_key rf_property
       (map (\<lambda>(v, p). resolved entity p (as_known (to_snapshot v) k))
         (facts_valid_at db (ctx_org ctx) (en_id entity) instant k)))))))"

definition history :: "db \<Rightarrow> tenant_context \<Rightarrow> uuid \<Rightarrow> pydatetime option \<Rightarrow> version_snapshot list result" where
  "history db ctx fid known_at =
     bindr (require_permission db ctx READ_FACTS) (\<lambda>_.
     bindr (some_or (get_fact_row db (ctx_org ctx) fid) (NotFoundError ''fact not found'')) (\<lambda>_.
     history_as_known (map to_snapshot (list_version_rows db (ctx_org ctx) fid)) known_at))"

text \<open>The rows grouped by fact, in the order the facts first appear.\<close>

definition group_by_fact :: "(fact_version \<times> string) list \<Rightarrow> (uuid \<times> string \<times> version_snapshot list) list" where
  "group_by_fact rows = map (\<lambda>(v, p). (fv_fact_id v, p,
      map (\<lambda>(w, q). to_snapshot w) (filter (\<lambda>(w, q). fv_fact_id w = fv_fact_id v) rows)))
     (dedupe_on (\<lambda>(v, p). fv_fact_id v) rows)"

definition change_of_group ::
  "pydatetime \<Rightarrow> pydatetime \<Rightarrow> pydatetime option \<Rightarrow> (uuid \<times> string \<times> version_snapshot list) \<Rightarrow> fact_change option result" where
  "change_of_group start finish known_at = (\<lambda>(fid, p, versions).
     bindr (change_between versions start finish known_at) (\<lambda>change.
     Inr (map_option (\<lambda>(before, after, transitions). \<lparr>fc_fact_id = fid, fc_property = p, fc_before = before,
        fc_after = after, fc_transitions = transitions\<rparr>) change)))"

definition changes_between ::
  "db \<Rightarrow> tenant_context \<Rightarrow> string \<Rightarrow> string \<Rightarrow> pydatetime \<Rightarrow> pydatetime \<Rightarrow> pydatetime option \<Rightarrow> fact_change list result" where
  "changes_between db ctx etype ext start finish known_at =
     bindr (require_aware start ''start'') (\<lambda>s.
     bindr (require_aware finish ''end'') (\<lambda>e.
     bindr (requirer (\<not> e \<le> s) (ValidationFailedError ''end must be later than start'')) (\<lambda>_.
     bindr (aware_opt known_at ''known_at'') (\<lambda>k.
     bindr (require_permission db ctx READ_FACTS) (\<lambda>_.
     bindr (require_entity db (ctx_org ctx) etype ext) (\<lambda>entity.
     bindr (mapr (change_of_group start finish known_at)
         (group_by_fact (entity_versions db (ctx_org ctx) (en_id entity) k))) (\<lambda>changes.
     Inr (sort_key fc_property (List.map_filter id changes)))))))))"

definition read_lineage :: "db \<Rightarrow> tenant_context \<Rightarrow> uuid \<Rightarrow> lineage result" where
  "read_lineage db ctx vid =
     bindr (require_permission db ctx READ_FACTS) (\<lambda>_.
     bindr (some_or (get_version_row db (ctx_org ctx) vid) (NotFoundError ''fact version not found'')) (\<lambda>target.
     let chain = map to_snapshot (list_version_rows db (ctx_org ctx) (fv_fact_id target)) in
     bindr (some_or (find (\<lambda>v. vs_id v = vid) chain) (PyError ''StopIteration'')) (\<lambda>current.
     Inr \<lparr>li_version = current, li_ancestors = filter (\<lambda>v. vs_version v < vs_version current) chain,
        li_descendants = filter (\<lambda>v. vs_version current < vs_version v) chain\<rparr>)))"

definition entity_timeline ::
  "db \<Rightarrow> tenant_context \<Rightarrow> string \<Rightarrow> string \<Rightarrow> pydatetime option \<Rightarrow> timeline_entry list result" where
  "entity_timeline db ctx etype ext known_at =
     bindr (aware_opt known_at ''known_at'') (\<lambda>k.
     bindr (require_permission db ctx READ_FACTS) (\<lambda>_.
     bindr (require_entity db (ctx_org ctx) etype ext) (\<lambda>entity.
     Inr (sort_key (\<lambda>e. (vs_valid_from (te_version e), te_property e, vs_version (te_version e)))
       (map (\<lambda>(v, p). \<lparr>te_property = p, te_version = as_known (to_snapshot v) k\<rparr>)
         (entity_versions db (ctx_org ctx) (en_id entity) k))))))"

section \<open>The condition and the reference\<close>

lemma to_snapshot_fields [simp]:
  "vs_id (to_snapshot v) = fv_id v" "vs_fact_id (to_snapshot v) = fv_fact_id v"
  "vs_version (to_snapshot v) = fv_version v" "vs_recorded_at (to_snapshot v) = fv_recorded_at v"
  "vs_valid_from (to_snapshot v) = fv_valid_from v" "vs_valid_until (to_snapshot v) = fv_valid_until v"
  "vs_valid_until_recorded_at (to_snapshot v) = fv_valid_until_recorded_at v"
  "vs_privacy_scope (to_snapshot v) = fv_privacy_scope v"
  by (simp_all add: to_snapshot_def)

text \<open>On a row that satisfies its checks the SQL condition is the reference's.\<close>

lemma valid_at_condition_answers:
  assumes "row_ok v"
  shows "valid_at_condition db t k v \<longleftrightarrow> answers t k (to_snapshot v) \<and> not_revoked_condition db k v"
  using assms
  by (auto simp: valid_at_condition_def answers_def is_known_def is_valid_at_def as_known_def opt_greater_def
      row_ok_def version_checks_def split: option.splits)

lemma entity_rows_in:
  "(v, p) \<in> set (entity_rows db org eid) \<longleftrightarrow> v \<in> set (fact_versions db) \<and> fv_org v = org \<and>
     (\<exists>f \<in> set (facts db). f_org f = org \<and> f_id f = fv_fact_id v \<and> f_entity_id f = eid \<and> f_property f = p)"
  by (auto simp: entity_rows_def)

section \<open>The query answers with the reference\<close>

text \<open>
  The abstract answer: for every fact of the entity ask the reference, and leave out a
  version that had been revoked as known.
\<close>

definition reference_fact :: "db \<Rightarrow> entity \<Rightarrow> instant \<Rightarrow> instant option \<Rightarrow> fact \<Rightarrow> resolved_fact list" where
  "reference_fact db e t k f =
     (case resolve (map to_snapshot (list_version_rows db (f_org f) (f_id f))) (Aware t) (map_option Aware k) of
        Inr (Some w) \<Rightarrow> if revoked_as_known db (f_org f) (vs_id w) k then [] else [resolved e (f_property f) w]
      | _ \<Rightarrow> [])"

definition reference_facts :: "db \<Rightarrow> entity \<Rightarrow> instant \<Rightarrow> instant option \<Rightarrow> resolved_fact list" where
  "reference_facts db e t k = concat (map (reference_fact db e t k)
     (filter (\<lambda>f. f_org f = en_org e \<and> f_entity_id f = en_id e) (facts db)))"

lemma reference_fact_in:
  assumes ok: "ledger_ok db" and f: "f \<in> set (facts db)"
  shows "x \<in> set (reference_fact db e t k f) \<longleftrightarrow>
    (\<exists>v \<in> set (fact_rows db (f_id f)). valid_at_condition db t k v \<and> x = resolved e (f_property f) (as_known (to_snapshot v) k))"
proof -
  let ?vs = "map to_snapshot (fact_rows db (f_id f))"
  have h: "history_ok ?vs" by (rule chain_history_ok [OF ledger_chain [OF ok]])
  have cond: "valid_at_condition db t k v \<longleftrightarrow> answers t k (to_snapshot v) \<and> \<not> revoked_as_known db (f_org f) (fv_id v) k"
    if "v \<in> set (fact_rows db (f_id f))" for v
  proof -
    have v: "v \<in> set (fact_versions db)" "f_id f = fv_fact_id v" using that by (auto simp: fact_rows_in)
    show ?thesis
      using valid_at_condition_answers [OF ledger_row_ok [OF ok v(1)]] ledger_version_org [OF ok v(1) f v(2)]
      by (simp add: not_revoked_condition_def)
  qed
  have "x \<in> set (reference_fact db e t k f) \<longleftrightarrow> (\<exists>w. find (answers t k) ?vs = Some w \<and>
      \<not> revoked_as_known db (f_org f) (vs_id w) k \<and> x = resolved e (f_property f) (as_known w k))"
    using resolve_history [OF h, of t k] list_version_rows_fact [OF ok f refl refl]
    by (cases "find (answers t k) ?vs") (auto simp: reference_fact_def)
  also have "\<dots> \<longleftrightarrow> (\<exists>v \<in> set (fact_rows db (f_id f)). answers t k (to_snapshot v) \<and>
      \<not> revoked_as_known db (f_org f) (fv_id v) k \<and> x = resolved e (f_property f) (as_known (to_snapshot v) k))"
    by (auto simp: find_answers_iff [OF h])
  finally show ?thesis using cond by blast
qed

lemma valid_versions_unique:
  assumes ok: "ledger_ok db" and v: "v \<in> set (fact_versions db)" "valid_at_condition db t k v"
    and w: "w \<in> set (fact_versions db)" "valid_at_condition db t k w" and same: "fv_fact_id v = fv_fact_id w"
  shows "v = w"
proof (rule ccontr)
  assume "v \<noteq> w"
  then have "precedes v w \<or> precedes w v"
    using sorted_wrt_either [OF chain_ok_precedes [OF ledger_chain [OF ok, of "fv_fact_id v"]]] v w same
    by (auto simp: fact_rows_in)
  moreover have "answers t k (to_snapshot v)" "answers t k (to_snapshot w)"
    using v w valid_at_condition_answers ledger_row_ok [OF ok] by blast+
  ultimately show False
    using answers_exclusive unfolding to_snapshot_precedes [symmetric] by blast
qed

lemma facts_valid_at_set:
  assumes ok: "ledger_ok db"
  shows "set (facts_valid_at db org eid t k) = {(v, p) \<in> set (entity_rows db org eid). valid_at_condition db t k v}"
proof -
  have "inj_on (\<lambda>(v, p). fv_fact_id v) {(v, p) \<in> set (entity_rows db org eid). valid_at_condition db t k v}"
  proof (rule inj_onI, clarify)
    fix v p w q
    assume v: "(v, p) \<in> set (entity_rows db org eid)" "valid_at_condition db t k v"
      and w: "(w, q) \<in> set (entity_rows db org eid)" "valid_at_condition db t k w" and same: "fv_fact_id v = fv_fact_id w"
    then have "v = w" using valid_versions_unique [OF ok] by (auto simp: entity_rows_in)
    moreover have "p = q"
      using v(1) w(1) same ok distinct_map_eqD [of f_id "facts db"] by (fastforce simp: entity_rows_in ledger_ok_def ledger_keys_ok_def)
    ultimately show "v = w \<and> p = q" by simp
  qed
  then show ?thesis unfolding facts_valid_at_def by (subst set_dedupe_on) (auto simp: case_prod_beta')
qed

lemma ledger_fact_unique:
  assumes "ledger_ok db" and "f \<in> set (facts db)" and "g \<in> set (facts db)"
    and "f_org f = f_org g" and "f_entity_id f = f_entity_id g" and "f_property f = f_property g"
  shows "f = g"
  using assms distinct_map_eqD [of fact_key "facts db"] by (simp add: ledger_ok_def ledger_keys_ok_def)

lemma entity_rows_property:
  assumes ok: "ledger_ok db" and "(v, p) \<in> set (entity_rows db org eid)" and "(w, p) \<in> set (entity_rows db org eid)"
  shows "fv_fact_id v = fv_fact_id w"
  using assms ledger_fact_unique [OF ok] by (fastforce simp: entity_rows_in)

lemma facts_valid_at_properties:
  assumes ok: "ledger_ok db"
  shows "distinct (map snd (facts_valid_at db org eid t k))"
proof (rule distinct_map_via [of "\<lambda>(v, p). fv_fact_id v"])
  show "distinct (map (\<lambda>(v, p). fv_fact_id v) (facts_valid_at db org eid t k))"
    unfolding facts_valid_at_def by (rule distinct_dedupe_on)
qed (auto simp: facts_valid_at_set [OF ok] intro: entity_rows_property [OF ok])

lemma reference_fact_single: "length (reference_fact db e t k f) \<le> 1"
  by (simp add: reference_fact_def split: sum.splits option.splits)

lemma reference_fact_property: "x \<in> set (reference_fact db e t k f) \<Longrightarrow> rf_property x = f_property f"
  by (auto simp: reference_fact_def resolved_def split: sum.splits option.splits if_splits)

lemma reference_facts_properties:
  assumes ok: "ledger_ok db"
  shows "distinct (map rf_property (reference_facts db e t k))"
  unfolding reference_facts_def
proof (rule distinct_map_concat [of f_property])
  let ?fs = "filter (\<lambda>f. f_org f = en_org e \<and> f_entity_id f = en_id e) (facts db)"
  have "distinct (map f_id ?fs)" using ok by (simp add: ledger_ok_def ledger_keys_ok_def distinct_map_filter)
  then show "distinct (map f_property ?fs)"
    by (rule distinct_map_via) (auto, metis ledger_fact_unique [OF ok])
qed (auto simp: reference_fact_property intro: reference_fact_single [simplified])

lemma facts_valid_at_reference:
  assumes ok: "ledger_ok db"
  shows "(\<lambda>(v, p). resolved e p (as_known (to_snapshot v) k)) ` set (facts_valid_at db (en_org e) (en_id e) t k) =
    set (reference_facts db e t k)" (is "?l = ?r")
proof (rule set_eqI)
  fix x
  have "x \<in> ?r \<longleftrightarrow> (\<exists>f \<in> set (facts db). f_org f = en_org e \<and> f_entity_id f = en_id e \<and>
      (\<exists>v \<in> set (fact_rows db (f_id f)). valid_at_condition db t k v \<and> x = resolved e (f_property f) (as_known (to_snapshot v) k)))"
    using reference_fact_in [OF ok] by (auto simp: reference_facts_def)
  also have "\<dots> \<longleftrightarrow> x \<in> ?l"
    using ledger_version_org [OF ok] by (fastforce simp: facts_valid_at_set [OF ok] entity_rows_in fact_rows_in image_iff)
  finally show "x \<in> ?l \<longleftrightarrow> x \<in> ?r" by blast
qed

lemma require_entity_org: "require_entity db org etype ext = Inr e \<Longrightarrow> en_org e = org"
  by (auto simp: require_entity_def find_entity_def result_simps dest!: find_SomeD)

lemma facts_at_reference:
  assumes ok: "ledger_ok db"
  shows "facts_at db ctx clock etype ext (Some (Aware t)) (map_option Aware k) =
    bindr (require_permission db ctx READ_FACTS) (\<lambda>_.
    bindr (require_entity db (ctx_org ctx) etype ext) (\<lambda>e.
    Inr (sort_key rf_property (reference_facts db e t k))))"
proof -
  have "sort_key rf_property (map (\<lambda>(v, p). resolved e p (as_known (to_snapshot v) k)) (facts_valid_at db (en_org e) (en_id e) t k)) =
      sort_key rf_property (reference_facts db e t k)" for e
  proof (rule sort_key_cong_set)
    show "distinct (map rf_property (map (\<lambda>(v, p). resolved e p (as_known (to_snapshot v) k)) (facts_valid_at db (en_org e) (en_id e) t k)))"
      using facts_valid_at_properties [OF ok] by (simp add: o_def case_prod_beta' resolved_def)
  qed (simp_all add: reference_facts_properties [OF ok] facts_valid_at_reference [OF ok])
  moreover have "aware_opt (map_option Aware k) ''known_at'' = Inr k"
    by (cases k) (simp_all add: aware_opt_def require_aware_def)
  ultimately show ?thesis
    using require_entity_org [of db "ctx_org ctx" etype ext]
    by (cases "require_entity db (ctx_org ctx) etype ext") (simp_all add: facts_at_def require_aware_def, metis)
qed

text \<open>
  C11. The SQL of \<^verbatim>\<open>facts_valid_at\<close> implements the reference: on a well-formed ledger, and for
  every pair of instants, \<^verbatim>\<open>facts_at\<close> answers (errors included) exactly as the abstract
  specification does that asks \<^verbatim>\<open>reference.resolve\<close> for each fact of the entity and leaves out
  the versions revoked as known, one answer per property in the order of the properties.
\<close>

theorem facts_at_refines_reference:
  assumes ok: "ledger_ok db"
  shows "facts_at db ctx clock etype ext (Some (Aware t)) (map_option Aware k) =
    bindr (require_permission db ctx READ_FACTS) (\<lambda>_.
    bindr (require_entity db (ctx_org ctx) etype ext) (\<lambda>e.
    Inr (sort_key rf_property (reference_facts db e t k))))"
  by (rule facts_at_reference [OF ok])

text \<open>Witness: the recorded credit limit is answered on the instant 15 as known at 20.\<close>

theorem facts_at_refines_reference_witness:
  "\<exists>rs. facts_at one_version_db admin_ctx 90 ''customer'' ''customer-991'' (Some (Aware 15)) (map_option Aware (Some 20)) = Inr rs \<and>
     map (\<lambda>r. (rf_property r, vs_value (rf_version r))) rs = [(''credit_limit'', PInt 5000)]"
proof -
  have "ledger_ok one_version_db" using one_version_db_ok by (simp add: store_ok_def ledger_inv_ok)
  note eq = facts_at_refines_reference [OF this, of admin_ctx 90 "''customer''" "''customer-991''" 15 "Some 20"]
  have "case bindr (require_permission one_version_db admin_ctx READ_FACTS) (\<lambda>_.
      bindr (require_entity one_version_db (ctx_org admin_ctx) ''customer'' ''customer-991'') (\<lambda>e.
      Inr (sort_key rf_property (reference_facts one_version_db e 15 (Some 20))))) of
      Inl e \<Rightarrow> False
    | Inr rs \<Rightarrow> map (\<lambda>r. (rf_property r, vs_value (rf_version r))) rs = [(''credit_limit'', PInt 5000)]"
    by code_simp
  then show ?thesis unfolding eq by (auto split: sum.splits)
qed

section \<open>Lineage\<close>

lemma sorted_wrt_split_key:
  fixes k :: "'a \<Rightarrow> int"
  assumes "sorted_wrt (\<lambda>x y. k x < k y) xs" and "x \<in> set xs"
  shows "filter (\<lambda>y. k y < k x) xs @ x # filter (\<lambda>y. k x < k y) xs = xs"
proof -
  obtain as bs where xs: "xs = as @ x # bs" using assms(2) by (meson split_list)
  have "\<forall>y \<in> set as. k y < k x" "\<forall>y \<in> set bs. k x < k y" using assms(1) by (auto simp: xs sorted_wrt_append)
  then have "filter (\<lambda>y. k y < k x) as = as" "filter (\<lambda>y. k x < k y) as = []"
      "filter (\<lambda>y. k y < k x) bs = []" "filter (\<lambda>y. k x < k y) bs = bs"
    by (force simp: filter_id_conv filter_empty_conv)+
  then show ?thesis by (simp add: xs)
qed

lemma numbers_consecutive:
  assumes "map int [1..<Suc n] = as @ a # b # bs"
  shows "b = a + 1"
proof -
  have "length (map int [1..<Suc n]) = length (as @ a # b # bs)" by (simp only: assms)
  then have n: "n = length as + Suc (Suc (length bs))" by (simp del: upt_Suc)
  have "map int [1..<Suc n] ! length as = a" "map int [1..<Suc n] ! Suc (length as) = b"
    by (simp_all only: assms) (simp_all add: nth_append)
  then show ?thesis by (simp add: n del: upt_Suc)
qed

text \<open>
  C12. The lineage of a version splits the chain of its fact: for a caller with the read
  permission, and a version of the caller's organization, it always answers (the search for
  the version in its own chain cannot fail), the ancestors followed by the version and its
  descendants are the whole history of the fact in order, and the version is superseded by
  its direct successor in the chain.
\<close>

theorem read_lineage_splits_chain:
  assumes ok: "ledger_ok db" and may: "require_permission db ctx READ_FACTS = Inr role"
    and v: "v \<in> set (fact_versions db)" "fv_org v = ctx_org ctx"
  shows "\<exists>l. read_lineage db ctx (fv_id v) = Inr l \<and> li_version l = to_snapshot v \<and>
    li_ancestors l @ [li_version l] @ li_descendants l = map to_snapshot (fact_rows db (fv_fact_id v)) \<and>
    (\<forall>w. superseded_by l = Some w \<longrightarrow> vs_version w = fv_version v + 1)"
proof -
  let ?chain = "map to_snapshot (fact_rows db (fv_fact_id v))"
  let ?l = "\<lparr>li_version = to_snapshot v, li_ancestors = filter (\<lambda>w. vs_version w < fv_version v) ?chain,
     li_descendants = filter (\<lambda>w. fv_version v < vs_version w) ?chain\<rparr>"
  have h: "history_ok ?chain" by (rule chain_history_ok [OF ledger_chain [OF ok]])
  have inc: "to_snapshot v \<in> set ?chain" using v by (simp add: fact_rows_in)
  have dist: "distinct (map fv_id (fact_versions db))" using ok by (simp add: ledger_ok_def)
  then have get: "get_version_row db (ctx_org ctx) (fv_id v) = Some v"
    using v unfolding get_version_row_def by (intro find_unique [of fv_id]) auto
  have "distinct (map vs_id ?chain)" using dist by (simp add: o_def fact_rows_def distinct_map_filter)
  then have cur: "find (\<lambda>w. vs_id w = fv_id v) ?chain = Some (to_snapshot v)"
    using inc by (intro find_unique [of vs_id]) auto
  obtain f where f: "f \<in> set (facts db)" "f_org f = fv_org v" "f_id f = fv_fact_id v"
    using ok v(1) by (auto simp: ledger_ok_def version_fks_def)
  have run: "read_lineage db ctx (fv_id v) = Inr ?l"
    using cur list_version_rows_fact [OF ok f(1)] f v(2) by (simp add: read_lineage_def may get Let_def)
  have sw: "sorted_wrt (\<lambda>x y. vs_version x < vs_version y) ?chain"
    using h by (rule sorted_wrt_mono_rel [rotated]) (simp add: sn_precedes_def)
  have split: "li_ancestors ?l @ [li_version ?l] @ li_descendants ?l = ?chain"
    using sorted_wrt_split_key [OF sw inc] by simp
  have "vs_version w = fv_version v + 1" if w: "superseded_by ?l = Some w" for w
  proof -
    obtain ds where "li_descendants ?l = w # ds" using w by (auto simp: superseded_by_def split: list.splits)
    then have "?chain = li_ancestors ?l @ to_snapshot v # w # ds" using split by simp
    moreover have "map vs_version ?chain = map int [1..<Suc (length ?chain)]"
      using chain_numbers [OF ledger_chain [OF ok, of "fv_fact_id v"]] by (simp add: o_def)
    ultimately have "map int [1..<Suc (length ?chain)] = map vs_version (li_ancestors ?l) @ fv_version v # vs_version w # map vs_version ds"
      by (metis list.simps(9) map_append to_snapshot_fields(3))
    then show ?thesis by (rule numbers_consecutive)
  qed
  then show ?thesis using run split by (metis lineage.select_convs(1))
qed

text \<open>Witness: the only version of the sample ledger has no ancestors and no descendants.\<close>

theorem read_lineage_splits_chain_witness:
  "\<exists>l. read_lineage one_version_db admin_ctx (fv_id first_version) = Inr l \<and> li_version l = to_snapshot first_version \<and>
     li_ancestors l @ [li_version l] @ li_descendants l = [to_snapshot first_version]"
proof -
  have "ledger_ok one_version_db" using one_version_db_ok by (simp add: store_ok_def ledger_inv_ok)
  moreover have "require_permission one_version_db admin_ctx READ_FACTS = Inr ADMIN" by code_simp
  moreover have "first_version \<in> set (fact_versions one_version_db)" "fv_org first_version = ctx_org admin_ctx"
    by (simp_all add: sample_defs)
  moreover have "map to_snapshot (fact_rows one_version_db (fv_fact_id first_version)) = [to_snapshot first_version]"
    by (simp add: sample_defs fact_rows_def)
  ultimately show ?thesis using read_lineage_splits_chain [of one_version_db admin_ctx ADMIN first_version] by auto
qed

section \<open>Knowledge does not change in retrospect\<close>

text \<open>
  What the ledger held as known at \<open>k\<close>: the versions recorded by then, with an end only if
  it was recorded by then, and the revocations made by then.
\<close>

definition row_as_known :: "instant \<Rightarrow> fact_version \<Rightarrow> fact_version" where
  "row_as_known k v = (case fv_valid_until_recorded_at v of
      None \<Rightarrow> v
    | Some c \<Rightarrow> if c \<le> k then v else v\<lparr>fv_valid_until := None, fv_valid_until_recorded_at := None\<rparr>)"

definition known_versions :: "instant \<Rightarrow> db \<Rightarrow> fact_version list" where
  "known_versions k db = map (row_as_known k) (filter (\<lambda>v. fv_recorded_at v \<le> k) (fact_versions db))"

definition known_revocations :: "instant \<Rightarrow> db \<Rightarrow> fact_revocation list" where
  "known_revocations k db = filter (\<lambda>r. rv_revoked_at r \<le> k) (revocations db)"

text \<open>From \<open>db\<close> to \<open>db'\<close> facts were only added and nothing known at \<open>k\<close> was rewritten.\<close>

definition knowledge_kept :: "instant \<Rightarrow> db \<Rightarrow> db \<Rightarrow> bool" where
  "knowledge_kept k db db' \<longleftrightarrow> known_versions k db' = known_versions k db \<and>
     known_revocations k db' = known_revocations k db \<and> (\<exists>fs. facts db' = facts db @ fs)"

lemma knowledge_kept_refl: "knowledge_kept k db db"
  by (simp add: knowledge_kept_def)

lemma knowledge_kept_trans: "knowledge_kept k a b \<Longrightarrow> knowledge_kept k b c \<Longrightarrow> knowledge_kept k a c"
  by (auto simp: knowledge_kept_def)

lemma row_as_known_fields [simp]:
  "fv_id (row_as_known k v) = fv_id v" "fv_org (row_as_known k v) = fv_org v"
  "fv_fact_id (row_as_known k v) = fv_fact_id v" "fv_recorded_at (row_as_known k v) = fv_recorded_at v"
  by (simp_all add: row_as_known_def split: option.splits)

lemma to_snapshot_row_as_known: "to_snapshot (row_as_known k v) = as_known (to_snapshot v) (Some k)"
  by (simp add: row_as_known_def as_known_def to_snapshot_def split: option.splits)

lemma as_known_idem: "as_known (as_known v k) k = as_known v k"
  by (simp add: as_known_def split: option.splits)

lemma answers_row_as_known: "answers t (Some k) (to_snapshot (row_as_known k v)) = answers t (Some k) (to_snapshot v)"
  by (simp add: answers_def to_snapshot_row_as_known as_known_idem is_known_def)

text \<open>The rows of one fact as known are determined by the known versions.\<close>

lemma known_history_rows:
  assumes "ledger_ok db"
  shows "known_history (map to_snapshot (fact_rows db fid)) (Some k) =
    map to_snapshot (filter (\<lambda>v. fv_fact_id v = fid) (known_versions k db))"
proof -
  have "history_ok (map to_snapshot (fact_rows db fid))"
    by (rule chain_history_ok [OF ledger_chain [OF assms]])
  then show ?thesis
    by (simp add: known_history_ok fact_rows_def known_versions_def filter_map o_def is_known_def
        to_snapshot_row_as_known conj_commute)
qed

lemma find_known:
  assumes "history_ok vs"
  shows "map_option (\<lambda>v. as_known v k) (find (answers t k) vs) = find (\<lambda>v. is_valid_at v t) (known_history vs k)"
  using filter_valid_known [OF assms, of t k] by (simp add: find_filter_hd split: list.split)

lemma revoked_as_known_revocations:
  "revoked_as_known db org vid (Some k) \<longleftrightarrow> (\<exists>r \<in> set (known_revocations k db). rv_org r = org \<and> rv_fact_version_id r = vid)"
  by (auto simp: revoked_as_known_def known_revocations_def)

text \<open>The reference's answer for a fact depends on what was known only.\<close>

lemma reference_fact_known:
  assumes ok: "ledger_ok db" "ledger_ok db'" and kept: "knowledge_kept k db db'" and f: "f \<in> set (facts db)"
  shows "reference_fact db' e t (Some k) f = reference_fact db e t (Some k) f"
proof -
  let ?vs = "\<lambda>d. map to_snapshot (fact_rows d (f_id f))"
  have f': "f \<in> set (facts db')" using kept f by (auto simp: knowledge_kept_def)
  have h: "history_ok (?vs db)" "history_ok (?vs db')"
    by (rule chain_history_ok [OF ledger_chain [OF ok(1)]], rule chain_history_ok [OF ledger_chain [OF ok(2)]])
  have "known_history (?vs db') (Some k) = known_history (?vs db) (Some k)"
    using kept by (simp add: known_history_rows ok knowledge_kept_def)
  then have "resolve (?vs db') (Aware t) (map_option Aware (Some k)) = resolve (?vs db) (Aware t) (map_option Aware (Some k))"
    unfolding resolve_history [OF h(1)] resolve_history [OF h(2)] find_known [OF h(1)] find_known [OF h(2)] by simp
  moreover have "revoked_as_known db' org vid (Some k) = revoked_as_known db org vid (Some k)" for org vid
    using kept by (simp add: revoked_as_known_revocations knowledge_kept_def)
  ultimately show ?thesis
    using list_version_rows_fact [OF ok(1) f refl refl] list_version_rows_fact [OF ok(2) f' refl refl]
    by (simp add: reference_fact_def split: sum.split option.split)
qed

lemma reference_fact_unknown:
  assumes ok: "ledger_ok db" "ledger_ok db'" and kept: "knowledge_kept k db db'"
    and f: "f \<in> set (facts db')" "f \<notin> set (facts db)"
  shows "reference_fact db' e t (Some k) f = []"
proof (rule ccontr)
  assume "reference_fact db' e t (Some k) f \<noteq> []"
  then obtain x where "x \<in> set (reference_fact db' e t (Some k) f)" by (meson last_in_set)
  then obtain v where v: "v \<in> set (fact_rows db' (f_id f))" "valid_at_condition db' t (Some k) v"
    using reference_fact_in [OF ok(2) f(1)] by auto
  then have "row_as_known k v \<in> set (known_versions k db')"
    by (auto simp: known_versions_def fact_rows_in valid_at_condition_def)
  then have "row_as_known k v \<in> set (known_versions k db)" using kept by (simp add: knowledge_kept_def)
  then obtain w where w: "w \<in> set (fact_versions db)" "row_as_known k v = row_as_known k w"
    by (auto simp: known_versions_def)
  then have "fv_fact_id w = f_id f" using v(1) by (metis fact_rows_in row_as_known_fields(3))
  moreover obtain g where "g \<in> set (facts db)" "f_id g = fv_fact_id w"
    using ok(1) w(1) by (auto simp: ledger_ok_def version_fks_def)
  moreover have "distinct (map f_id (facts db'))" using ok(2) by (simp add: ledger_ok_def ledger_keys_ok_def)
  moreover have "set (facts db) \<subseteq> set (facts db')" using kept by (auto simp: knowledge_kept_def)
  ultimately have "g = f" using f(1) distinct_map_eqD [of f_id "facts db'" g f] by auto
  then show False using f(2) \<open>g \<in> set (facts db)\<close> by simp
qed

lemma reference_facts_known:
  assumes ok: "ledger_ok db" "ledger_ok db'" and kept: "knowledge_kept k db db'"
  shows "reference_facts db' e t (Some k) = reference_facts db e t (Some k)"
proof -
  obtain fs where fs: "facts db' = facts db @ fs" using kept by (auto simp: knowledge_kept_def)
  have "distinct (facts db')" using ok(2) by (auto simp: ledger_ok_def ledger_keys_ok_def distinct_map)
  then have "reference_fact db' e t (Some k) f = []" if "f \<in> set fs" for f
    using reference_fact_unknown [OF ok kept, of f] that by (auto simp: fs)
  then have "concat (map (reference_fact db' e t (Some k)) (filter P fs)) = []" for P by simp
  moreover have "map (reference_fact db' e t (Some k)) (filter P (facts db)) = map (reference_fact db e t (Some k)) (filter P (facts db))" for P
    using reference_fact_known [OF ok kept] by simp
  ultimately show ?thesis
    by (simp only: reference_facts_def fs filter_append map_append concat_append append_Nil2)
qed

text \<open>Recording a version after \<open>k\<close> keeps what was known at \<open>k\<close>.\<close>

lemma row_as_known_close:
  assumes "row_ok w" and "fv_valid_until w = None" and "k < r"
  shows "row_as_known k (close_row u r w) = row_as_known k w"
  using assms by (auto simp: row_as_known_def close_row_def row_ok_def version_checks_def split: option.splits)

lemma known_versions_planned:
  assumes ok: "ledger_ok db" and r: "k < r"
    and latest: "\<And>l. latest = Some l \<Longrightarrow> l \<in> set (fact_versions db) \<and> (vp_close_previous_at plan \<noteq> None \<longrightarrow> fv_valid_until l = None)"
  shows "known_versions k (planned_db latest plan r db) = known_versions k db"
proof (cases "\<exists>l i. latest = Some l \<and> vp_close_previous_at plan = Some i")
  case True
  then obtain l i where l: "latest = Some l" "vp_close_previous_at plan = Some i" by auto
  let ?f = "\<lambda>w. if fv_id w = fv_id l then close_row i r w else w"
  have "row_as_known k (?f w) = row_as_known k w" if w: "w \<in> set (fact_versions db)" for w
    using row_as_known_close [OF ledger_row_ok [OF ok w] _ r] ok latest l w distinct_map_eqD [of fv_id "fact_versions db" w l]
    by (auto simp: ledger_ok_def)
  moreover have "filter (\<lambda>v. fv_recorded_at v \<le> k) (map ?f vs) = map ?f (filter (\<lambda>v. fv_recorded_at v \<le> k) vs)" for vs
    by (rule filter_map_if_other) (simp add: close_row_def)
  ultimately show ?thesis by (simp add: known_versions_def planned_db_def closed_db_def l)
qed (auto simp: planned_db_def split: option.split)

lemma record_version_knowledge:
  assumes inv: "ledger_inv db" and run: "record_version R t ctx cmd db = Inr (v, db')" and k: "k < t_clock t"
  shows "knowledge_kept k db db'"
proof -
  note frame = record_version_frame [OF inv run]
  have r: "k < fv_recorded_at v" using frame(14) k by simp
  obtain latest plan db1 where rows: "fact_versions db' = fact_versions db1 @ [v]"
    and db1: "db1 = planned_db latest plan (fv_recorded_at v) db"
    and lat: "latest = (if fact_rows db (fv_fact_id v) = [] then None else Some (last (fact_rows db (fv_fact_id v))))"
    and close: "case latest of None \<Rightarrow> True | Some l \<Rightarrow> fv_recorded_at l < fv_recorded_at v \<and>
       vp_close_previous_at plan = (if fv_valid_until l = None then Some (fv_valid_from v) else None)"
    by (rule record_version_rows [OF inv run]) (rule that)
  have "known_versions k db1 = known_versions k db"
    unfolding db1
  proof (rule known_versions_planned [OF ledger_inv_ok [OF inv] r])
    fix l assume l: "latest = Some l"
    then have "l \<in> set (fact_rows db (fv_fact_id v))" using lat last_in_set by (auto split: if_splits)
    then show "l \<in> set (fact_versions db) \<and> (vp_close_previous_at plan \<noteq> None \<longrightarrow> fv_valid_until l = None)"
      using close l by (simp add: fact_rows_in)
  qed
  then show ?thesis using r frame(1,13) by (simp add: knowledge_kept_def known_versions_def known_revocations_def rows)
qed

end
