(* ===== verification/Retrieval_Rules.thy ===== *)
theory Retrieval_Rules
  imports Validation Schema
begin

text \<open>
  The pure rules of hybrid retrieval, \<^verbatim>\<open>domain/retrieval.py\<close>: normalisation of the question,
  the privacy scopes a caller may see, and the fusion of the two candidate lists into one
  ranking. Distances, scores and weights are exact rationals where the program has IEEE
  doubles; the order of equal scores is decided by the version id in both.
\<close>

section \<open>Rules\<close>

definition MAX_QUERY_CHARS :: nat where "MAX_QUERY_CHARS = 1000"
definition MAX_LIMIT :: int where "MAX_LIMIT = 50"
definition DEFAULT_RRF_K :: int where "DEFAULT_RRF_K = 60"
definition DEFAULT_TRUST_WEIGHT :: rat where "DEFAULT_TRUST_WEIGHT = 3 / 10"

fun ROLE_MAX_PRIVACY :: "membership_role \<Rightarrow> privacy_scope" where
  "ROLE_MAX_PRIVACY VIEWER = INTERNAL"
| "ROLE_MAX_PRIVACY ENGINEER = CONFIDENTIAL"
| "ROLE_MAX_PRIVACY ADMIN = RESTRICTED"

definition normalize_query :: "string \<Rightarrow> string result" where
  "normalize_query query = (let cleaned = strip (collapse_space query) in
     bindr (requirer (cleaned \<noteq> []) (ValidationFailedError ''query must not be empty'')) (\<lambda>_.
     bindr (requirer (length cleaned \<le> MAX_QUERY_CHARS) (ValidationFailedError ''query must be at most 1000 characters'')) (\<lambda>_.
     Inr cleaned)))"

text \<open>The loop over the ceilings; a ceiling of \<open>None\<close> does not narrow.\<close>

fun privacy_ceiling :: "nat \<Rightarrow> privacy_scope option list \<Rightarrow> nat" where
  "privacy_ceiling cap [] = cap"
| "privacy_ceiling cap (None # rest) = privacy_ceiling cap rest"
| "privacy_ceiling cap (Some requested # rest) = privacy_ceiling (min cap (privacy_index requested)) rest"

definition visible_privacy_scopes :: "membership_role \<Rightarrow> privacy_scope option list \<Rightarrow> privacy_scope list" where
  "visible_privacy_scopes role ceilings =
     take (privacy_ceiling (privacy_index (ROLE_MAX_PRIVACY role)) ceilings + 1) PRIVACY_ORDER"

definition validate_limit :: "int \<Rightarrow> int result" where
  "validate_limit limit = bindr (requirer (1 \<le> limit \<and> limit \<le> MAX_LIMIT)
     (ValidationFailedError ''limit must be between 1 and 50'')) (\<lambda>_. Inr limit)"

definition validate_trust_weight :: "rat \<Rightarrow> rat result" where
  "validate_trust_weight weight = bindr (requirer (0 \<le> weight \<and> weight \<le> 1)
     (ValidationFailedError ''trust_weight must be between 0 and 1'')) (\<lambda>_. Inr weight)"

definition candidate_pool_size :: "int \<Rightarrow> int" where
  "candidate_pool_size limit = min 200 (max 40 (limit * 4))"

definition trust_score :: "int \<Rightarrow> rat \<Rightarrow> rat" where
  "trust_score authority confidence = (of_int authority / 100) * confidence"

section \<open>Fusion\<close>

record vector_hit =
  vh_fact_version_id :: uuid
  vh_distance :: rat

record text_hit =
  th_fact_version_id :: uuid
  th_score :: rat

record ranked_candidate =
  rc_fact_version_id :: uuid
  rc_vector_rank :: "nat option"
  rc_vector_distance :: "rat option"
  rc_text_rank :: "nat option"
  rc_text_score :: "rat option"
  rc_rrf_score :: rat
  rc_trust :: rat
  rc_score :: rat

text \<open>The loop of \<^verbatim>\<open>_dedupe\<close> with its set of seen ids.\<close>

fun dedupe_hits :: "('h \<Rightarrow> uuid) \<Rightarrow> uuid list \<Rightarrow> 'h list \<Rightarrow> 'h list" where
  "dedupe_hits version_id seen [] = []"
| "dedupe_hits version_id seen (hit # hits) =
     (if version_id hit \<notin> set seen then hit # dedupe_hits version_id (version_id hit # seen) hits
      else dedupe_hits version_id seen hits)"

text \<open>The dictionary from version id to rank, from 1, and hit.\<close>

definition rank_table :: "('h \<Rightarrow> uuid) \<Rightarrow> 'h list \<Rightarrow> uuid \<Rightarrow> (nat \<times> 'h) option" where
  "rank_table version_id hits = map_of (map (\<lambda>(i, hit). (version_id hit, (i, hit))) (enumerate 1 hits))"

definition reciprocal :: "int \<Rightarrow> (nat \<times> 'h) option \<Rightarrow> rat" where
  "reciprocal rrf_k entry = (case entry of None \<Rightarrow> 0 | Some (i, _) \<Rightarrow> 1 / of_int (rrf_k + int i))"

definition fused_candidate ::
  "(uuid \<Rightarrow> (nat \<times> vector_hit) option) \<Rightarrow> (uuid \<Rightarrow> (nat \<times> text_hit) option) \<Rightarrow> (uuid \<Rightarrow> rat option) \<Rightarrow> rat \<Rightarrow> int \<Rightarrow>
     uuid \<Rightarrow> ranked_candidate" where
  "fused_candidate vector_rank text_rank trust trust_weight rrf_k vid = (let
      v = vector_rank vid; t = text_rank vid;
      rrf = reciprocal rrf_k v + reciprocal rrf_k t;
      version_trust = (case trust vid of None \<Rightarrow> 0 | Some x \<Rightarrow> x) in
     \<lparr>rc_fact_version_id = vid, rc_vector_rank = map_option fst v, rc_vector_distance = map_option (vh_distance \<circ> snd) v,
      rc_text_rank = map_option fst t, rc_text_score = map_option (th_score \<circ> snd) t, rc_rrf_score = rrf,
      rc_trust = version_trust, rc_score = rrf * ((1 - trust_weight) + trust_weight * version_trust)\<rparr>)"

definition ranked_vectors :: "vector_hit list \<Rightarrow> vector_hit list" where
  "ranked_vectors hits = dedupe_hits vh_fact_version_id [] (sort_key (\<lambda>h. (vh_distance h, vh_fact_version_id h)) hits)"

definition ranked_texts :: "text_hit list \<Rightarrow> text_hit list" where
  "ranked_texts hits = dedupe_hits th_fact_version_id [] (sort_key (\<lambda>h. (- th_score h, th_fact_version_id h)) hits)"

text \<open>
  \<^verbatim>\<open>fuse\<close>. The union of the key sets is iterated in an order Python does not specify; the
  final sort makes it irrelevant, which \<open>fused_sort\<close> below states.
\<close>

definition fuse ::
  "vector_hit list \<Rightarrow> text_hit list \<Rightarrow> (uuid \<Rightarrow> rat option) \<Rightarrow> rat \<Rightarrow> int \<Rightarrow> ranked_candidate list result" where
  "fuse vector_hits text_hits trust trust_weight rrf_k =
     bindr (validate_trust_weight trust_weight) (\<lambda>_.
     bindr (requirer (\<not> rrf_k < 1) (ValidationFailedError ''rrf_k must be positive'')) (\<lambda>_.
     let vectors = ranked_vectors vector_hits; texts = ranked_texts text_hits;
       keys = remdups (map vh_fact_version_id vectors @ map th_fact_version_id texts) in
     Inr (sort_key (\<lambda>c. (- rc_score c, rc_fact_version_id c))
       (map (fused_candidate (rank_table vh_fact_version_id vectors) (rank_table th_fact_version_id texts) trust trust_weight rrf_k) keys))))"

section \<open>Facts on the rules\<close>

lemma privacy_ceiling_le: "privacy_ceiling c xs \<le> c"
  by (induction c xs rule: privacy_ceiling.induct) auto

lemma privacy_ceiling_iff: "n \<le> privacy_ceiling c xs \<longleftrightarrow> n \<le> c \<and> (\<forall>p. Some p \<in> set xs \<longrightarrow> n \<le> privacy_index p)"
  by (induction c xs rule: privacy_ceiling.induct) auto

lemma in_take_order: "p \<in> set (take (n + 1) PRIVACY_ORDER) \<longleftrightarrow> privacy_index p \<le> n"
  by (cases p; simp add: PRIVACY_ORDER_def take_Cons'; arith)

lemma visible_iff:
  "p \<in> set (visible_privacy_scopes role ceilings) \<longleftrightarrow> p \<le> ROLE_MAX_PRIVACY role \<and> (\<forall>c. Some c \<in> set ceilings \<longrightarrow> p \<le> c)"
  by (simp add: visible_privacy_scopes_def in_take_order privacy_ceiling_iff less_eq_privacy_scope_def del: One_nat_def)

lemma dedupe_hits_filter:
  "dedupe_hits k seen hits = dedupe_on k (filter (\<lambda>h. k h \<notin> set seen) hits)"
proof (induction k seen hits rule: dedupe_hits.induct)
  case (2 k seen hit hits)
  then show ?case by (auto intro!: arg_cong [of _ _ "dedupe_on k"] filter_cong)
qed simp

lemma dedupe_hits_on [simp]: "dedupe_hits k [] hits = dedupe_on k hits"
  by (simp add: dedupe_hits_filter)

lemma sort_key_mset_cong:
  assumes "mset xs = mset ys" and "inj k"
  shows "sort_key k xs = sort_key k ys"
proof -
  have "map k (sort_key k xs) = map k (sort_key k ys)"
    using assms(1) by (metis mset_map mset_sort sorted_list_of_multiset_mset sorted_sort_key sorted_sort_id)
  then show ?thesis using assms(2) by (simp add: inj_map_eq_map)
qed

lemma vector_key_inj: "inj (\<lambda>h :: vector_hit. (vh_distance h, vh_fact_version_id h))"
  by (rule injI) (simp add: vector_hit.equality)

lemma text_key_inj: "inj (\<lambda>h :: text_hit. (- th_score h, th_fact_version_id h))"
  by (rule injI) (simp add: text_hit.equality)

lemma fused_id [simp]: "rc_fact_version_id (fused_candidate vr tr trust w k vid) = vid"
  by (simp add: fused_candidate_def Let_def)

lemma rank_table_None: "rank_table k hits i = None \<longleftrightarrow> i \<notin> k ` set hits"
proof -
  have "fst ` set (map (\<lambda>(n, h). (k h, n, h)) (enumerate m hits)) = k ` set hits" for m
    by (induction hits arbitrary: m) auto
  then show ?thesis by (simp add: rank_table_def map_of_eq_None_iff image_image split_def)
qed

lemma rank_table_Some: "rank_table k hits i = Some (n, h) \<Longrightarrow> 1 \<le> n \<and> h \<in> set hits \<and> k h = i"
  by (auto simp: rank_table_def dest!: map_of_SomeD) (auto simp: in_set_enumerate_eq)

lemma reciprocal_bounds:
  assumes "1 \<le> rrf_k"
  shows "0 \<le> reciprocal rrf_k (rank_table k hits i)" "reciprocal rrf_k (rank_table k hits i) \<le> 1 / of_int (rrf_k + 1)"
    "i \<in> k ` set hits \<Longrightarrow> 0 < reciprocal rrf_k (rank_table k hits i)"
  using assms rank_table_Some [of k hits i] rank_table_None [of k hits i]
  by (auto simp: reciprocal_def divide_simps split: option.splits)

lemma ranked_ids:
  "set (map vh_fact_version_id (ranked_vectors vs)) = vh_fact_version_id ` set vs"
  "set (map th_fact_version_id (ranked_texts ts)) = th_fact_version_id ` set ts"
  by (simp_all add: ranked_vectors_def ranked_texts_def dedupe_on_keys)

text \<open>Whatever the order in which the union of the keys is iterated, the ranking is the same.\<close>

lemma fused_sort:
  assumes "distinct ids" and "distinct ids'" and "set ids = set ids'"
  shows "sort_key (\<lambda>c. (- rc_score c, rc_fact_version_id c)) (map (fused_candidate vr tr trust w k) ids) =
    sort_key (\<lambda>c. (- rc_score c, rc_fact_version_id c)) (map (fused_candidate vr tr trust w k) ids')"
  by (rule sort_key_cong_set)
    (use assms in \<open>auto simp: distinct_map inj_on_def o_def\<close>)

lemma weight_bounds:
  fixes w :: rat
  assumes "0 \<le> w" "w \<le> 1" "0 \<le> x" "x \<le> 1"
  shows "0 \<le> (1 - w) + w * x" "(1 - w) + w * x \<le> 1"
proof -
  have "0 \<le> w * x" "w * x \<le> w" using assms by (auto intro: mult_left_le)
  then show "0 \<le> (1 - w) + w * x" "(1 - w) + w * x \<le> 1" using assms by auto
qed

lemma fused_bounds:
  assumes k: "1 \<le> rrf_k" and w: "0 \<le> w" "w \<le> 1" and tr: "\<forall>i x. trust i = Some x \<longrightarrow> 0 \<le> x \<and> x \<le> 1"
    and c: "c = fused_candidate (rank_table vh_fact_version_id vs) (rank_table th_fact_version_id ts) trust w rrf_k i"
    and i: "i \<in> vh_fact_version_id ` set vs \<union> th_fact_version_id ` set ts"
  shows "0 < rc_rrf_score c \<and> rc_rrf_score c \<le> 2 / of_int (rrf_k + 1) \<and> 0 \<le> rc_score c \<and> rc_score c \<le> rc_rrf_score c"
proof -
  let ?v = "reciprocal rrf_k (rank_table vh_fact_version_id vs i)" and ?t = "reciprocal rrf_k (rank_table th_fact_version_id ts i)"
  let ?x = "case trust i of None \<Rightarrow> 0 | Some x \<Rightarrow> x"
  have rrf: "rc_rrf_score c = ?v + ?t" and score: "rc_score c = (?v + ?t) * ((1 - w) + w * ?x)"
    by (simp_all add: c fused_candidate_def Let_def)
  note v = reciprocal_bounds [OF k, where k = vh_fact_version_id and hits = vs and i = i]
    and t = reciprocal_bounds [OF k, where k = th_fact_version_id and hits = ts and i = i]
  have pos: "0 < ?v + ?t" using i v t by (metis Un_iff add_nonneg_pos add_pos_nonneg)
  have le: "?v + ?t \<le> 2 / of_int (rrf_k + 1)" using v(2) t(2) by (simp add: field_simps)
  have x: "0 \<le> ?x" "?x \<le> 1" using tr by (auto split: option.split)
  have "0 \<le> (?v + ?t) * ((1 - w) + w * ?x)" "(?v + ?t) * ((1 - w) + w * ?x) \<le> (?v + ?t) * 1"
    using pos weight_bounds [OF w x] by (auto intro!: mult_left_mono mult_nonneg_nonneg)
  then show ?thesis using pos le rrf score by simp
qed

lemma fuse_result:
  assumes w: "0 \<le> w" "w \<le> 1" and k: "1 \<le> rrf_k" and tr: "\<forall>i x. trust i = Some x \<longrightarrow> 0 \<le> x \<and> x \<le> 1"
  shows "\<exists>cs. fuse vs ts trust w rrf_k = Inr cs \<and> distinct (map rc_fact_version_id cs) \<and>
    rc_fact_version_id ` set cs = vh_fact_version_id ` set vs \<union> th_fact_version_id ` set ts \<and>
    sorted_wrt (\<lambda>c d. rc_score d < rc_score c \<or> rc_score d = rc_score c \<and> rc_fact_version_id c < rc_fact_version_id d) cs \<and>
    (\<forall>c \<in> set cs. 0 < rc_rrf_score c \<and> rc_rrf_score c \<le> 2 / of_int (rrf_k + 1) \<and>
       0 \<le> rc_score c \<and> rc_score c \<le> rc_rrf_score c)"
proof -
  let ?V = "ranked_vectors vs" and ?T = "ranked_texts ts"
  let ?ids = "remdups (map vh_fact_version_id ?V @ map th_fact_version_id ?T)"
  let ?f = "fused_candidate (rank_table vh_fact_version_id ?V) (rank_table th_fact_version_id ?T) trust w rrf_k"
  let ?key = "\<lambda>c. (- rc_score c, rc_fact_version_id c)"
  define cs where "cs = sort_key ?key (map ?f ?ids)"
  have run: "fuse vs ts trust w rrf_k = Inr cs"
    using w k by (simp add: fuse_def validate_trust_weight_def cs_def Let_def)
  have idset: "set ?ids = vh_fact_version_id ` set ?V \<union> th_fact_version_id ` set ?T" by simp
  have ids: "set ?ids = vh_fact_version_id ` set vs \<union> th_fact_version_id ` set ts"
    unfolding idset using ranked_ids(1) [of vs] ranked_ids(2) [of ts] by simp
  have set_cs: "set cs = ?f ` set ?ids" by (simp add: cs_def)
  have "distinct (map ?key (map ?f ?ids))" by (auto simp: distinct_map inj_on_def o_def)
  then have dist: "distinct (map ?key cs)" unfolding cs_def by (simp only: distinct_map_sort_key)
  then have d: "distinct (map rc_fact_version_id cs)"
    by (rule distinct_map_via) (auto simp: set_cs)
  have "sorted (map ?key cs)" by (simp add: cs_def)
  then have "sorted_wrt (<) (map ?key cs)" using dist by (simp add: strict_sorted_iff)
  then have "sorted_wrt (\<lambda>c d. rc_score d < rc_score c \<or> rc_score d = rc_score c \<and> rc_fact_version_id c < rc_fact_version_id d) cs"
    unfolding sorted_wrt_map by (rule sorted_wrt_mono_rel [rotated]) auto
  moreover have "rc_fact_version_id ` set cs = vh_fact_version_id ` set vs \<union> th_fact_version_id ` set ts"
    by (simp add: set_cs image_image ids [symmetric] del: set_remdups)
  moreover have "0 < rc_rrf_score c \<and> rc_rrf_score c \<le> 2 / of_int (rrf_k + 1) \<and> 0 \<le> rc_score c \<and> rc_score c \<le> rc_rrf_score c"
    if "c \<in> set cs" for c
    using that fused_bounds [OF k w tr, where c = c and vs = ?V and ts = ?T] unfolding set_cs idset by blast
  ultimately show ?thesis using run d by blast
qed

section \<open>Properties\<close>

text \<open>
  C23. Which privacy scopes a caller sees: exactly those up to the maximum of the role and up
  to every given ceiling; so a further ceiling only narrows, and a scope that is visible
  makes every less sensitive scope visible.
\<close>

theorem visible_privacy_scopes_spec:
  "(p \<in> set (visible_privacy_scopes role ceilings) \<longleftrightarrow>
      p \<le> ROLE_MAX_PRIVACY role \<and> (\<forall>c. Some c \<in> set ceilings \<longrightarrow> p \<le> c)) \<and>
   set (visible_privacy_scopes role (ceilings @ further)) \<subseteq> set (visible_privacy_scopes role ceilings) \<and>
   (p \<in> set (visible_privacy_scopes role ceilings) \<longrightarrow> q \<le> p \<longrightarrow> q \<in> set (visible_privacy_scopes role ceilings))"
  by (auto simp: visible_iff)

text \<open>Witness: an administrator behind a token with the ceiling INTERNAL sees no confidential fact.\<close>

theorem visible_privacy_scopes_spec_witness:
  "CONFIDENTIAL \<notin> set (visible_privacy_scopes ADMIN [None, Some INTERNAL]) \<and>
   PUBLIC \<in> set (visible_privacy_scopes ADMIN [None, Some INTERNAL])"
proof -
  have "\<not> CONFIDENTIAL \<le> INTERNAL" by code_simp
  moreover have "PUBLIC \<le> INTERNAL" "INTERNAL \<le> ROLE_MAX_PRIVACY ADMIN" by code_simp+
  ultimately show ?thesis
    using visible_privacy_scopes_spec [of CONFIDENTIAL ADMIN "[None, Some INTERNAL]" "[]" PUBLIC]
      visible_privacy_scopes_spec [of INTERNAL ADMIN "[None, Some INTERNAL]" "[]" PUBLIC] by auto
qed

text \<open>
  C24. The fused ranking, for a weight between 0 and 1, a positive \<^verbatim>\<open>rrf_k\<close> and trust values
  between 0 and 1: it always answers, lists every version that either branch found exactly
  once and no other, best score first with ties broken by the version id, and each reciprocal
  rank score is positive and at most \<open>2 / (rrf_k + 1)\<close> with the final score between 0 and it.
\<close>

theorem fuse_spec:
  assumes w: "0 \<le> w" "w \<le> 1" and k: "1 \<le> rrf_k" and tr: "\<forall>i x. trust i = Some x \<longrightarrow> 0 \<le> x \<and> x \<le> 1"
  shows "\<exists>cs. fuse vs ts trust w rrf_k = Inr cs \<and> distinct (map rc_fact_version_id cs) \<and>
    rc_fact_version_id ` set cs = vh_fact_version_id ` set vs \<union> th_fact_version_id ` set ts \<and>
    sorted_wrt (\<lambda>c d. rc_score d < rc_score c \<or> rc_score d = rc_score c \<and> rc_fact_version_id c < rc_fact_version_id d) cs \<and>
    (\<forall>c \<in> set cs. 0 < rc_rrf_score c \<and> rc_rrf_score c \<le> 2 / of_int (rrf_k + 1) \<and>
       0 \<le> rc_score c \<and> rc_score c \<le> rc_rrf_score c)"
  by (rule fuse_result [OF assms])

definition sample_vectors :: "vector_hit list" where
  "sample_vectors = [\<lparr>vh_fact_version_id = 1, vh_distance = 1/10\<rparr>, \<lparr>vh_fact_version_id = 2, vh_distance = 2/10\<rparr>]"

definition sample_texts :: "text_hit list" where
  "sample_texts = [\<lparr>th_fact_version_id = 2, th_score = 5\<rparr>, \<lparr>th_fact_version_id = 3, th_score = 1\<rparr>]"

text \<open>Witness: the version both branches found comes first.\<close>

theorem fuse_spec_witness:
  "\<exists>cs. fuse sample_vectors sample_texts (\<lambda>_. Some 1) DEFAULT_TRUST_WEIGHT DEFAULT_RRF_K = Inr cs \<and>
     map rc_fact_version_id cs = [2, 1, 3] \<and> rc_fact_version_id ` set cs = {1, 2, 3}"
proof -
  have "case fuse sample_vectors sample_texts (\<lambda>_. Some 1) DEFAULT_TRUST_WEIGHT DEFAULT_RRF_K of
      Inl e \<Rightarrow> False | Inr cs \<Rightarrow> map rc_fact_version_id cs = [2, 1, 3]" by code_simp
  moreover have "0 \<le> DEFAULT_TRUST_WEIGHT" "DEFAULT_TRUST_WEIGHT \<le> 1" "1 \<le> DEFAULT_RRF_K"
    by (simp_all add: DEFAULT_TRUST_WEIGHT_def DEFAULT_RRF_K_def)
  moreover have "vh_fact_version_id ` set sample_vectors \<union> th_fact_version_id ` set sample_texts = {1, 2, 3}"
    by (auto simp: sample_vectors_def sample_texts_def)
  ultimately show ?thesis
    using fuse_spec [of DEFAULT_TRUST_WEIGHT DEFAULT_RRF_K "\<lambda>_. Some 1" sample_vectors sample_texts] by auto
qed

text \<open>
  C25. The ranking is deterministic: it does not depend on the order in which the database
  returns the hits of either branch.
\<close>

theorem fuse_order_independent:
  assumes "mset vs = mset vs'" and "mset ts = mset ts'"
  shows "fuse vs ts trust w k = fuse vs' ts' trust w k"
proof -
  have "ranked_vectors vs = ranked_vectors vs'" "ranked_texts ts = ranked_texts ts'"
    using sort_key_mset_cong [OF assms(1) vector_key_inj] sort_key_mset_cong [OF assms(2) text_key_inj]
    by (simp_all add: ranked_vectors_def ranked_texts_def)
  then show ?thesis by (simp add: fuse_def)
qed

text \<open>Witness: the reversed hit lists.\<close>

theorem fuse_order_independent_witness:
  "fuse sample_vectors sample_texts (\<lambda>_. Some 1) DEFAULT_TRUST_WEIGHT DEFAULT_RRF_K =
   fuse (rev sample_vectors) (rev sample_texts) (\<lambda>_. Some 1) DEFAULT_TRUST_WEIGHT DEFAULT_RRF_K"
  by (rule fuse_order_independent) simp_all

end
