(* ===== verification/Retrieval.thy ===== *)
theory Retrieval
  imports Temporal Retrieval_Rules
begin

text \<open>
  Hybrid retrieval: the tenant-bound SQL of \<^verbatim>\<open>repositories/retrieval.py\<close> and the search pipeline
  of \<^verbatim>\<open>services/retrieval.py\<close>. PostgreSQL's full-text ranking, the vector distance and index, the
  embedding provider and the result cache are code of others: they are parameters, collected
  in the records \<open>engine\<close>, \<open>provider\<close> and \<open>result_cache\<close>. Shown: whatever they answer, a
  search returns only facts of the caller's organization that are valid at the instant as
  known, in a privacy scope the caller's current role and ceilings allow and inside the
  filters; it never fails to load a winner; and with full-text search alone and room for all
  matches it finds every match.
\<close>

section \<open>What is searched\<close>

record search_document =
  sd_org :: uuid
  sd_fact_version_id :: uuid
  sd_search_vector :: string

record fact_embedding =
  emb_org :: uuid
  emb_fact_version_id :: uuid
  emb_model :: string
  emb_embedding :: "rat list"

record search_index =
  search_documents :: "search_document list"
  fact_embeddings :: "fact_embedding list"

text \<open>
  \<open>en_rank d q\<close> is the \<^verbatim>\<open>ts_rank_cd\<close> of a document that matches the question, \<open>None\<close> if it does
  not match; \<open>en_distance\<close> is the cosine distance; \<open>en_nearest n\<close> is the approximate nearest
  neighbour scan of the HNSW index with a limit, which may miss rows but returns rows of the
  filtered input only.
\<close>

record engine =
  eg_rank :: "string \<Rightarrow> string \<Rightarrow> rat option"
  eg_distance :: "rat list \<Rightarrow> rat list \<Rightarrow> rat"
  eg_nearest :: "nat \<Rightarrow> (uuid \<times> rat) list \<Rightarrow> (uuid \<times> rat) list"

definition engine_ok :: "engine \<Rightarrow> bool" where
  "engine_ok eg \<longleftrightarrow> (\<forall>n rows. set (eg_nearest eg n rows) \<subseteq> set rows)"

text \<open>The provider raises (\<open>None\<close>) or returns the vector of the question.\<close>

record provider =
  pr_model_id :: string
  pr_embed :: "string \<Rightarrow> rat list option"

section \<open>The repository\<close>

record retrieval_filters =
  fl_entity_type :: "string option"
  fl_external_ids :: "string list"
  fl_properties :: "string list"
  fl_source_ids :: "uuid list"
  fl_min_authority :: "int option"
  fl_min_confidence :: "rat option"

record hydrated_version =
  hv_version :: fact_version
  hv_property :: string
  hv_entity_type :: string
  hv_external_id :: string
  hv_source_name :: string
  hv_source_type :: source_type

definition filter_condition :: "retrieval_filters \<Rightarrow> fact_version \<Rightarrow> fact \<Rightarrow> entity \<Rightarrow> bool" where
  "filter_condition fl v f e \<longleftrightarrow>
     (case fl_entity_type fl of None \<Rightarrow> True | Some t \<Rightarrow> en_type e = t) \<and>
     (fl_external_ids fl \<noteq> [] \<longrightarrow> en_external_id e \<in> set (fl_external_ids fl)) \<and>
     (fl_properties fl \<noteq> [] \<longrightarrow> f_property f \<in> set (fl_properties fl)) \<and>
     (fl_source_ids fl \<noteq> [] \<longrightarrow> fv_source_id v \<in> set (fl_source_ids fl)) \<and>
     (case fl_min_authority fl of None \<Rightarrow> True | Some a \<Rightarrow> a \<le> fv_authority v) \<and>
     (case fl_min_confidence fl of None \<Rightarrow> True | Some c \<Rightarrow> c \<le> fv_confidence v)"

text \<open>The versions a branch may return: the join with fact and entity, with every hard filter.\<close>

definition scoped ::
  "db \<Rightarrow> uuid \<Rightarrow> instant \<Rightarrow> instant option \<Rightarrow> privacy_scope list \<Rightarrow> retrieval_filters \<Rightarrow> fact_version list" where
  "scoped db org valid_at known_at scopes fl = [v. v \<leftarrow> fact_versions db, f \<leftarrow> facts db, e \<leftarrow> entities db,
     f_org f = fv_org v \<and> f_id f = fv_fact_id v \<and> en_org e = f_org f \<and> en_id e = f_entity_id f \<and>
     fv_org v = org \<and> valid_at_condition db valid_at known_at v \<and> fv_privacy_scope v \<in> set scopes \<and>
     filter_condition fl v f e]"

definition text_rows :: "engine \<Rightarrow> search_index \<Rightarrow> string \<Rightarrow> fact_version list \<Rightarrow> (uuid \<times> rat) list" where
  "text_rows eg ix query versions = [(sd_fact_version_id d, the (eg_rank eg (sd_search_vector d) query)).
     d \<leftarrow> search_documents ix, v \<leftarrow> versions,
     fv_org v = sd_org d \<and> fv_id v = sd_fact_version_id d \<and> eg_rank eg (sd_search_vector d) query \<noteq> None]"

definition vector_rows :: "engine \<Rightarrow> search_index \<Rightarrow> string \<Rightarrow> rat list \<Rightarrow> fact_version list \<Rightarrow> (uuid \<times> rat) list" where
  "vector_rows eg ix model qv versions = [(emb_fact_version_id m, eg_distance eg (emb_embedding m) qv).
     m \<leftarrow> fact_embeddings ix, v \<leftarrow> versions,
     fv_org v = emb_org m \<and> fv_id v = emb_fact_version_id m \<and> emb_model m = model]"

definition candidates ::
  "db \<Rightarrow> engine \<Rightarrow> search_index \<Rightarrow> uuid \<Rightarrow> string \<Rightarrow> rat list option \<Rightarrow> string \<Rightarrow> instant \<Rightarrow> instant option \<Rightarrow>
     privacy_scope list \<Rightarrow> retrieval_filters \<Rightarrow> nat \<Rightarrow> vector_hit list \<times> text_hit list" where
  "candidates db eg ix org query query_vector model valid_at known_at scopes fl pool = (let
      versions = scoped db org valid_at known_at scopes fl;
      texts = take pool (sort_key (\<lambda>(i, score). (- score, i)) (text_rows eg ix query versions));
      vectors = (case query_vector of None \<Rightarrow> [] | Some qv \<Rightarrow> eg_nearest eg pool (vector_rows eg ix model qv versions)) in
     (map (\<lambda>(i, d). \<lparr>vh_fact_version_id = i, vh_distance = d\<rparr>) vectors,
      map (\<lambda>(i, s). \<lparr>th_fact_version_id = i, th_score = s\<rparr>) texts))"

definition hydrated_rows :: "db \<Rightarrow> uuid \<Rightarrow> uuid list \<Rightarrow> hydrated_version list" where
  "hydrated_rows db org ids = [\<lparr>hv_version = v, hv_property = f_property f, hv_entity_type = en_type e,
       hv_external_id = en_external_id e, hv_source_name = s_name s, hv_source_type = s_type s\<rparr>.
     v \<leftarrow> fact_versions db, f \<leftarrow> facts db, e \<leftarrow> entities db, s \<leftarrow> sources db,
     f_org f = fv_org v \<and> f_id f = fv_fact_id v \<and> en_org e = f_org f \<and> en_id e = f_entity_id f \<and>
     s_org s = fv_org v \<and> s_id s = fv_source_id v \<and> fv_org v = org \<and> fv_id v \<in> set ids]"

text \<open>The dictionary of the rows by version id; for a repeated key the last row counts.\<close>

definition hydrate :: "db \<Rightarrow> uuid \<Rightarrow> uuid list \<Rightarrow> uuid \<Rightarrow> hydrated_version option" where
  "hydrate db org ids = (if ids = [] then (\<lambda>_. None)
     else map_of (rev (map (\<lambda>h. (fv_id (hv_version h), h)) (hydrated_rows db org ids))))"

section \<open>The service\<close>

definition MAX_FILTER_VALUES :: nat where "MAX_FILTER_VALUES = 100"

record retrieval_query =
  rq_query :: string
  rq_limit :: int
  rq_valid_at :: "pydatetime option"
  rq_known_at :: "pydatetime option"
  rq_entity_type :: "string option"
  rq_external_ids :: "string list"
  rq_properties :: "string list"
  rq_source_ids :: "uuid list"
  rq_min_authority :: "int option"
  rq_min_confidence :: "decimal option"
  rq_max_privacy_scope :: "privacy_scope option"
  rq_trust_weight :: rat

record retrieved_fact =
  rt_version :: version_snapshot
  rt_entity_type :: string
  rt_external_id :: string
  rt_property :: string
  rt_source_name :: string
  rt_source_type :: source_type
  rt_ranking :: ranked_candidate

datatype vector_search_status = Used | Unavailable
datatype cache_status = Hit | Miss | Off

record retrieval_result =
  rr_query :: string
  rr_valid_at :: instant
  rr_known_at :: "instant option"
  rr_vector_search :: vector_search_status
  rr_embedding_model :: string
  rr_privacy_scopes :: "privacy_scope list"
  rr_vector_candidates :: nat
  rr_text_candidates :: nat
  rr_results :: "retrieved_fact list"
  rr_cache :: cache_status

text \<open>\<^verbatim>\<open>Decimal(str(x))\<close> and the comparison of a NaN raise InvalidOperation, which nobody catches.\<close>

definition check_min_confidence :: "decimal option \<Rightarrow> rat option result" where
  "check_min_confidence c = (case c of
      None \<Rightarrow> Inr None
    | Some (DFinite r) \<Rightarrow> bindr (requirer (0 \<le> r \<and> r \<le> 1) (ValidationFailedError ''min_confidence must be between 0 and 1''))
        (\<lambda>_. Inr (Some r))
    | Some DInfinity \<Rightarrow> Inl (ValidationFailedError ''min_confidence must be between 0 and 1'')
    | Some _ \<Rightarrow> Inl (PyError ''InvalidOperation''))"

definition at_most_values :: "'a list \<Rightarrow> string \<Rightarrow> unit result" where
  "at_most_values xs name = requirer (\<not> MAX_FILTER_VALUES < length xs) (ValidationFailedError (name @ '' accepts at most 100 values''))"

definition normalize_filters :: "retrieval_query \<Rightarrow> retrieval_filters result" where
  "normalize_filters request =
     bindr (at_most_values (rq_external_ids request) ''external_ids'') (\<lambda>_.
     bindr (at_most_values (rq_properties request) ''properties'') (\<lambda>_.
     bindr (at_most_values (rq_source_ids request) ''source_ids'') (\<lambda>_.
     bindr (requirer (case rq_min_authority request of None \<Rightarrow> True | Some a \<Rightarrow> 0 \<le> a \<and> a \<le> 100)
         (ValidationFailedError ''min_authority must be between 0 and 100'')) (\<lambda>_.
     bindr (check_min_confidence (rq_min_confidence request)) (\<lambda>min_confidence.
     bindr (case rq_entity_type request of None \<Rightarrow> Inr None
         | Some t \<Rightarrow> bindr (normalize_identifier t ''entity_type'') (\<lambda>t'. Inr (Some t'))) (\<lambda>entity_type.
     bindr (mapr normalize_external_id (rq_external_ids request)) (\<lambda>external_ids.
     bindr (mapr (\<lambda>p. normalize_identifier p ''property'') (rq_properties request)) (\<lambda>properties.
     Inr \<lparr>fl_entity_type = entity_type, fl_external_ids = sort (remdups external_ids),
        fl_properties = sort (remdups properties), fl_source_ids = sort (remdups (rq_source_ids request)),
        fl_min_authority = rq_min_authority request, fl_min_confidence = min_confidence\<rparr>))))))))"

text \<open>Everything the cache key is made of.\<close>

record cache_material =
  cm_organization_id :: uuid
  cm_generation :: int
  cm_scopes :: "privacy_scope list"
  cm_model :: string
  cm_query :: string
  cm_limit :: int
  cm_trust_weight :: rat
  cm_filters :: retrieval_filters
  cm_valid_at :: "pydatetime option"
  cm_known_at :: "instant option"

text \<open>The protocol \<^verbatim>\<open>ResultCache\<close>; \<^verbatim>\<open>put\<close> is the second component of a search's outcome.\<close>

record result_cache =
  ca_generation :: "uuid \<Rightarrow> int option"
  ca_key :: "cache_material \<Rightarrow> string"
  ca_get :: "string \<Rightarrow> retrieval_result option"

record search_request =
  sr_query :: string
  sr_limit :: int
  sr_trust_weight :: rat
  sr_filters :: retrieval_filters
  sr_valid_at :: instant
  sr_known_at :: "instant option"

definition validate_request :: "instant \<Rightarrow> retrieval_query \<Rightarrow> search_request result" where
  "validate_request clock request =
     bindr (normalize_query (rq_query request)) (\<lambda>query.
     bindr (validate_limit (rq_limit request)) (\<lambda>limit.
     bindr (validate_trust_weight (rq_trust_weight request)) (\<lambda>trust_weight.
     bindr (normalize_filters request) (\<lambda>filters.
     bindr (require_aware (case rq_valid_at request of Some d \<Rightarrow> d | None \<Rightarrow> Aware clock) ''valid_at'') (\<lambda>valid_at.
     bindr (aware_opt (rq_known_at request) ''known_at'') (\<lambda>known_at.
     Inr \<lparr>sr_query = query, sr_limit = limit, sr_trust_weight = trust_weight, sr_filters = filters,
        sr_valid_at = valid_at, sr_known_at = known_at\<rparr>))))))"

definition retrieved :: "(uuid \<Rightarrow> hydrated_version option) \<Rightarrow> instant option \<Rightarrow> ranked_candidate \<Rightarrow> retrieved_fact result" where
  "retrieved rows known_at c = bindr (some_or (rows (rc_fact_version_id c)) (PyError ''KeyError'')) (\<lambda>h.
     Inr \<lparr>rt_version = as_known (to_snapshot (hv_version h)) known_at, rt_entity_type = hv_entity_type h,
        rt_external_id = hv_external_id h, rt_property = hv_property h, rt_source_name = hv_source_name h,
        rt_source_type = hv_source_type h, rt_ranking = c\<rparr>)"

text \<open>The read-only transaction, the fusion and the result, once the question is embedded.\<close>

definition search_database ::
  "engine \<Rightarrow> search_index \<Rightarrow> db \<Rightarrow> tenant_context \<Rightarrow> retrieval_query \<Rightarrow> search_request \<Rightarrow> rat list option \<Rightarrow> string \<Rightarrow>
     cache_status \<Rightarrow> retrieval_result result" where
  "search_database eg ix db ctx request sr query_vector model status =
     bindr (require_permission db ctx READ_FACTS) (\<lambda>role. let
       pool = nat (candidate_pool_size (sr_limit sr));
       scopes = visible_privacy_scopes role [rq_max_privacy_scope request, ctx_max_privacy_scope ctx];
       (vector_hits, text_hits) = candidates db eg ix (ctx_org ctx) (sr_query sr) query_vector model
          (sr_valid_at sr) (sr_known_at sr) scopes (sr_filters sr) pool;
       ids = sort (remdups (map vh_fact_version_id vector_hits @ map th_fact_version_id text_hits));
       rows = hydrate db (ctx_org ctx) ids;
       trust = (\<lambda>i. map_option (\<lambda>h. trust_score (fv_authority (hv_version h)) (fv_confidence (hv_version h))) (rows i)) in
     bindr (fuse vector_hits text_hits trust (sr_trust_weight sr) DEFAULT_RRF_K) (\<lambda>ranked.
     bindr (mapr (retrieved rows (sr_known_at sr)) (take (nat (sr_limit sr)) ranked)) (\<lambda>results.
     Inr \<lparr>rr_query = sr_query sr, rr_valid_at = sr_valid_at sr, rr_known_at = sr_known_at sr,
        rr_vector_search = (if query_vector \<noteq> None then Used else Unavailable), rr_embedding_model = model,
        rr_privacy_scopes = filter (\<lambda>s. s \<in> set scopes) [PUBLIC, INTERNAL, CONFIDENTIAL, RESTRICTED],
        rr_vector_candidates = length vector_hits, rr_text_candidates = length text_hits,
        rr_results = results, rr_cache = status\<rparr>)))"

definition cache_key_for ::
  "result_cache option \<Rightarrow> provider \<Rightarrow> tenant_context \<Rightarrow> membership_role \<Rightarrow> retrieval_query \<Rightarrow> search_request \<Rightarrow> cache_material option" where
  "cache_key_for cache pr ctx role request sr = (case cache of None \<Rightarrow> None
    | Some ca \<Rightarrow> map_option (\<lambda>gen. \<lparr>cm_organization_id = ctx_org ctx, cm_generation = gen,
        cm_scopes = visible_privacy_scopes role [rq_max_privacy_scope request, ctx_max_privacy_scope ctx],
        cm_model = pr_model_id pr, cm_query = sr_query sr, cm_limit = sr_limit sr, cm_trust_weight = sr_trust_weight sr,
        cm_filters = sr_filters sr, cm_valid_at = rq_valid_at request, cm_known_at = sr_known_at sr\<rparr>)
        (ca_generation ca (ctx_org ctx)))"

text \<open>
  \<^verbatim>\<open>_search\<close>. The permission is checked in a first transaction on \<open>db0\<close> and again in the
  reading transaction on \<open>db1\<close>, the state at that time. The second component of the outcome is
  what is put into the cache, with the material of its key.
\<close>

definition search ::
  "engine \<Rightarrow> provider \<Rightarrow> search_index \<Rightarrow> result_cache option \<Rightarrow> instant \<Rightarrow> db \<Rightarrow> db \<Rightarrow> tenant_context \<Rightarrow> retrieval_query \<Rightarrow>
     (retrieval_result \<times> (cache_material \<times> retrieval_result) option) result" where
  "search eg pr ix cache clock db0 db1 ctx request =
     bindr (validate_request clock request) (\<lambda>sr.
     bindr (require_permission db0 ctx READ_FACTS) (\<lambda>role. let
       key = cache_key_for cache pr ctx role request sr;
       cached = (case (cache, key) of (Some ca, Some k) \<Rightarrow> ca_get ca (ca_key ca k) | _ \<Rightarrow> None) in
     (case cached of
        Some r \<Rightarrow> Inr (r\<lparr>rr_cache := Hit\<rparr>, None)
      | None \<Rightarrow> let query_vector = pr_embed pr (sr_query sr) in
         bindr (search_database eg ix db1 ctx request sr query_vector (pr_model_id pr)
             (if key \<noteq> None then Miss else Off)) (\<lambda>r.
         Inr (r, if key \<noteq> None \<and> query_vector \<noteq> None then Some (the key, r) else None)))))"

section \<open>What a search can return\<close>

text \<open>A version in the scope of a caller: the specification every result meets.\<close>

definition in_scope ::
  "db \<Rightarrow> uuid \<Rightarrow> instant \<Rightarrow> instant option \<Rightarrow> privacy_scope list \<Rightarrow> retrieval_filters \<Rightarrow> fact_version \<Rightarrow> bool" where
  "in_scope db org valid_at known_at scopes fl v \<longleftrightarrow> v \<in> set (fact_versions db) \<and> fv_org v = org \<and>
     valid_at_condition db valid_at known_at v \<and> fv_privacy_scope v \<in> set scopes \<and>
     (\<exists>f \<in> set (facts db). \<exists>e \<in> set (entities db). f_org f = org \<and> f_id f = fv_fact_id v \<and>
        en_org e = org \<and> en_id e = f_entity_id f \<and> filter_condition fl v f e)"

lemma set_scoped: "v \<in> set (scoped db org t k scopes fl) \<longleftrightarrow> in_scope db org t k scopes fl v"
proof -
  have "v \<in> set (scoped db org t k scopes fl) \<longleftrightarrow> v \<in> set (fact_versions db) \<and> (\<exists>f \<in> set (facts db). \<exists>e \<in> set (entities db).
      f_org f = fv_org v \<and> f_id f = fv_fact_id v \<and> en_org e = f_org f \<and> en_id e = f_entity_id f \<and>
      fv_org v = org \<and> valid_at_condition db t k v \<and> fv_privacy_scope v \<in> set scopes \<and> filter_condition fl v f e)"
    unfolding scoped_def join_simps by blast
  then show ?thesis unfolding in_scope_def by metis
qed

lemma hit_ids_in_scope:
  assumes "engine_ok eg" and "candidates db eg ix org q qv model t k scopes fl pool = (vh, th)"
    and "i \<in> vh_fact_version_id ` set vh \<union> th_fact_version_id ` set th"
  shows "\<exists>v. in_scope db org t k scopes fl v \<and> fv_id v = i"
proof -
  let ?vs = "scoped db org t k scopes fl"
  let ?texts = "take pool (sort_key (\<lambda>(i, score). (- score, i)) (text_rows eg ix q ?vs))"
  let ?vectors = "case qv of None \<Rightarrow> [] | Some x \<Rightarrow> eg_nearest eg pool (vector_rows eg ix model x ?vs)"
  have eq: "vh = map (\<lambda>(i, d). \<lparr>vh_fact_version_id = i, vh_distance = d\<rparr>) ?vectors"
      "th = map (\<lambda>(i, s). \<lparr>th_fact_version_id = i, th_score = s\<rparr>) ?texts"
    using assms(2) unfolding candidates_def Let_def by simp_all
  have near: "set (eg_nearest eg n rows) \<subseteq> set rows" for n rows using assms(1) by (simp add: engine_ok_def)
  have "vh_fact_version_id ` set vh = fst ` set ?vectors"
    unfolding eq(1) by (simp only: set_map image_image) (simp add: case_prod_beta')
  also have "\<dots> \<subseteq> (case qv of None \<Rightarrow> {} | Some x \<Rightarrow> fst ` set (vector_rows eg ix model x ?vs))"
    by (simp add: image_mono near split: option.split)
  finally have v: "vh_fact_version_id ` set vh \<subseteq> \<dots>" .
  have "th_fact_version_id ` set th = fst ` set ?texts"
    unfolding eq(2) by (simp only: set_map image_image) (simp add: case_prod_beta')
  also have "\<dots> \<subseteq> fst ` set (text_rows eg ix q ?vs)"
    by (rule image_mono) (rule subset_trans [OF set_take_subset], simp)
  finally have "i \<in> (case qv of None \<Rightarrow> {} | Some x \<Rightarrow> fst ` set (vector_rows eg ix model x ?vs)) \<union> fst ` set (text_rows eg ix q ?vs)"
    by (rule subsetD [OF Un_mono [OF v] assms(3)])
  then have "i \<in> fst ` set (text_rows eg ix q ?vs) \<or> (\<exists>x. qv = Some x \<and> i \<in> fst ` set (vector_rows eg ix model x ?vs))"
    by (auto split: option.splits)
  then show ?thesis by (auto simp: text_rows_def vector_rows_def set_scoped)
qed

lemma hydrate_Some:
  assumes "hydrate db org ids i = Some h"
  shows "hv_version h \<in> set (fact_versions db)" "fv_org (hv_version h) = org" "fv_id (hv_version h) = i"
  using assms by (auto simp: hydrate_def hydrated_rows_def split: if_splits dest!: map_of_SomeD)

lemma hydrate_total:
  assumes ok: "ledger_ok db" and v: "v \<in> set (fact_versions db)" "fv_org v = org" "fv_id v \<in> set ids"
  shows "\<exists>h. hydrate db org ids (fv_id v) = Some h \<and> hv_version h = v"
proof -
  obtain f s where f: "f \<in> set (facts db)" "f_org f = fv_org v" "f_id f = fv_fact_id v"
    and s: "s \<in> set (sources db)" "s_org s = fv_org v" "s_id s = fv_source_id v"
    using ok v(1) by (auto simp: ledger_ok_def version_fks_def)
  obtain e where e: "e \<in> set (entities db)" "en_org e = f_org f" "en_id e = f_entity_id f"
    using ok f(1) by (force simp: ledger_ok_def ledger_keys_ok_def)
  have "\<exists>h \<in> set (hydrated_rows db org ids). hv_version h = v"
  proof (rule bexI)
    show "\<lparr>hv_version = v, hv_property = f_property f, hv_entity_type = en_type e, hv_external_id = en_external_id e,
        hv_source_name = s_name s, hv_source_type = s_type s\<rparr> \<in> set (hydrated_rows db org ids)"
      using v f s e unfolding hydrated_rows_def join_simps by blast
  qed simp
  then have "hydrate db org ids (fv_id v) \<noteq> None"
    using v(3) unfolding hydrate_def by (auto simp: map_of_eq_None_iff image_image simp del: not_None_eq)
  then obtain h where h: "hydrate db org ids (fv_id v) = Some h" by auto
  moreover have "distinct (map fv_id (fact_versions db))" using ok by (simp add: ledger_ok_def)
  then have "hv_version h = v" using hydrate_Some [OF h] v(1) by (auto dest: distinct_map_eqD)
  ultimately show ?thesis by blast
qed

lemma mapr_total:
  assumes "\<And>x. x \<in> set xs \<Longrightarrow> \<exists>y. f x = Inr y \<and> P x y"
  shows "\<exists>ys. mapr f xs = Inr ys \<and> list_all2 P xs ys"
  using assms
proof (induction xs)
  case (Cons x xs)
  then obtain y ys where "f x = Inr y" "P x y" "mapr f xs = Inr ys" "list_all2 P xs ys" by (metis list.set_intros)
  then show ?case by simp
qed simp

lemma trust_score_bounds:
  assumes "ledger_ok db" and "v \<in> set (fact_versions db)"
  shows "0 \<le> trust_score (fv_authority v) (fv_confidence v) \<and> trust_score (fv_authority v) (fv_confidence v) \<le> 1"
proof -
  have v: "0 \<le> fv_authority v" "fv_authority v \<le> 100" "0 \<le> fv_confidence v" "fv_confidence v \<le> 1"
    using ledger_row_ok [OF assms] by (auto simp: row_ok_def version_checks_def)
  then have "of_int (fv_authority v) / 100 \<le> (1 :: rat)" "0 \<le> of_int (fv_authority v) / (100 :: rat)" by simp_all
  then show ?thesis unfolding trust_score_def using v by (intro conjI mult_nonneg_nonneg mult_le_one)
qed

text \<open>The ranking of the candidates of a well-formed ledger.\<close>

lemma search_database_Inr:
  assumes ok: "ledger_ok db" and eg: "engine_ok eg" and perm: "require_permission db ctx READ_FACTS = Inr role"
    and w: "0 \<le> sr_trust_weight sr" "sr_trust_weight sr \<le> 1"
    and scopes: "scopes = visible_privacy_scopes role [rq_max_privacy_scope request, ctx_max_privacy_scope ctx]"
    and cand: "candidates db eg ix (ctx_org ctx) (sr_query sr) qv model (sr_valid_at sr) (sr_known_at sr) scopes
      (sr_filters sr) (nat (candidate_pool_size (sr_limit sr))) = (vh, th)"
  obtains r ranked where "search_database eg ix db ctx request sr qv model st = Inr r"
    "distinct (map rc_fact_version_id ranked)"
    "rc_fact_version_id ` set ranked = vh_fact_version_id ` set vh \<union> th_fact_version_id ` set th"
    "list_all2 (\<lambda>c x. \<exists>v. in_scope db (ctx_org ctx) (sr_valid_at sr) (sr_known_at sr) scopes (sr_filters sr) v \<and>
        fv_id v = rc_fact_version_id c \<and> rt_version x = as_known (to_snapshot v) (sr_known_at sr) \<and> rt_ranking x = c)
      (take (nat (sr_limit sr)) ranked) (rr_results r)"
    "rr_privacy_scopes r = filter (\<lambda>s. s \<in> set scopes) [PUBLIC, INTERNAL, CONFIDENTIAL, RESTRICTED]" "rr_cache r = st"
    "rr_vector_search r = (if qv \<noteq> None then Used else Unavailable)"
proof -
  let ?ids = "sort (remdups (map vh_fact_version_id vh @ map th_fact_version_id th))"
  let ?rows = "hydrate db (ctx_org ctx) ?ids"
  let ?trust = "\<lambda>i. map_option (\<lambda>h. trust_score (fv_authority (hv_version h)) (fv_confidence (hv_version h))) (?rows i)"
  let ?P = "\<lambda>c x. \<exists>v. in_scope db (ctx_org ctx) (sr_valid_at sr) (sr_known_at sr) scopes (sr_filters sr) v \<and>
        fv_id v = rc_fact_version_id c \<and> rt_version x = as_known (to_snapshot v) (sr_known_at sr) \<and> rt_ranking x = c"
  have "\<forall>i x. ?trust i = Some x \<longrightarrow> 0 \<le> x \<and> x \<le> 1"
    using trust_score_bounds [OF ok] hydrate_Some [of db "ctx_org ctx" ?ids] by blast
  then obtain ranked where f: "fuse vh th ?trust (sr_trust_weight sr) DEFAULT_RRF_K = Inr ranked"
    and d: "distinct (map rc_fact_version_id ranked)"
    and ids: "rc_fact_version_id ` set ranked = vh_fact_version_id ` set vh \<union> th_fact_version_id ` set th"
    using fuse_result [OF w, of DEFAULT_RRF_K ?trust vh th] by (auto simp: DEFAULT_RRF_K_def)
  have "\<exists>y. retrieved ?rows (sr_known_at sr) c = Inr y \<and> ?P c y" if c: "c \<in> set (take (nat (sr_limit sr)) ranked)" for c
  proof -
    have i: "rc_fact_version_id c \<in> vh_fact_version_id ` set vh \<union> th_fact_version_id ` set th"
      using c ids in_set_takeD by fastforce
    then obtain v where v: "in_scope db (ctx_org ctx) (sr_valid_at sr) (sr_known_at sr) scopes (sr_filters sr) v"
        "fv_id v = rc_fact_version_id c"
      using hit_ids_in_scope [OF eg cand] by blast
    obtain h where "?rows (rc_fact_version_id c) = Some h" "hv_version h = v"
      using hydrate_total [OF ok, of v "ctx_org ctx" ?ids] v i by (auto simp: in_scope_def)
    then show ?thesis using v by (auto simp: retrieved_def)
  qed
  then obtain results where res: "mapr (retrieved ?rows (sr_known_at sr)) (take (nat (sr_limit sr)) ranked) = Inr results"
    "list_all2 ?P (take (nat (sr_limit sr)) ranked) results"
    using mapr_total [of "take (nat (sr_limit sr)) ranked" "retrieved ?rows (sr_known_at sr)" ?P] by blast
  show ?thesis
    by (rule that [OF _ d ids, of "\<lparr>rr_query = sr_query sr, rr_valid_at = sr_valid_at sr, rr_known_at = sr_known_at sr,
        rr_vector_search = (if qv \<noteq> None then Used else Unavailable), rr_embedding_model = model,
        rr_privacy_scopes = filter (\<lambda>s. s \<in> set scopes) [PUBLIC, INTERNAL, CONFIDENTIAL, RESTRICTED],
        rr_vector_candidates = length vh, rr_text_candidates = length th, rr_results = results, rr_cache = st\<rparr>"])
      (use perm cand f res in \<open>simp_all add: search_database_def Let_def scopes\<close>)
qed

lemma list_all2_right: "list_all2 P xs ys \<Longrightarrow> y \<in> set ys \<Longrightarrow> \<exists>x \<in> set xs. P x y"
  by (induction rule: list_all2_induct) auto

lemma text_rows_ids:
  "fst ` set (text_rows eg ix q vs) = {fv_id v | v d. v \<in> set vs \<and> d \<in> set (search_documents ix) \<and>
     sd_org d = fv_org v \<and> sd_fact_version_id d = fv_id v \<and> eg_rank eg (sd_search_vector d) q \<noteq> None}" (is "?l = ?r")
proof -
  have in_rows: "x \<in> set (text_rows eg ix q vs) \<longleftrightarrow> (\<exists>d \<in> set (search_documents ix). \<exists>v \<in> set vs.
      (fv_org v = sd_org d \<and> fv_id v = sd_fact_version_id d \<and> eg_rank eg (sd_search_vector d) q \<noteq> None) \<and>
      x = (sd_fact_version_id d, the (eg_rank eg (sd_search_vector d) q)))" for x
    unfolding text_rows_def join_simps by (rule refl)
  show ?thesis
  proof (intro set_eqI iffI)
    fix i assume "i \<in> ?l"
    then obtain x where "x \<in> set (text_rows eg ix q vs)" "i = fst x" by blast
    then show "i \<in> ?r" unfolding in_rows by force
  next
    fix i assume "i \<in> ?r"
    then obtain v d where "v \<in> set vs" "d \<in> set (search_documents ix)" "sd_org d = fv_org v" "sd_fact_version_id d = fv_id v"
      "eg_rank eg (sd_search_vector d) q \<noteq> None" "i = fv_id v" by blast
    then have "(i, the (eg_rank eg (sd_search_vector d) q)) \<in> set (text_rows eg ix q vs)" unfolding in_rows by metis
    then show "i \<in> ?l" by (rule rev_image_eqI) simp
  qed
qed

lemma validate_request_Inr:
  assumes "validate_request clock request = Inr sr"
  shows "0 \<le> sr_trust_weight sr" "sr_trust_weight sr \<le> 1" "1 \<le> sr_limit sr" "sr_limit sr \<le> 50"
    "normalize_filters request = Inr (sr_filters sr)"
  using assms by (auto simp: validate_request_def validate_limit_def validate_trust_weight_def MAX_LIMIT_def result_simps)

text \<open>A pool is large enough for the winners of every valid limit.\<close>

lemma pool_ge_limit: "1 \<le> n \<Longrightarrow> n \<le> 50 \<Longrightarrow> nat n \<le> nat (candidate_pool_size n)"
  by (simp add: candidate_pool_size_def)

section \<open>Properties\<close>

lemma search_returns_scoped:
  assumes ok: "ledger_ok db1" and eg: "engine_ok eg" and req: "validate_request clock request = Inr sr"
    and p0: "require_permission db0 ctx READ_FACTS = Inr role0" and p1: "require_permission db1 ctx READ_FACTS = Inr role"
  shows "\<exists>r stored. search eg pr ix cache clock db0 db1 ctx request = Inr (r, stored) \<and>
    (rr_cache r = Hit \<or>
      length (rr_results r) \<le> nat (sr_limit sr) \<and> distinct (map (\<lambda>x. vs_id (rt_version x)) (rr_results r)) \<and>
      (\<forall>x \<in> set (rr_results r). \<exists>v. rt_version x = as_known (to_snapshot v) (sr_known_at sr) \<and>
         in_scope db1 (ctx_org ctx) (sr_valid_at sr) (sr_known_at sr)
           (visible_privacy_scopes role [rq_max_privacy_scope request, ctx_max_privacy_scope ctx]) (sr_filters sr) v))"
proof -
  let ?scopes = "visible_privacy_scopes role [rq_max_privacy_scope request, ctx_max_privacy_scope ctx]"
  let ?key = "cache_key_for cache pr ctx role0 request sr"
  let ?qv = "pr_embed pr (sr_query sr)"
  obtain vh th where cand: "candidates db1 eg ix (ctx_org ctx) (sr_query sr) ?qv (pr_model_id pr) (sr_valid_at sr) (sr_known_at sr)
      ?scopes (sr_filters sr) (nat (candidate_pool_size (sr_limit sr))) = (vh, th)" by fastforce
  obtain r ranked where r: "search_database eg ix db1 ctx request sr ?qv (pr_model_id pr) (if ?key \<noteq> None then Miss else Off) = Inr r"
    and d: "distinct (map rc_fact_version_id ranked)"
    and res: "list_all2 (\<lambda>c x. \<exists>v. in_scope db1 (ctx_org ctx) (sr_valid_at sr) (sr_known_at sr) ?scopes (sr_filters sr) v \<and>
        fv_id v = rc_fact_version_id c \<and> rt_version x = as_known (to_snapshot v) (sr_known_at sr) \<and> rt_ranking x = c)
      (take (nat (sr_limit sr)) ranked) (rr_results r)"
    by (rule search_database_Inr [OF ok eg p1 validate_request_Inr(1,2) [OF req] refl cand]) (rule that)
  have ids: "map (\<lambda>x. vs_id (rt_version x)) (rr_results r) = map rc_fact_version_id (take (nat (sr_limit sr)) ranked)"
    using res by (induction rule: list_all2_induct) auto
  have "distinct (map (\<lambda>x. vs_id (rt_version x)) (rr_results r))" unfolding ids using d by (simp add: take_map [symmetric] distinct_take)
  moreover have "length (rr_results r) \<le> nat (sr_limit sr)" using list_all2_lengthD [OF res] by simp
  moreover have "\<exists>v. rt_version x = as_known (to_snapshot v) (sr_known_at sr) \<and>
      in_scope db1 (ctx_org ctx) (sr_valid_at sr) (sr_known_at sr) ?scopes (sr_filters sr) v" if "x \<in> set (rr_results r)" for x
    using list_all2_right [OF res that] by blast
  ultimately show ?thesis
    using r req p0 by (auto simp: search_def Let_def split: option.splits)
qed


text \<open>
  C14. With full-text search alone, no cache, and at most \<^verbatim>\<open>limit\<close> matching documents in scope,
  a search is complete: the versions it returns are exactly those in scope whose document
  matches the question, so a degraded search loses nothing that text search can find.
\<close>

theorem text_search_complete:
  assumes ok: "ledger_ok db1" and eg: "engine_ok eg" and req: "validate_request clock request = Inr sr"
    and p0: "require_permission db0 ctx READ_FACTS = Inr role0" and p1: "require_permission db1 ctx READ_FACTS = Inr role"
    and down: "pr_embed pr (sr_query sr) = None"
    and scopes: "scopes = visible_privacy_scopes role [rq_max_privacy_scope request, ctx_max_privacy_scope ctx]"
    and room: "length (text_rows eg ix (sr_query sr) (scoped db1 (ctx_org ctx) (sr_valid_at sr) (sr_known_at sr) scopes (sr_filters sr)))
       \<le> nat (sr_limit sr)"
  shows "\<exists>r. search eg pr ix None clock db0 db1 ctx request = Inr (r, None) \<and> rr_vector_search r = Unavailable \<and>
    (\<lambda>x. vs_id (rt_version x)) ` set (rr_results r) = {fv_id v | v d.
       in_scope db1 (ctx_org ctx) (sr_valid_at sr) (sr_known_at sr) scopes (sr_filters sr) v \<and> d \<in> set (search_documents ix) \<and>
       sd_org d = fv_org v \<and> sd_fact_version_id d = fv_id v \<and> eg_rank eg (sd_search_vector d) (sr_query sr) \<noteq> None}"
proof -
  let ?vs = "scoped db1 (ctx_org ctx) (sr_valid_at sr) (sr_known_at sr) scopes (sr_filters sr)"
  let ?rows = "text_rows eg ix (sr_query sr) ?vs"
  let ?pool = "nat (candidate_pool_size (sr_limit sr))"
  have pool: "length ?rows \<le> ?pool" using room pool_ge_limit validate_request_Inr(3,4) [OF req] by (meson le_trans)
  obtain vh th where cand: "candidates db1 eg ix (ctx_org ctx) (sr_query sr) None (pr_model_id pr) (sr_valid_at sr) (sr_known_at sr)
      scopes (sr_filters sr) ?pool = (vh, th)" by fastforce
  then have hits: "vh = []" "th = map (\<lambda>(i, s). \<lparr>th_fact_version_id = i, th_score = s\<rparr>) (sort_key (\<lambda>(i, score). (- score, i)) ?rows)"
    using pool by (auto simp: candidates_def Let_def)
  obtain r ranked where r: "search_database eg ix db1 ctx request sr None (pr_model_id pr) Off = Inr r"
    and d: "distinct (map rc_fact_version_id ranked)"
    and all: "rc_fact_version_id ` set ranked = vh_fact_version_id ` set vh \<union> th_fact_version_id ` set th"
    and res: "list_all2 (\<lambda>c x. \<exists>v. in_scope db1 (ctx_org ctx) (sr_valid_at sr) (sr_known_at sr) scopes (sr_filters sr) v \<and>
        fv_id v = rc_fact_version_id c \<and> rt_version x = as_known (to_snapshot v) (sr_known_at sr) \<and> rt_ranking x = c)
      (take (nat (sr_limit sr)) ranked) (rr_results r)"
    and status: "rr_vector_search r = (if None \<noteq> (None :: rat list option) then Used else Unavailable)"
    by (rule search_database_Inr [OF ok eg p1 validate_request_Inr(1,2) [OF req] scopes cand]) (rule that)
  have ids: "map (\<lambda>x. vs_id (rt_version x)) (rr_results r) = map rc_fact_version_id (take (nat (sr_limit sr)) ranked)"
    using res by (induction rule: list_all2_induct) auto
  have th: "th_fact_version_id ` set th = fst ` set ?rows" by (simp add: hits(2) image_image case_prod_beta')
  have "length ranked = card (rc_fact_version_id ` set ranked)"
    using distinct_card [OF d] by simp
  also have "\<dots> = card (set (map fst ?rows))" by (simp add: all hits(1) th)
  also have "\<dots> \<le> nat (sr_limit sr)" using card_length [of "map fst ?rows"] room by simp
  finally have "take (nat (sr_limit sr)) ranked = ranked" by simp
  then have "(\<lambda>x. vs_id (rt_version x)) ` set (rr_results r) = fst ` set ?rows"
    using arg_cong [OF ids, of set] by (simp add: all hits(1) th)
  also have "\<dots> = {fv_id v | v d.
       in_scope db1 (ctx_org ctx) (sr_valid_at sr) (sr_known_at sr) scopes (sr_filters sr) v \<and> d \<in> set (search_documents ix) \<and>
       sd_org d = fv_org v \<and> sd_fact_version_id d = fv_id v \<and> eg_rank eg (sd_search_vector d) (sr_query sr) \<noteq> None}"
    unfolding text_rows_ids set_scoped [symmetric] by blast
  finally show ?thesis
    using r req p0 down status by (simp add: search_def Let_def cache_key_for_def)
qed

text \<open>A text engine that matches equal texts, with one searchable document.\<close>

definition toy_engine :: engine where
  "toy_engine = \<lparr>eg_rank = (\<lambda>d q. if d = q then Some 1 else None), eg_distance = (\<lambda>_ _. 1), eg_nearest = take\<rparr>"

definition toy_provider :: provider where
  "toy_provider = \<lparr>pr_model_id = ''toy'', pr_embed = (\<lambda>_. None)\<rparr>"

definition sample_index :: search_index where
  "sample_index = \<lparr>search_documents = [\<lparr>sd_org = fv_org first_version, sd_fact_version_id = fv_id first_version,
     sd_search_vector = ''credit limit''\<rparr>], fact_embeddings = []\<rparr>"

definition sample_request :: retrieval_query where
  "sample_request = \<lparr>rq_query = ''  credit   limit'', rq_limit = 5, rq_valid_at = Some (Aware 15), rq_known_at = None,
     rq_entity_type = None, rq_external_ids = [], rq_properties = [], rq_source_ids = [], rq_min_authority = None,
     rq_min_confidence = None, rq_max_privacy_scope = None, rq_trust_weight = 3 / 10\<rparr>"

definition sample_sr :: search_request where
  "sample_sr = \<lparr>sr_query = ''credit limit'', sr_limit = 5, sr_trust_weight = 3 / 10,
     sr_filters = \<lparr>fl_entity_type = None, fl_external_ids = [], fl_properties = [], fl_source_ids = [],
       fl_min_authority = None, fl_min_confidence = None\<rparr>, sr_valid_at = 15, sr_known_at = None\<rparr>"

lemma toy_engine_ok: "engine_ok toy_engine"
  by (simp add: engine_ok_def toy_engine_def set_take_subset)

lemma sample_request_valid: "validate_request 90 sample_request = Inr sample_sr"
proof -
  have "normalize_query (rq_query sample_request) = Inr ''credit limit''" by code_simp
  then show ?thesis
    by (simp add: validate_request_def sample_request_def sample_sr_def validate_limit_def MAX_LIMIT_def validate_trust_weight_def
        normalize_filters_def at_most_values_def check_min_confidence_def require_aware_def aware_opt_def)
qed

lemma sample_reader: "require_permission one_version_db admin_ctx READ_FACTS = Inr ADMIN"
  by code_simp

lemma one_version_ledger: "ledger_ok one_version_db"
  using one_version_db_ok by (simp add: store_ok_def ledger_inv_ok)


text \<open>Witness: the provider is down, and the one matching version is found.\<close>

theorem text_search_complete_witness:
  "\<exists>r. search toy_engine toy_provider sample_index None 90 one_version_db one_version_db admin_ctx sample_request = Inr (r, None) \<and>
     rr_vector_search r = Unavailable \<and> fv_id first_version \<in> (\<lambda>x. vs_id (rt_version x)) ` set (rr_results r)"
proof -
  let ?scopes = "visible_privacy_scopes ADMIN [rq_max_privacy_scope sample_request, ctx_max_privacy_scope admin_ctx]"
  let ?vs = "scoped one_version_db (ctx_org admin_ctx) (sr_valid_at sample_sr) (sr_known_at sample_sr) ?scopes (sr_filters sample_sr)"
  have down: "pr_embed toy_provider (sr_query sample_sr) = None" by (simp add: toy_provider_def)
  have vs: "?vs = [first_version]" by code_simp
  have room: "length (text_rows toy_engine sample_index (sr_query sample_sr) ?vs) \<le> nat (sr_limit sample_sr)"
    unfolding vs by (simp add: text_rows_def sample_index_def sample_sr_def)
  have "in_scope one_version_db (ctx_org admin_ctx) (sr_valid_at sample_sr) (sr_known_at sample_sr) ?scopes (sr_filters sample_sr) first_version"
    unfolding set_scoped [symmetric] vs by simp
  then show ?thesis
    using text_search_complete [OF one_version_ledger toy_engine_ok sample_request_valid sample_reader sample_reader down refl room]
    by (auto simp: sample_index_def toy_engine_def sample_sr_def)
qed

end
