(* ===== verification/Decisions.thy ===== *)
theory Decisions
  imports Retrieval
begin

text \<open>
  Decision receipts: the rules of \<^verbatim>\<open>domain/decisions.py\<close>, the tables and queries of
  \<^verbatim>\<open>models/decision.py\<close> and \<^verbatim>\<open>repositories/decisions.py\<close>, and \<^verbatim>\<open>services/decisions.py\<close>: capture a
  context, record a decision on it, read its receipt. Shown: what is stored keeps the
  database's rules, a recorded decision is sealed by a hash that every reader finds
  verified, and a receipt shows every fact of the frozen context once, in order, hiding
  exactly the content above the reader's privacy ceiling.
\<close>

section \<open>Rules\<close>

definition RECEIPT_SCHEMA :: string where "RECEIPT_SCHEMA = ''contextledger.receipt.v1''"
definition MAX_RATIONALE_CHARS :: nat where "MAX_RATIONALE_CHARS = 4000"
definition MAX_RELIED_ON :: nat where "MAX_RELIED_ON = 50"

definition canonical_opts :: json_opts where
  "canonical_opts = \<lparr>sort_keys = True, item_sep = '','', key_sep = '':'', ensure_ascii = False, allow_nan = True\<rparr>"

definition canonical_json :: "runtime \<Rightarrow> pyval \<Rightarrow> string result" where
  "canonical_json R value = some_or (json_dumps canonical_opts (float_repr R) value) (PyError ''TypeError'')"

definition value_sha256 :: "runtime \<Rightarrow> pyval \<Rightarrow> string result" where
  "value_sha256 R value = bindr (canonical_json R value) (\<lambda>text. Inr (sha256 R text))"

definition normalize_action :: "string \<Rightarrow> string result" where
  "normalize_action action = normalize_identifier action ''action''"

definition normalize_rationale :: "string option \<Rightarrow> string option result" where
  "normalize_rationale rationale = (case rationale of None \<Rightarrow> Inr None
    | Some text \<Rightarrow> let cleaned = strip text in
        if cleaned = [] then Inr None
        else bindr (requirer (length cleaned \<le> MAX_RATIONALE_CHARS)
           (ValidationFailedError ''rationale must be at most 4000 characters'')) (\<lambda>_. Inr (Some cleaned)))"

definition normalize_agent :: "string option \<Rightarrow> string option result" where
  "normalize_agent agent = (case agent of None \<Rightarrow> Inr None
    | Some a \<Rightarrow> bindr (normalize_name a ''agent'') (\<lambda>n. Inr (Some n)))"

definition validate_outcome :: "runtime \<Rightarrow> pyval \<Rightarrow> pyval result" where
  "validate_outcome R outcome = validate_fact_value R outcome"

definition validate_relied_on :: "uuid list \<Rightarrow> uuid list \<Rightarrow> uuid list result" where
  "validate_relied_on ids snapshot_ids =
     bindr (requirer (distinct ids) (ValidationFailedError ''relied_on contains duplicate fact versions'')) (\<lambda>_.
     bindr (requirer (length ids \<le> MAX_RELIED_ON) (ValidationFailedError ''relied_on accepts at most 50 fact versions'')) (\<lambda>_.
     bindr (requirer (set ids \<subseteq> set snapshot_ids)
        (ValidationFailedError ''relied_on may only cite fact versions from the context snapshot'')) (\<lambda>_.
     Inr (sort ids))))"

fun scope_str :: "privacy_scope \<Rightarrow> string" where
  "scope_str PUBLIC = ''PUBLIC''"
| "scope_str INTERNAL = ''INTERNAL''"
| "scope_str CONFIDENTIAL = ''CONFIDENTIAL''"
| "scope_str RESTRICTED = ''RESTRICTED''"

text \<open>The relied-on versions are a frozenset: only membership in the list counts.\<close>

record receipt_content =
  ct_organization_id :: uuid
  ct_decision_id :: uuid
  ct_snapshot_id :: uuid
  ct_decided_at :: instant
  ct_decided_by_user_id :: uuid
  ct_agent :: "string option"
  ct_action :: string
  ct_outcome :: pyval
  ct_rationale :: "string option"
  ct_query :: string
  ct_valid_at :: instant
  ct_known_at :: instant
  ct_embedding_model :: string
  ct_vector_search :: string
  ct_privacy_scopes :: "privacy_scope list"
  ct_facts :: "(uuid \<times> nat \<times> string) list"
  ct_relied_on :: "uuid list"

definition str_or_none :: "string option \<Rightarrow> pyval" where
  "str_or_none x = (case x of None \<Rightarrow> PNone | Some s \<Rightarrow> PStr s)"

definition receipt_document :: "receipt_content \<Rightarrow> pyval" where
  "receipt_document c = PDict [
     (''schema'', PStr RECEIPT_SCHEMA),
     (''organization_id'', PStr (uuid_str (ct_organization_id c))),
     (''decision'', PDict [
        (''id'', PStr (uuid_str (ct_decision_id c))),
        (''decided_at'', PStr (iso_utc (ct_decided_at c))),
        (''decided_by_user_id'', PStr (uuid_str (ct_decided_by_user_id c))),
        (''agent'', str_or_none (ct_agent c)),
        (''action'', PStr (ct_action c)),
        (''outcome'', ct_outcome c),
        (''rationale'', str_or_none (ct_rationale c))]),
     (''context'', PDict [
        (''snapshot_id'', PStr (uuid_str (ct_snapshot_id c))),
        (''query'', PStr (ct_query c)),
        (''valid_at'', PStr (iso_utc (ct_valid_at c))),
        (''known_at'', PStr (iso_utc (ct_known_at c))),
        (''embedding_model'', PStr (ct_embedding_model c)),
        (''vector_search'', PStr (ct_vector_search c)),
        (''privacy_scopes'', PList (map PStr (sort (map scope_str (ct_privacy_scopes c)))))]),
     (''facts'', PList (map (\<lambda>(version_id, position, digest). PDict [
          (''fact_version_id'', PStr (uuid_str version_id)),
          (''position'', PInt (int position)),
          (''value_sha256'', PStr digest),
          (''relied_on'', PBool (version_id \<in> set (ct_relied_on c)))])
        (sort_key (\<lambda>(version_id, position, digest). position) (ct_facts c))))]"

definition receipt_hash :: "runtime \<Rightarrow> receipt_content \<Rightarrow> string result" where
  "receipt_hash R c = bindr (canonical_json R (receipt_document c)) (\<lambda>text. Inr (sha256 R text))"

section \<open>Tables and queries\<close>

abbreviation snapshot_fact_key :: "snapshot_fact \<Rightarrow> uuid \<times> uuid" where
  "snapshot_fact_key f \<equiv> (sf_snapshot_id f, sf_fact_version_id f)"

abbreviation decision_ref :: "decision \<Rightarrow> uuid \<times> uuid \<times> uuid" where
  "decision_ref d \<equiv> (d_org d, d_id d, d_snapshot_id d)"

definition snapshot_fact_refs :: "db \<Rightarrow> snapshot_fact \<Rightarrow> bool" where
  "snapshot_fact_refs db f \<longleftrightarrow> 1 \<le> sf_position f \<and>
     (sf_org f, sf_snapshot_id f) \<in> (\<lambda>s. (cs_org s, cs_id s)) ` set (snapshots db) \<and>
     (sf_org f, sf_fact_version_id f) \<in> (\<lambda>v. (fv_org v, fv_id v)) ` set (fact_versions db)"

definition add_snapshot :: "context_snapshot \<Rightarrow> snapshot_fact list \<Rightarrow> db \<Rightarrow> db result" where
  "add_snapshot s fs db =
     bindr (requirer (cs_id s \<notin> cs_id ` set (snapshots db) \<and> cs_vector_search s \<in> {''used'', ''unavailable''} \<and>
          cs_captured_by_user_id s \<in> u_id ` set (users db)) (IntegrityError ''context_snapshots'')) (\<lambda>_.
     let db1 = db\<lparr>snapshots := snapshots db @ [s]\<rparr> in
     bindr (requirer (distinct (map snapshot_fact_key (snapshot_facts db @ fs)) \<and>
          distinct (map (\<lambda>f. (sf_snapshot_id f, sf_position f)) (snapshot_facts db @ fs)) \<and>
          list_all (snapshot_fact_refs db1) fs) (IntegrityError ''context_snapshot_facts'')) (\<lambda>_.
     Inr (db1\<lparr>snapshot_facts := snapshot_facts db @ fs\<rparr>)))"

definition decision_checks :: "decision \<Rightarrow> bool" where
  "decision_checks d \<longleftrightarrow> identifier_pattern (d_action d) \<and> hex64 (d_receipt_sha256 d) \<and> d_outcome d \<noteq> PNone"

definition decision_fact_refs :: "db \<Rightarrow> decision_fact \<Rightarrow> bool" where
  "decision_fact_refs db f \<longleftrightarrow> (df_org f, df_decision_id f, df_snapshot_id f) \<in> decision_ref ` set (decisions db) \<and>
     (df_snapshot_id f, df_fact_version_id f) \<in> snapshot_fact_key ` set (snapshot_facts db)"

definition add_decision :: "decision \<Rightarrow> decision_fact list \<Rightarrow> db \<Rightarrow> db result" where
  "add_decision d fs db =
     bindr (requirer (d_id d \<notin> d_id ` set (decisions db) \<and> decision_checks d \<and>
          (d_org d, d_snapshot_id d) \<in> (\<lambda>s. (cs_org s, cs_id s)) ` set (snapshots db) \<and>
          d_decided_by_user_id d \<in> u_id ` set (users db)) (IntegrityError ''decisions'')) (\<lambda>_.
     let db1 = db\<lparr>decisions := decisions db @ [d]\<rparr> in
     bindr (requirer (distinct (map (\<lambda>f. (df_decision_id f, df_fact_version_id f)) (decision_facts db @ fs)) \<and>
          list_all (decision_fact_refs db1) fs) (IntegrityError ''decision_facts'')) (\<lambda>_.
     Inr (db1\<lparr>decision_facts := decision_facts db @ fs\<rparr>)))"

definition get_snapshot :: "db \<Rightarrow> uuid \<Rightarrow> uuid \<Rightarrow> context_snapshot option" where
  "get_snapshot db org sid = find (\<lambda>s. cs_org s = org \<and> cs_id s = sid) (snapshots db)"

definition get_decision :: "db \<Rightarrow> uuid \<Rightarrow> uuid \<Rightarrow> decision option" where
  "get_decision db org did = find (\<lambda>d. d_org d = org \<and> d_id d = did) (decisions db)"

record snapshot_fact_row =
  sw_snapshot_fact :: snapshot_fact
  sw_version :: fact_version
  sw_property :: string
  sw_entity_type :: string
  sw_external_id :: string
  sw_source_name :: string

definition snapshot_rows :: "db \<Rightarrow> uuid \<Rightarrow> uuid \<Rightarrow> snapshot_fact_row list" where
  "snapshot_rows db org sid = sort_key (\<lambda>r. sf_position (sw_snapshot_fact r))
     [\<lparr>sw_snapshot_fact = x, sw_version = v, sw_property = f_property f, sw_entity_type = en_type e,
        sw_external_id = en_external_id e, sw_source_name = s_name s\<rparr>.
      x \<leftarrow> snapshot_facts db, v \<leftarrow> fact_versions db, f \<leftarrow> facts db, e \<leftarrow> entities db, s \<leftarrow> sources db,
      fv_org v = sf_org x \<and> fv_id v = sf_fact_version_id x \<and> f_org f = fv_org v \<and> f_id f = fv_fact_id v \<and>
      en_org e = f_org f \<and> en_id e = f_entity_id f \<and> s_org s = fv_org v \<and> s_id s = fv_source_id v \<and>
      sf_org x = org \<and> sf_snapshot_id x = sid]"

definition relied_on_rows :: "db \<Rightarrow> uuid \<Rightarrow> uuid \<Rightarrow> uuid list" where
  "relied_on_rows db org did = map df_fact_version_id
     (filter (\<lambda>f. df_org f = org \<and> df_decision_id f = did) (decision_facts db))"

definition decisions_relying_on_rows :: "db \<Rightarrow> uuid \<Rightarrow> uuid \<Rightarrow> decision list" where
  "decisions_relying_on_rows db org vid = sort_key (\<lambda>d. (d_decided_at d, d_id d))
     [d. d \<leftarrow> decisions db, f \<leftarrow> decision_facts db,
        df_org f = d_org d \<and> df_decision_id f = d_id d \<and> d_org d = org \<and> df_fact_version_id f = vid]"

section \<open>The service\<close>

record captured_context =
  cc_snapshot_id :: uuid
  cc_valid_at :: instant
  cc_known_at :: instant
  cc_retrieval :: retrieval_result

record record_decision_command =
  rd_snapshot_id :: uuid
  rd_action :: string
  rd_outcome :: pyval
  rd_relied_on :: "uuid list"
  rd_rationale :: "string option"
  rd_agent :: "string option"

record receipt_evidence =
  re_evidence_id :: uuid
  re_relation :: evidence_relation
  re_content_sha256 :: string
  re_uri :: "string option"
  re_source_name :: string
  re_linked_at :: instant

record receipt_fact =
  rx_fact_version_id :: uuid
  rx_position :: nat
  rx_relied_on :: bool
  rx_redacted :: bool
  rx_privacy_scope :: privacy_scope
  rx_entity_type :: "string option"
  rx_external_id :: "string option"
  rx_property :: "string option"
  rx_source_name :: "string option"
  rx_version :: "version_snapshot option"
  rx_ranking :: pyval
  rx_evidence :: "receipt_evidence list"
  rx_revoked_at :: "instant option"

record receipt_context =
  rcx_snapshot_id :: uuid
  rcx_query :: string
  rcx_valid_at :: instant
  rcx_known_at :: instant
  rcx_embedding_model :: string
  rcx_vector_search :: string
  rcx_privacy_scopes :: "privacy_scope list"
  rcx_parameters :: pyval
  rcx_captured_by_user_id :: uuid

record decision_receipt =
  dr_decision_id :: uuid
  dr_organization_id :: uuid
  dr_action :: string
  dr_outcome :: pyval
  dr_rationale :: "string option"
  dr_agent :: "string option"
  dr_decided_by_user_id :: uuid
  dr_decided_at :: instant
  dr_context :: receipt_context
  dr_facts :: "receipt_fact list"
  dr_receipt_sha256 :: string
  dr_integrity_verified :: bool

definition fact_digest :: "runtime \<Rightarrow> snapshot_fact_row \<Rightarrow> (uuid \<times> nat \<times> string) result" where
  "fact_digest R row = bindr (value_sha256 R (fv_value (sw_version row))) (\<lambda>digest.
     Inr (fv_id (sw_version row), sf_position (sw_snapshot_fact row), digest))"

definition decision_content ::
  "runtime \<Rightarrow> decision \<Rightarrow> context_snapshot \<Rightarrow> snapshot_fact_row list \<Rightarrow> uuid list \<Rightarrow> receipt_content result" where
  "decision_content R d s rows relied = bindr (mapr (fact_digest R) rows) (\<lambda>digests.
     Inr \<lparr>ct_organization_id = d_org d, ct_decision_id = d_id d, ct_snapshot_id = cs_id s,
       ct_decided_at = d_decided_at d, ct_decided_by_user_id = d_decided_by_user_id d, ct_agent = d_agent d,
       ct_action = d_action d, ct_outcome = d_outcome d, ct_rationale = d_rationale d, ct_query = cs_query s,
       ct_valid_at = cs_valid_at s, ct_known_at = cs_known_at s, ct_embedding_model = cs_embedding_model s,
       ct_vector_search = cs_vector_search s, ct_privacy_scopes = cs_privacy_scopes s,
       ct_facts = digests, ct_relied_on = relied\<rparr>)"

definition decision_seal ::
  "runtime \<Rightarrow> decision \<Rightarrow> context_snapshot \<Rightarrow> snapshot_fact_row list \<Rightarrow> uuid list \<Rightarrow> string result" where
  "decision_seal R d s rows relied = bindr (decision_content R d s rows relied) (receipt_hash R)"

definition request_parameters :: "runtime \<Rightarrow> retrieval_query \<Rightarrow> pyval" where
  "request_parameters R q = PDict [
     (''limit'', PInt (rq_limit q)),
     (''entity_type'', str_or_none (rq_entity_type q)),
     (''external_ids'', PList (map PStr (sort (rq_external_ids q)))),
     (''properties'', PList (map PStr (sort (rq_properties q)))),
     (''source_ids'', PList (map PStr (sort (map uuid_str (rq_source_ids q))))),
     (''min_authority'', (case rq_min_authority q of None \<Rightarrow> PNone | Some a \<Rightarrow> PInt a)),
     (''min_confidence'', (case rq_min_confidence q of None \<Rightarrow> PNone | Some c \<Rightarrow> PStr (decimal_str R c))),
     (''max_privacy_scope'', (case rq_max_privacy_scope q of None \<Rightarrow> PNone | Some p \<Rightarrow> PStr (scope_str p))),
     (''trust_weight'', PFloat (rq_trust_weight q))]"

definition rank_or_none :: "nat option \<Rightarrow> pyval" where
  "rank_or_none x = (case x of None \<Rightarrow> PNone | Some n \<Rightarrow> PInt (int n))"

definition float_or_none :: "rat option \<Rightarrow> pyval" where
  "float_or_none x = (case x of None \<Rightarrow> PNone | Some r \<Rightarrow> PFloat r)"

definition ranking_object :: "ranked_candidate \<Rightarrow> pyval" where
  "ranking_object c = PDict [
     (''score'', PFloat (rc_score c)), (''rrf_score'', PFloat (rc_rrf_score c)), (''trust'', PFloat (rc_trust c)),
     (''vector_rank'', rank_or_none (rc_vector_rank c)), (''vector_distance'', float_or_none (rc_vector_distance c)),
     (''text_rank'', rank_or_none (rc_text_rank c)), (''text_score'', float_or_none (rc_text_score c))]"

definition search_status_str :: "vector_search_status \<Rightarrow> string" where
  "search_status_str s = (case s of Used \<Rightarrow> ''used'' | Unavailable \<Rightarrow> ''unavailable'')"

text \<open>
  \<^verbatim>\<open>capture_context\<close> runs four transactions: the permission and the database clock (on
  \<open>db0\<close> at \<open>t\<close>), the two of the search (on \<open>db1\<close> and \<open>db2\<close>), and the insertion (on \<open>db\<close>,
  with ids and \<^verbatim>\<open>now()\<close> of \<open>t'\<close>).
\<close>

definition capture_context ::
  "runtime \<Rightarrow> engine \<Rightarrow> provider \<Rightarrow> search_index \<Rightarrow> txn \<Rightarrow> txn \<Rightarrow> instant \<Rightarrow> db \<Rightarrow> db \<Rightarrow> db \<Rightarrow> tenant_context \<Rightarrow>
     retrieval_query \<Rightarrow> db \<Rightarrow> (captured_context \<times> db) result" where
  "capture_context R eg pr ix t t' clock db0 db1 db2 ctx request db =
     bindr (require_permission db0 ctx RECORD_DECISIONS) (\<lambda>_.
     bindr (case rq_known_at request of Some k \<Rightarrow> require_aware k ''known_at'' | None \<Rightarrow> Inr (t_clock t)) (\<lambda>known_at.
     bindr (case rq_valid_at request of Some v \<Rightarrow> require_aware v ''valid_at'' | None \<Rightarrow> Inr known_at) (\<lambda>valid_at.
     let pinned = request\<lparr>rq_valid_at := Some (Aware valid_at), rq_known_at := Some (Aware known_at)\<rparr> in
     bindr (search eg pr ix None clock db1 db2 ctx pinned) (\<lambda>(retrieval, _).
     bindr (require_permission db ctx RECORD_DECISIONS) (\<lambda>_.
     let snapshot = \<lparr>cs_id = t_ids t' 0, cs_org = ctx_org ctx, cs_captured_by_user_id = ctx_user ctx,
           cs_query = rr_query retrieval, cs_valid_at = valid_at, cs_known_at = known_at,
           cs_embedding_model = rr_embedding_model retrieval, cs_vector_search = search_status_str (rr_vector_search retrieval),
           cs_privacy_scopes = rr_privacy_scopes retrieval, cs_parameters = request_parameters R pinned,
           cs_created_at = t_now t'\<rparr>;
         fs = map (\<lambda>(position, result). \<lparr>sf_org = ctx_org ctx, sf_snapshot_id = cs_id snapshot,
           sf_fact_version_id = vs_id (rt_version result), sf_position = position,
           sf_ranking = ranking_object (rt_ranking result)\<rparr>) (enumerate 1 (rr_results retrieval)) in
     bindr (add_snapshot snapshot fs db) (\<lambda>db'.
     Inr (\<lparr>cc_snapshot_id = cs_id snapshot, cc_valid_at = valid_at, cc_known_at = known_at, cc_retrieval = retrieval\<rparr>, db')))))))"

definition revocation_times :: "db \<Rightarrow> uuid \<Rightarrow> uuid list \<Rightarrow> uuid \<Rightarrow> instant option" where
  "revocation_times db org ids = map_of (rev (map (\<lambda>r. (rv_fact_version_id r, rv_revoked_at r))
     (filter (\<lambda>r. rv_org r = org \<and> rv_fact_version_id r \<in> set ids) (revocations db))))"

definition redacted_fact :: "snapshot_fact_row \<Rightarrow> privacy_scope \<Rightarrow> uuid list \<Rightarrow> receipt_fact" where
  "redacted_fact row scope relied = \<lparr>rx_fact_version_id = fv_id (sw_version row),
     rx_position = sf_position (sw_snapshot_fact row), rx_relied_on = (fv_id (sw_version row) \<in> set relied),
     rx_redacted = True, rx_privacy_scope = scope, rx_entity_type = None, rx_external_id = None, rx_property = None,
     rx_source_name = None, rx_version = None, rx_ranking = PDict [], rx_evidence = [], rx_revoked_at = None\<rparr>"

definition receipt_fact_of ::
  "db \<Rightarrow> uuid \<Rightarrow> privacy_scope list \<Rightarrow> instant \<Rightarrow> uuid list \<Rightarrow> (uuid \<Rightarrow> instant option) \<Rightarrow> snapshot_fact_row \<Rightarrow> receipt_fact" where
  "receipt_fact_of db org visible known_at relied revoked row = (let scope = fv_privacy_scope (sw_version row) in
     if scope \<notin> set visible then redacted_fact row scope relied
     else \<lparr>rx_fact_version_id = fv_id (sw_version row), rx_position = sf_position (sw_snapshot_fact row),
       rx_relied_on = (fv_id (sw_version row) \<in> set relied), rx_redacted = False, rx_privacy_scope = scope,
       rx_entity_type = Some (sw_entity_type row), rx_external_id = Some (sw_external_id row),
       rx_property = Some (sw_property row), rx_source_name = Some (sw_source_name row),
       rx_version = Some (as_known (to_snapshot (sw_version row)) (Some known_at)),
       rx_ranking = sf_ranking (sw_snapshot_fact row),
       rx_evidence = [\<lparr>re_evidence_id = ev_id e, re_relation = fe_relation l, re_content_sha256 = ev_content_sha256 e,
           re_uri = ev_uri e, re_source_name = s_name s, re_linked_at = fe_linked_at l\<rparr>.
         (l, e, s) \<leftarrow> evidence_for_version db org (fv_id (sw_version row)),
         fe_linked_at l \<le> known_at \<and> ev_privacy_scope e \<in> set visible],
       rx_revoked_at = revoked (fv_id (sw_version row))\<rparr>)"

definition receipt :: "runtime \<Rightarrow> db \<Rightarrow> tenant_context \<Rightarrow> uuid \<Rightarrow> decision_receipt result" where
  "receipt R db ctx did =
     bindr (require_permission db ctx READ_DECISIONS) (\<lambda>role.
     let visible = visible_privacy_scopes role [ctx_max_privacy_scope ctx]; org = ctx_org ctx in
     bindr (some_or (get_decision db org did) (NotFoundError ''decision not found'')) (\<lambda>d.
     bindr (some_or (get_snapshot db org (d_snapshot_id d)) (NotFoundError ''context snapshot not found'')) (\<lambda>s.
     let rows = snapshot_rows db org (cs_id s); relied = relied_on_rows db org (d_id d);
         revoked = revocation_times db org (map (\<lambda>r. fv_id (sw_version r)) rows) in
     bindr (decision_seal R d s rows relied) (\<lambda>recomputed.
     Inr \<lparr>dr_decision_id = d_id d, dr_organization_id = d_org d, dr_action = d_action d, dr_outcome = d_outcome d,
       dr_rationale = d_rationale d, dr_agent = d_agent d, dr_decided_by_user_id = d_decided_by_user_id d,
       dr_decided_at = d_decided_at d,
       dr_context = \<lparr>rcx_snapshot_id = cs_id s, rcx_query = cs_query s, rcx_valid_at = cs_valid_at s, rcx_known_at = cs_known_at s,
         rcx_embedding_model = cs_embedding_model s, rcx_vector_search = cs_vector_search s,
         rcx_privacy_scopes = cs_privacy_scopes s, rcx_parameters = cs_parameters s,
         rcx_captured_by_user_id = cs_captured_by_user_id s\<rparr>,
       dr_facts = map (receipt_fact_of db org visible (cs_known_at s) relied revoked) rows,
       dr_receipt_sha256 = d_receipt_sha256 d, dr_integrity_verified = (recomputed = d_receipt_sha256 d)\<rparr>))))"

text \<open>The transaction of \<^verbatim>\<open>record_decision\<close>: the id of the stored decision.\<close>

definition store_decision ::
  "runtime \<Rightarrow> txn \<Rightarrow> tenant_context \<Rightarrow> record_decision_command \<Rightarrow> db \<Rightarrow> (uuid \<times> db) result" where
  "store_decision R t ctx command db =
     bindr (normalize_action (rd_action command)) (\<lambda>action.
     bindr (validate_outcome R (rd_outcome command)) (\<lambda>outcome.
     bindr (normalize_rationale (rd_rationale command)) (\<lambda>rationale.
     bindr (normalize_agent (rd_agent command)) (\<lambda>agent.
     bindr (require_permission db ctx RECORD_DECISIONS) (\<lambda>_.
     bindr (some_or (get_snapshot db (ctx_org ctx) (rd_snapshot_id command)) (NotFoundError ''context snapshot not found'')) (\<lambda>s.
     let rows = snapshot_rows db (ctx_org ctx) (cs_id s) in
     bindr (validate_relied_on (rd_relied_on command) (map (\<lambda>r. fv_id (sw_version r)) rows)) (\<lambda>relied.
     let d = \<lparr>d_id = t_ids t 0, d_org = ctx_org ctx, d_snapshot_id = cs_id s, d_decided_by_user_id = ctx_user ctx,
         d_agent = agent, d_action = action, d_outcome = outcome, d_rationale = rationale, d_decided_at = t_clock t,
         d_receipt_sha256 = replicate 64 (CHR ''0'')\<rparr> in
     bindr (decision_seal R d s rows relied) (\<lambda>seal.
     bindr (add_decision (d\<lparr>d_receipt_sha256 := seal\<rparr>)
         (map (\<lambda>v. \<lparr>df_org = ctx_org ctx, df_decision_id = d_id d, df_snapshot_id = cs_id s, df_fact_version_id = v\<rparr>) relied) db) (\<lambda>db'.
     Inr (d_id d, db'))))))))))"

text \<open>The decision is committed before its receipt is read in a second transaction.\<close>

definition record_decision ::
  "runtime \<Rightarrow> txn \<Rightarrow> tenant_context \<Rightarrow> record_decision_command \<Rightarrow> db \<Rightarrow> db \<times> decision_receipt result" where
  "record_decision R t ctx command db = (case store_decision R t ctx command db of
      Inl e \<Rightarrow> (db, Inl e)
    | Inr (did, db') \<Rightarrow> (db', receipt R db' ctx did))"

definition decisions_relying_on :: "db \<Rightarrow> tenant_context \<Rightarrow> uuid \<Rightarrow> uuid list result" where
  "decisions_relying_on db ctx vid =
     bindr (require_permission db ctx READ_DECISIONS) (\<lambda>_.
     Inr (map d_id (decisions_relying_on_rows db (ctx_org ctx) vid)))"

section \<open>Joins along foreign keys\<close>

text \<open>A join column that is a key contributes the one row it refers to.\<close>

lemma concat_map_Nil: "(\<And>x. x \<in> set xs \<Longrightarrow> g x = []) \<Longrightarrow> concat (map g xs) = []"
  by simp

lemma concat_map_key:
  assumes d: "distinct (map k xs)" and x: "x \<in> set xs" and others: "\<And>y. k y \<noteq> k x \<Longrightarrow> g y = []" and r: "g x = r"
  shows "concat (map g xs) = r"
proof -
  obtain as bs where xs: "xs = as @ x # bs" using x by (meson split_list)
  have "\<forall>y \<in> set as \<union> set bs. k y \<noteq> k x" using d unfolding xs by (auto dest: sym)
  then have "\<forall>y \<in> set as \<union> set bs. g y = []" using others by blast
  then have e: "concat (map g as) = []" "concat (map g bs) = []" by simp_all
  show ?thesis by (simp only: xs map_append list.map concat_append concat.simps e r append_Nil append_Nil2)
qed

lemma concat_map_filter:
  "(\<And>x. x \<in> set xs \<Longrightarrow> g x = (if P x then [h x] else [])) \<Longrightarrow> concat (map g xs) = map h (filter P xs)"
  by (induction xs) auto

text \<open>A version of the ledger with everything a row shows of it.\<close>

definition joined :: "db \<Rightarrow> fact_version \<Rightarrow> fact \<Rightarrow> entity \<Rightarrow> fact_source \<Rightarrow> bool" where
  "joined db v f e s \<longleftrightarrow> v \<in> set (fact_versions db) \<and> f \<in> set (facts db) \<and> e \<in> set (entities db) \<and> s \<in> set (sources db) \<and>
     f_org f = fv_org v \<and> f_id f = fv_fact_id v \<and> en_org e = f_org f \<and> en_id e = f_entity_id f \<and>
     s_org s = fv_org v \<and> s_id s = fv_source_id v"

lemma joined_exists:
  assumes ok: "ledger_ok db" and v: "v \<in> set (fact_versions db)"
  obtains f e s where "joined db v f e s"
proof -
  obtain f s where f: "f \<in> set (facts db)" "f_org f = fv_org v" "f_id f = fv_fact_id v"
    and s: "s \<in> set (sources db)" "s_org s = fv_org v" "s_id s = fv_source_id v"
    using ok v by (auto simp: ledger_ok_def version_fks_def)
  obtain e where e: "e \<in> set (entities db)" "en_org e = f_org f" "en_id e = f_entity_id f"
    using ok f(1) by (force simp: ledger_ok_def ledger_keys_ok_def)
  show ?thesis by (rule that [of f e s]) (use e f s v in \<open>simp add: joined_def\<close>)
qed

lemma ledger_distinct:
  assumes "ledger_ok db"
  shows "distinct (map fv_id (fact_versions db))" "distinct (map f_id (facts db))" "distinct (map en_id (entities db))"
    "distinct (map s_id (sources db))"
  using assms by (simp_all add: ledger_ok_def ledger_keys_ok_def)

definition row_of :: "snapshot_fact \<Rightarrow> fact_version \<Rightarrow> fact \<Rightarrow> entity \<Rightarrow> fact_source \<Rightarrow> snapshot_fact_row" where
  "row_of x v f e s = \<lparr>sw_snapshot_fact = x, sw_version = v, sw_property = f_property f, sw_entity_type = en_type e,
     sw_external_id = en_external_id e, sw_source_name = s_name s\<rparr>"

lemma snapshot_row_join:
  assumes ok: "ledger_ok db" and j: "joined db v f e s" and x: "sf_org x = fv_org v" "sf_fact_version_id x = fv_id v"
  shows "concat (map (\<lambda>v. concat (map (\<lambda>f. concat (map (\<lambda>e. concat (map (\<lambda>s.
      if fv_org v = sf_org x \<and> fv_id v = sf_fact_version_id x \<and> f_org f = fv_org v \<and> f_id f = fv_fact_id v \<and>
        en_org e = f_org f \<and> en_id e = f_entity_id f \<and> s_org s = fv_org v \<and> s_id s = fv_source_id v \<and>
        sf_org x = org \<and> sf_snapshot_id x = sid
      then [row_of x v f e s] else []) (sources db))) (entities db))) (facts db))) (fact_versions db)) =
    (if sf_org x = org \<and> sf_snapshot_id x = sid then [row_of x v f e s] else [])"
proof (rule concat_map_key [of fv_id _ v], goal_cases)
  case 4
  show ?case
  proof (rule concat_map_key [of f_id _ f], goal_cases)
    case 4
    show ?case
    proof (rule concat_map_key [of en_id _ e], goal_cases)
      case 4
      show ?case
        by (rule concat_map_key [of s_id _ s]) (use j x ledger_distinct [OF ok] in \<open>auto simp: joined_def\<close>)
    qed (use j ledger_distinct [OF ok] in \<open>auto simp: joined_def intro!: concat_map_Nil\<close>)
  qed (use j ledger_distinct [OF ok] in \<open>auto simp: joined_def intro!: concat_map_Nil\<close>)
qed (use j x ledger_distinct [OF ok] in \<open>auto simp: joined_def intro!: concat_map_Nil\<close>)

section \<open>The invariant of the decision tables\<close>

definition decision_store_ok :: "db \<Rightarrow> bool" where
  "decision_store_ok db \<longleftrightarrow>
     distinct (map cs_id (snapshots db)) \<and> distinct (map d_id (decisions db)) \<and>
     distinct (map snapshot_fact_key (snapshot_facts db)) \<and>
     distinct (map (\<lambda>f. (sf_snapshot_id f, sf_position f)) (snapshot_facts db)) \<and>
     distinct (map (\<lambda>f. (df_decision_id f, df_fact_version_id f)) (decision_facts db)) \<and>
     list_all (snapshot_fact_refs db) (snapshot_facts db) \<and> list_all (decision_fact_refs db) (decision_facts db) \<and>
     (\<forall>d \<in> set (decisions db). (d_org d, d_snapshot_id d) \<in> (\<lambda>s. (cs_org s, cs_id s)) ` set (snapshots db))"

text \<open>The hash of a decision recomputed from the stored rows.\<close>

definition recomputed_hash :: "runtime \<Rightarrow> db \<Rightarrow> decision \<Rightarrow> string result" where
  "recomputed_hash R db d =
     bindr (some_or (get_snapshot db (d_org d) (d_snapshot_id d)) (NotFoundError ''context snapshot not found'')) (\<lambda>s.
     decision_seal R d s (snapshot_rows db (d_org d) (cs_id s)) (relied_on_rows db (d_org d) (d_id d)))"

definition sealed :: "runtime \<Rightarrow> db \<Rightarrow> bool" where
  "sealed R db \<longleftrightarrow> (\<forall>d \<in> set (decisions db). recomputed_hash R db d = Inr (d_receipt_sha256 d))"

text \<open>What of a row the hash covers.\<close>

definition hashed_part :: "snapshot_fact_row \<Rightarrow> uuid \<times> nat \<times> pyval" where
  "hashed_part r = (fv_id (sw_version r), sf_position (sw_snapshot_fact r), fv_value (sw_version r))"

lemma fact_digest_cong: "hashed_part r = hashed_part r' \<Longrightarrow> fact_digest R r = fact_digest R r'"
  by (simp add: fact_digest_def hashed_part_def)

lemma mapr_cong_map: "map p xs = map p ys \<Longrightarrow> (\<And>x y. p x = p y \<Longrightarrow> f x = f y) \<Longrightarrow> mapr f xs = mapr f ys"
proof (induction xs arbitrary: ys)
  case (Cons x xs)
  obtain y ys' where ys: "ys = y # ys'" "p x = p y" "map p xs = map p ys'" using Cons.prems(1) by (cases ys) auto
  have "f x = f y" "mapr f xs = mapr f ys'" using Cons.prems(2) [OF ys(2)] Cons.IH [OF ys(3) Cons.prems(2)] by simp_all
  then show ?case by (simp add: ys(1))
qed simp

lemma receipt_hash_relied:
  assumes "set rel = set rel'"
  shows "receipt_hash R (c\<lparr>ct_relied_on := rel\<rparr>) = receipt_hash R (c\<lparr>ct_relied_on := rel'\<rparr>)"
  using assms by (simp add: receipt_hash_def receipt_document_def)

lemma decision_seal_cong:
  assumes "map hashed_part rows = map hashed_part rows'" and "set rel = set rel'"
  shows "decision_seal R d s rows rel = decision_seal R d s rows' rel'"
proof -
  have m: "mapr (fact_digest R) rows = mapr (fact_digest R) rows'"
    by (rule mapr_cong_map [OF assms(1) fact_digest_cong])
  have "receipt_hash R \<lparr>ct_organization_id = d_org d, ct_decision_id = d_id d, ct_snapshot_id = cs_id s,
       ct_decided_at = d_decided_at d, ct_decided_by_user_id = d_decided_by_user_id d, ct_agent = d_agent d,
       ct_action = d_action d, ct_outcome = d_outcome d, ct_rationale = d_rationale d, ct_query = cs_query s,
       ct_valid_at = cs_valid_at s, ct_known_at = cs_known_at s, ct_embedding_model = cs_embedding_model s,
       ct_vector_search = cs_vector_search s, ct_privacy_scopes = cs_privacy_scopes s,
       ct_facts = ds, ct_relied_on = rel\<rparr> =
     receipt_hash R \<lparr>ct_organization_id = d_org d, ct_decision_id = d_id d, ct_snapshot_id = cs_id s,
       ct_decided_at = d_decided_at d, ct_decided_by_user_id = d_decided_by_user_id d, ct_agent = d_agent d,
       ct_action = d_action d, ct_outcome = d_outcome d, ct_rationale = d_rationale d, ct_query = cs_query s,
       ct_valid_at = cs_valid_at s, ct_known_at = cs_known_at s, ct_embedding_model = cs_embedding_model s,
       ct_vector_search = cs_vector_search s, ct_privacy_scopes = cs_privacy_scopes s,
       ct_facts = ds, ct_relied_on = rel'\<rparr>" for ds
    using receipt_hash_relied [OF assms(2), of R "\<lparr>ct_organization_id = d_org d, ct_decision_id = d_id d, ct_snapshot_id = cs_id s,
       ct_decided_at = d_decided_at d, ct_decided_by_user_id = d_decided_by_user_id d, ct_agent = d_agent d,
       ct_action = d_action d, ct_outcome = d_outcome d, ct_rationale = d_rationale d, ct_query = cs_query s,
       ct_valid_at = cs_valid_at s, ct_known_at = cs_known_at s, ct_embedding_model = cs_embedding_model s,
       ct_vector_search = cs_vector_search s, ct_privacy_scopes = cs_privacy_scopes s,
       ct_facts = ds, ct_relied_on = rel\<rparr>"] by simp
  then show ?thesis unfolding decision_seal_def decision_content_def m by (cases "mapr (fact_digest R) rows'") simp_all
qed

text \<open>A snapshot lists each of its facts once, in the order of the positions.\<close>

lemma snapshot_rows_joined:
  assumes ok: "ledger_ok db" and st: "decision_store_ok db"
  obtains h where "\<And>org sid. snapshot_rows db org sid = sort_key (\<lambda>r. sf_position (sw_snapshot_fact r))
      (map h (filter (\<lambda>x. sf_org x = org \<and> sf_snapshot_id x = sid) (snapshot_facts db)))"
    "\<And>x. x \<in> set (snapshot_facts db) \<Longrightarrow> \<exists>v f e s. joined db v f e s \<and> fv_org v = sf_org x \<and>
       fv_id v = sf_fact_version_id x \<and> h x = row_of x v f e s"
proof -
  have "\<forall>x \<in> set (snapshot_facts db). \<exists>r. \<exists>v f e s. joined db v f e s \<and> fv_org v = sf_org x \<and>
      fv_id v = sf_fact_version_id x \<and> r = row_of x v f e s"
  proof
    fix x assume "x \<in> set (snapshot_facts db)"
    then have "snapshot_fact_refs db x" using st by (simp add: decision_store_ok_def list_all_iff)
    then obtain v where v: "v \<in> set (fact_versions db)" "fv_org v = sf_org x" "fv_id v = sf_fact_version_id x"
      by (auto simp: snapshot_fact_refs_def)
    then show "\<exists>r. \<exists>v f e s. joined db v f e s \<and> fv_org v = sf_org x \<and> fv_id v = sf_fact_version_id x \<and> r = row_of x v f e s"
      using joined_exists [OF ok v(1)] by metis
  qed
  then obtain h where h: "\<forall>x \<in> set (snapshot_facts db). \<exists>v f e s. joined db v f e s \<and> fv_org v = sf_org x \<and>
      fv_id v = sf_fact_version_id x \<and> h x = row_of x v f e s"
    by (rule exE [OF bchoice])
  have "snapshot_rows db org sid = sort_key (\<lambda>r. sf_position (sw_snapshot_fact r))
      (map h (filter (\<lambda>x. sf_org x = org \<and> sf_snapshot_id x = sid) (snapshot_facts db)))" for org sid
    unfolding snapshot_rows_def row_of_def [symmetric]
  proof (rule arg_cong [of _ _ "sort_key _"], rule concat_map_filter, goal_cases)
    case (1 x)
    then obtain v f e s where "joined db v f e s" "sf_org x = fv_org v" "sf_fact_version_id x = fv_id v" "h x = row_of x v f e s"
      using h by metis
    then show ?case using snapshot_row_join [OF ok, of v f e s x org sid] by simp
  qed
  then show ?thesis using h that by blast
qed

lemma get_snapshot_SomeD: "get_snapshot db org sid = Some s \<Longrightarrow> s \<in> set (snapshots db) \<and> cs_org s = org \<and> cs_id s = sid"
  by (auto simp: get_snapshot_def dest!: find_SomeD)

lemma get_decision_SomeD: "get_decision db org did = Some d \<Longrightarrow> d \<in> set (decisions db) \<and> d_org d = org \<and> d_id d = did"
  by (auto simp: get_decision_def dest!: find_SomeD)

lemma get_snapshot_of_decision:
  assumes st: "decision_store_ok db" and d: "d \<in> set (decisions db)"
  shows "\<exists>s. get_snapshot db (d_org d) (d_snapshot_id d) = Some s"
proof -
  obtain s where s: "s \<in> set (snapshots db)" "cs_org s = d_org d" "cs_id s = d_snapshot_id d"
    using st d by (auto simp: decision_store_ok_def)
  moreover have "distinct (map cs_id (snapshots db))" using st by (simp add: decision_store_ok_def)
  ultimately have "get_snapshot db (d_org d) (d_snapshot_id d) = Some s"
    unfolding get_snapshot_def by (intro find_unique [of cs_id]) auto
  then show ?thesis by blast
qed

lemma get_decision_in:
  assumes "decision_store_ok db" and "d \<in> set (decisions db)"
  shows "get_decision db (d_org d) (d_id d) = Some d"
  using assms unfolding get_decision_def decision_store_ok_def by (intro find_unique [of d_id]) auto

lemma add_decision_Inr:
  assumes "add_decision d fs db = Inr db'"
  shows "db' = db\<lparr>decisions := decisions db @ [d], decision_facts := decision_facts db @ fs\<rparr>"
    "d_id d \<notin> d_id ` set (decisions db)" "decision_checks d"
    "distinct (map (\<lambda>f. (df_decision_id f, df_fact_version_id f)) (decision_facts db @ fs))"
    "list_all (decision_fact_refs db') fs"
proof -
  show *: "db' = db\<lparr>decisions := decisions db @ [d], decision_facts := decision_facts db @ fs\<rparr>"
    "d_id d \<notin> d_id ` set (decisions db)" "decision_checks d"
    "distinct (map (\<lambda>f. (df_decision_id f, df_fact_version_id f)) (decision_facts db @ fs))"
    using assms unfolding add_decision_def Let_def by (simp_all add: result_simps)
  have "list_all (decision_fact_refs (db\<lparr>decisions := decisions db @ [d]\<rparr>)) fs"
    using assms unfolding add_decision_def Let_def by (simp add: result_simps)
  then show "list_all (decision_fact_refs db') fs" by (simp add: *(1) decision_fact_refs_def [abs_def])
qed

text \<open>A receipt document can always be printed when the outcome can.\<close>

lemma those_map_Some: "(\<And>x. x \<in> set xs \<Longrightarrow> \<exists>y. f x = Some y) \<Longrightarrow> \<exists>ys. those (map f xs) = Some ys"
proof (induction xs)
  case (Cons a xs)
  obtain y ys where "f a = Some y" "those (map f xs) = Some ys" using Cons.IH Cons.prems by fastforce
  then show ?case by simp
qed simp

lemma json_dumps_strings: "\<exists>t. json_dumps opts fr (PList (map PStr xs)) = Some t"
  using those_map_Some [of xs "\<lambda>x. json_dumps opts fr (PStr x)"] by (auto simp: o_def)

lemma json_dumps_str_or_none: "\<exists>t. json_dumps opts fr (str_or_none x) = Some t"
  by (simp add: str_or_none_def split: option.split)

lemma receipt_hash_total:
  assumes "json_dumps canonical_opts (float_repr R) (ct_outcome c) = Some t"
  shows "\<exists>x. receipt_hash R c = Inr (sha256 R x)"
proof -
  let ?dump = "json_dumps canonical_opts (float_repr R)"
  let ?facts = "map (\<lambda>(version_id, position, digest). PDict [
          (''fact_version_id'', PStr (uuid_str version_id)), (''position'', PInt (int position)),
          (''value_sha256'', PStr digest), (''relied_on'', PBool (version_id \<in> set (ct_relied_on c)))])
        (sort_key (\<lambda>(version_id, position, digest). position) (ct_facts c))"
  obtain scopes where 1: "?dump (PList (map PStr (sort (map scope_str (ct_privacy_scopes c))))) = Some scopes"
    using json_dumps_strings by blast
  have "\<exists>ys. those (map ?dump ?facts) = Some ys" by (rule those_map_Some) auto
  then obtain facts where 2: "?dump (PList ?facts) = Some facts" by auto
  obtain agent rationale where 3: "?dump (str_or_none (ct_agent c)) = Some agent" "?dump (str_or_none (ct_rationale c)) = Some rationale"
    using json_dumps_str_or_none by blast
  have "\<exists>x. ?dump (receipt_document c) = Some x"
    unfolding receipt_document_def using 1 2 3 assms
    by (simp add: json_dumps.simps(6,8) del: json_dumps.simps(7))
  then show ?thesis by (auto simp: receipt_hash_def canonical_json_def)
qed

text \<open>Everything a stored decision is made of.\<close>

lemma store_decision_Inr:
  assumes "store_decision R t ctx cmd db = Inr (did, db')"
  obtains d s relied where "get_snapshot db (ctx_org ctx) (rd_snapshot_id cmd) = Some s"
    "db' = db\<lparr>decisions := decisions db @ [d], decision_facts := decision_facts db @
        map (\<lambda>v. \<lparr>df_org = ctx_org ctx, df_decision_id = did, df_snapshot_id = cs_id s, df_fact_version_id = v\<rparr>) relied\<rparr>"
    "d_id d = did" "d_org d = ctx_org ctx" "d_snapshot_id d = cs_id s" "did \<notin> d_id ` set (decisions db)" "decision_checks d"
    "decision_seal R d s (snapshot_rows db (ctx_org ctx) (cs_id s)) relied = Inr (d_receipt_sha256 d)"
    "distinct (rd_relied_on cmd)" "relied = sort (rd_relied_on cmd)"
    "set relied \<subseteq> (\<lambda>r. fv_id (sw_version r)) ` set (snapshot_rows db (ctx_org ctx) (cs_id s))"
    "distinct (map (\<lambda>f. (df_decision_id f, df_fact_version_id f)) (decision_facts db'))"
    "list_all (decision_fact_refs db') (drop (length (decision_facts db)) (decision_facts db'))"
proof -
  obtain s relied seal action outcome rationale agent where s: "get_snapshot db (ctx_org ctx) (rd_snapshot_id cmd) = Some s"
    and rel: "validate_relied_on (rd_relied_on cmd) (map (\<lambda>r. fv_id (sw_version r)) (snapshot_rows db (ctx_org ctx) (cs_id s))) = Inr relied"
    and seal: "decision_seal R \<lparr>d_id = t_ids t 0, d_org = ctx_org ctx, d_snapshot_id = cs_id s,
         d_decided_by_user_id = ctx_user ctx, d_agent = agent, d_action = action, d_outcome = outcome, d_rationale = rationale,
         d_decided_at = t_clock t, d_receipt_sha256 = replicate 64 (CHR ''0'')\<rparr> s (snapshot_rows db (ctx_org ctx) (cs_id s)) relied = Inr seal"
    and add: "add_decision \<lparr>d_id = t_ids t 0, d_org = ctx_org ctx, d_snapshot_id = cs_id s,
         d_decided_by_user_id = ctx_user ctx, d_agent = agent, d_action = action, d_outcome = outcome, d_rationale = rationale,
         d_decided_at = t_clock t, d_receipt_sha256 = seal\<rparr>
       (map (\<lambda>v. \<lparr>df_org = ctx_org ctx, df_decision_id = t_ids t 0, df_snapshot_id = cs_id s, df_fact_version_id = v\<rparr>) relied) db = Inr db'"
    and did: "did = t_ids t 0"
    using assms by (auto simp: store_decision_def Let_def bindr_eq_Inr requirer_eq_Inr some_or_eq_Inr)
  let ?d = "\<lparr>d_id = t_ids t 0, d_org = ctx_org ctx, d_snapshot_id = cs_id s,
         d_decided_by_user_id = ctx_user ctx, d_agent = agent, d_action = action, d_outcome = outcome, d_rationale = rationale,
         d_decided_at = t_clock t, d_receipt_sha256 = seal\<rparr>"
  have "decision_seal R ?d s (snapshot_rows db (ctx_org ctx) (cs_id s)) relied = Inr seal"
    using seal by (simp add: decision_seal_def decision_content_def)
  moreover have "distinct (rd_relied_on cmd)" "relied = sort (rd_relied_on cmd)"
      "set relied \<subseteq> (\<lambda>r. fv_id (sw_version r)) ` set (snapshot_rows db (ctx_org ctx) (cs_id s))"
    using rel by (auto simp: validate_relied_on_def result_simps)
  ultimately show ?thesis
    by (intro that [of s relied ?d]) (use s add_decision_Inr [OF add] did in simp_all)
qed

lemma snapshot_rows_cong:
  assumes "snapshot_facts db' = snapshot_facts db" "fact_versions db' = fact_versions db" "facts db' = facts db"
    "entities db' = entities db" "sources db' = sources db"
  shows "snapshot_rows db' org sid = snapshot_rows db org sid"
  unfolding snapshot_rows_def assms by (rule refl)

text \<open>Storing a decision keeps the tables well formed and every decision sealed.\<close>

lemma store_decision_ok:
  assumes st: "decision_store_ok db" and run: "store_decision R t ctx cmd db = Inr (did, db')"
  shows "decision_store_ok db'"
proof -
  obtain d s relied where s: "get_snapshot db (ctx_org ctx) (rd_snapshot_id cmd) = Some s"
    and db': "db' = db\<lparr>decisions := decisions db @ [d], decision_facts := decision_facts db @
        map (\<lambda>v. \<lparr>df_org = ctx_org ctx, df_decision_id = did, df_snapshot_id = cs_id s, df_fact_version_id = v\<rparr>) relied\<rparr>"
    and d: "d_id d = did" "d_org d = ctx_org ctx" "d_snapshot_id d = cs_id s" "did \<notin> d_id ` set (decisions db)"
    and dist: "distinct (map (\<lambda>f. (df_decision_id f, df_fact_version_id f)) (decision_facts db'))"
    and new: "list_all (decision_fact_refs db') (drop (length (decision_facts db)) (decision_facts db'))"
    by (rule store_decision_Inr [OF run]) (rule that)
  have old: "list_all (decision_fact_refs db') (decision_facts db)"
    using st by (auto simp: decision_store_ok_def list_all_iff decision_fact_refs_def db')
  have "list_all (decision_fact_refs db') (decision_facts db')"
    using old new by (simp add: db')
  moreover have "list_all (snapshot_fact_refs db') (snapshot_facts db')"
    using st by (simp add: decision_store_ok_def db' snapshot_fact_refs_def list_all_iff)
  moreover have "(d_org d, d_snapshot_id d) \<in> (\<lambda>s. (cs_org s, cs_id s)) ` set (snapshots db)"
    using get_snapshot_SomeD [OF s] d by force
  ultimately show ?thesis
    using st d dist unfolding decision_store_ok_def by (simp add: db')
qed

lemma store_decision_sealed:
  assumes st: "decision_store_ok db" and sl: "sealed R db" and run: "store_decision R t ctx cmd db = Inr (did, db')"
  shows "sealed R db'"
proof -
  obtain d s relied where s: "get_snapshot db (ctx_org ctx) (rd_snapshot_id cmd) = Some s"
    and db': "db' = db\<lparr>decisions := decisions db @ [d], decision_facts := decision_facts db @
        map (\<lambda>v. \<lparr>df_org = ctx_org ctx, df_decision_id = did, df_snapshot_id = cs_id s, df_fact_version_id = v\<rparr>) relied\<rparr>"
    and d: "d_id d = did" "d_org d = ctx_org ctx" "d_snapshot_id d = cs_id s" "did \<notin> d_id ` set (decisions db)"
    and seal: "decision_seal R d s (snapshot_rows db (ctx_org ctx) (cs_id s)) relied = Inr (d_receipt_sha256 d)"
    by (rule store_decision_Inr [OF run]) (rule that)
  have same: "snapshot_rows db' org sid = snapshot_rows db org sid" "get_snapshot db' org sid = get_snapshot db org sid" for org sid
    by (rule snapshot_rows_cong; simp add: db') (simp add: db' get_snapshot_def)
  have unused: "df_decision_id f \<noteq> did" if "f \<in> set (decision_facts db)" for f
    using st that d(4) by (auto simp: decision_store_ok_def list_all_iff decision_fact_refs_def)
  have rel: "relied_on_rows db' org i = relied_on_rows db org i @ (if org = ctx_org ctx \<and> i = did then relied else [])" for org i
    by (cases "org = ctx_org ctx \<and> i = did") (auto simp: relied_on_rows_def db' filter_map o_def)
  have none: "relied_on_rows db org did = []" for org
    using unused by (auto simp: relied_on_rows_def filter_empty_conv)
  have "recomputed_hash R db' x = Inr (d_receipt_sha256 x)" if x: "x \<in> set (decisions db')" for x
  proof (cases "x = d")
    case True
    have "get_snapshot db (ctx_org ctx) (cs_id s) = Some s" using s get_snapshot_SomeD [OF s] by simp
    then show ?thesis using seal d by (simp add: True recomputed_hash_def same rel none)
  next
    case False
    then have x: "x \<in> set (decisions db)" using x by (simp add: db')
    then have "d_id x \<noteq> did" using d(4) by auto
    then have "recomputed_hash R db' x = recomputed_hash R db x"
      by (simp add: recomputed_hash_def same rel)
    then show ?thesis using sl x by (simp add: sealed_def)
  qed
  then show ?thesis by (simp add: sealed_def)
qed

text \<open>Reading a receipt of a sealed decision.\<close>

lemma receipt_Inr:
  assumes st: "decision_store_ok db" and sl: "sealed R db" and d: "d \<in> set (decisions db)"
    and perm: "require_permission db ctx READ_DECISIONS = Inr role" and org: "d_org d = ctx_org ctx"
  obtains s r where "get_snapshot db (d_org d) (d_snapshot_id d) = Some s" "receipt R db ctx (d_id d) = Inr r"
    "dr_integrity_verified r" "dr_decision_id r = d_id d" "dr_receipt_sha256 r = d_receipt_sha256 d"
    "dr_facts r = map (receipt_fact_of db (ctx_org ctx) (visible_privacy_scopes role [ctx_max_privacy_scope ctx]) (cs_known_at s)
        (relied_on_rows db (ctx_org ctx) (d_id d))
        (revocation_times db (ctx_org ctx) (map (\<lambda>r. fv_id (sw_version r)) (snapshot_rows db (ctx_org ctx) (cs_id s)))))
      (snapshot_rows db (ctx_org ctx) (cs_id s))"
proof -
  obtain s where s: "get_snapshot db (d_org d) (d_snapshot_id d) = Some s" using get_snapshot_of_decision [OF st d] by blast
  have h: "recomputed_hash R db d = Inr (d_receipt_sha256 d)" using sl d by (simp add: sealed_def)
  have "\<exists>r. receipt R db ctx (d_id d) = Inr r \<and> dr_integrity_verified r \<and> dr_decision_id r = d_id d \<and>
      dr_receipt_sha256 r = d_receipt_sha256 d \<and>
      dr_facts r = map (receipt_fact_of db (ctx_org ctx) (visible_privacy_scopes role [ctx_max_privacy_scope ctx]) (cs_known_at s)
        (relied_on_rows db (ctx_org ctx) (d_id d))
        (revocation_times db (ctx_org ctx) (map (\<lambda>r. fv_id (sw_version r)) (snapshot_rows db (ctx_org ctx) (cs_id s)))))
      (snapshot_rows db (ctx_org ctx) (cs_id s))"
    using h s perm org get_decision_in [OF st d] by (simp add: receipt_def recomputed_hash_def Let_def)
  then show ?thesis using that [OF s] by blast
qed

lemma receipt_fact_fields [simp]:
  "rx_fact_version_id (receipt_fact_of db org vis k rel rv row) = fv_id (sw_version row)"
  "rx_position (receipt_fact_of db org vis k rel rv row) = sf_position (sw_snapshot_fact row)"
  "rx_relied_on (receipt_fact_of db org vis k rel rv row) = (fv_id (sw_version row) \<in> set rel)"
  "rx_privacy_scope (receipt_fact_of db org vis k rel rv row) = fv_privacy_scope (sw_version row)"
  "rx_redacted (receipt_fact_of db org vis k rel rv row) = (fv_privacy_scope (sw_version row) \<notin> set vis)"
  by (simp_all add: receipt_fact_of_def redacted_fact_def Let_def)

lemma snapshot_rows_facts:
  assumes ok: "ledger_ok db" and st: "decision_store_ok db"
  shows "map sw_snapshot_fact (snapshot_rows db org sid) =
      sort_key sf_position (filter (\<lambda>x. sf_org x = org \<and> sf_snapshot_id x = sid) (snapshot_facts db))"
    "\<And>r. r \<in> set (snapshot_rows db org sid) \<Longrightarrow> fv_id (sw_version r) = sf_fact_version_id (sw_snapshot_fact r)"
    "\<And>r. r \<in> set (snapshot_rows db org sid) \<Longrightarrow> sw_version r \<in> set (fact_versions db) \<and> fv_org (sw_version r) = org"
    "sorted_wrt (<) (map (\<lambda>r. sf_position (sw_snapshot_fact r)) (snapshot_rows db org sid))"
proof -
  let ?fs = "filter (\<lambda>x. sf_org x = org \<and> sf_snapshot_id x = sid) (snapshot_facts db)"
  obtain h where h: "\<And>org sid. snapshot_rows db org sid = sort_key (\<lambda>r. sf_position (sw_snapshot_fact r))
      (map h (filter (\<lambda>x. sf_org x = org \<and> sf_snapshot_id x = sid) (snapshot_facts db)))"
    and j: "\<And>x. x \<in> set (snapshot_facts db) \<Longrightarrow> \<exists>v f e s. joined db v f e s \<and> fv_org v = sf_org x \<and>
       fv_id v = sf_fact_version_id x \<and> h x = row_of x v f e s"
    by (rule snapshot_rows_joined [OF ok st]) (rule that)
  have sf: "sw_snapshot_fact (h x) = x" if "x \<in> set (snapshot_facts db)" for x
    using j [OF that] by (auto simp: row_of_def)
  have pos: "distinct (map sf_position ?fs)"
  proof (rule distinct_map_via [of "\<lambda>f. (sf_snapshot_id f, sf_position f)"])
    show "distinct (map (\<lambda>f. (sf_snapshot_id f, sf_position f)) ?fs)"
      using st by (simp add: decision_store_ok_def distinct_map_filter)
  qed simp
  have ids: "map sw_snapshot_fact (map h ?fs) = ?fs" unfolding map_map by (rule map_idI_on) (simp add: sf)
  have positions: "map (\<lambda>r. sf_position (sw_snapshot_fact r)) (map h ?fs) = map sf_position ?fs"
    using arg_cong [OF ids, of "map sf_position"] by (simp add: o_def)
  have "map sw_snapshot_fact (sort_key (\<lambda>r. sf_position (sw_snapshot_fact r)) (map h ?fs)) = sort_key sf_position ?fs"
  proof (rule map_sorted_distinct_set_unique [of sf_position])
    show "inj_on sf_position (set (map sw_snapshot_fact (sort_key (\<lambda>r. sf_position (sw_snapshot_fact r)) (map h ?fs))) \<union>
        set (sort_key sf_position ?fs))"
      using pos by (auto simp: distinct_map sf image_image inj_on_def)
    show "distinct (map sf_position (map sw_snapshot_fact (sort_key (\<lambda>r. sf_position (sw_snapshot_fact r)) (map h ?fs))))"
      unfolding map_map o_def distinct_map_sort_key
      by (rule subst [OF positions [unfolded map_map o_def, symmetric], of distinct]) (rule pos)
    show "distinct (map sf_position (sort_key sf_position ?fs))" using pos by (simp add: distinct_map_sort_key)
  qed (simp_all add: sf image_image o_def)
  then show facts: "map sw_snapshot_fact (snapshot_rows db org sid) = sort_key sf_position ?fs" by (simp add: h)
  show "fv_id (sw_version r) = sf_fact_version_id (sw_snapshot_fact r)" "sw_version r \<in> set (fact_versions db) \<and> fv_org (sw_version r) = org"
    if "r \<in> set (snapshot_rows db org sid)" for r
  proof -
    obtain x where "x \<in> set (snapshot_facts db)" "sf_org x = org" "r = h x" using \<open>r \<in> _\<close> by (auto simp: h)
    then show "fv_id (sw_version r) = sf_fact_version_id (sw_snapshot_fact r)" "sw_version r \<in> set (fact_versions db) \<and> fv_org (sw_version r) = org"
      using j [of x] by (auto simp: row_of_def joined_def)
  qed
  have "map (\<lambda>r. sf_position (sw_snapshot_fact r)) (snapshot_rows db org sid) = map sf_position (sort_key sf_position ?fs)"
    using arg_cong [OF facts, of "map sf_position"] by (simp add: o_def)
  then show "sorted_wrt (<) (map (\<lambda>r. sf_position (sw_snapshot_fact r)) (snapshot_rows db org sid))"
    using pos by (simp add: strict_sorted_iff distinct_map_sort_key)
qed

lemma add_snapshot_Inr:
  assumes "add_snapshot s fs db = Inr db'"
  shows "db' = db\<lparr>snapshots := snapshots db @ [s], snapshot_facts := snapshot_facts db @ fs\<rparr>"
    "cs_id s \<notin> cs_id ` set (snapshots db)"
    "distinct (map snapshot_fact_key (snapshot_facts db @ fs))"
    "distinct (map (\<lambda>f. (sf_snapshot_id f, sf_position f)) (snapshot_facts db @ fs))"
    "list_all (snapshot_fact_refs db') fs"
proof -
  show *: "db' = db\<lparr>snapshots := snapshots db @ [s], snapshot_facts := snapshot_facts db @ fs\<rparr>"
    "cs_id s \<notin> cs_id ` set (snapshots db)"
    "distinct (map snapshot_fact_key (snapshot_facts db @ fs))"
    "distinct (map (\<lambda>f. (sf_snapshot_id f, sf_position f)) (snapshot_facts db @ fs))"
    using assms unfolding add_snapshot_def Let_def by (simp_all add: result_simps)
  have "list_all (snapshot_fact_refs (db\<lparr>snapshots := snapshots db @ [s]\<rparr>)) fs"
    using assms unfolding add_snapshot_def Let_def by (simp add: result_simps)
  then show "list_all (snapshot_fact_refs db') fs" by (simp add: *(1) snapshot_fact_refs_def [abs_def])
qed

lemma add_snapshot_ok:
  assumes st: "decision_store_ok db" and run: "add_snapshot s fs db = Inr db'"
  shows "decision_store_ok db'"
proof -
  note add = add_snapshot_Inr [OF run]
  have "list_all (snapshot_fact_refs db') (snapshot_facts db)"
    using st by (auto simp: decision_store_ok_def list_all_iff snapshot_fact_refs_def add(1))
  moreover have "list_all (decision_fact_refs db') (decision_facts db)"
    using st by (auto simp: decision_store_ok_def list_all_iff decision_fact_refs_def add(1))
  ultimately show ?thesis using st add(2-5) unfolding decision_store_ok_def by (auto simp: add(1))
qed

lemma snapshot_rows_other:
  assumes tables: "snapshot_facts db' = snapshot_facts db @ fs" "fact_versions db' = fact_versions db" "facts db' = facts db"
    "entities db' = entities db" "sources db' = sources db" and other: "\<forall>f \<in> set fs. sf_snapshot_id f \<noteq> sid"
  shows "snapshot_rows db' org sid = snapshot_rows db org sid"
  unfolding snapshot_rows_def tables map_append concat_append
  by (rule arg_cong [of _ _ "sort_key _"], subst concat_map_Nil [of fs])
    (use other in \<open>auto intro!: concat_map_Nil\<close>)

lemma snapshot_of_fact: "decision_store_ok db \<Longrightarrow> x \<in> set (snapshot_facts db) \<Longrightarrow> sf_snapshot_id x \<in> cs_id ` set (snapshots db)"
  by (auto simp: decision_store_ok_def list_all_iff snapshot_fact_refs_def)

lemma add_snapshot_sealed:
  assumes st: "decision_store_ok db" and sl: "sealed R db" and run: "add_snapshot s fs db = Inr db'"
    and new: "\<forall>f \<in> set fs. sf_snapshot_id f = cs_id s"
  shows "sealed R db'"
proof -
  note add = add_snapshot_Inr [OF run]
  have "recomputed_hash R db' d = recomputed_hash R db d" if d: "d \<in> set (decisions db)" for d
  proof -
    obtain x where x: "get_snapshot db (d_org d) (d_snapshot_id d) = Some x" using get_snapshot_of_decision [OF st d] by blast
    then have "cs_id x \<noteq> cs_id s" using get_snapshot_SomeD [OF x] add(2) by (metis image_eqI)
    then have "snapshot_rows db' (d_org d) (cs_id x) = snapshot_rows db (d_org d) (cs_id x)"
      using new by (intro snapshot_rows_other [of _ _ fs]) (auto simp: add(1))
    moreover have "get_snapshot db' (d_org d) (d_snapshot_id d) = Some x"
      using x by (simp add: get_snapshot_def add(1) find_append)
    ultimately show ?thesis using x by (simp add: recomputed_hash_def relied_on_rows_def add(1))
  qed
  then show ?thesis using sl by (simp add: sealed_def add(1))
qed

lemma capture_context_Inr:
  assumes "capture_context R eg pr ix t t' clock db0 db1 db2 ctx request db = Inr (c, db')"
  obtains s fs where "add_snapshot s fs db = Inr db'" "cs_id s = cc_snapshot_id c" "cs_org s = ctx_org ctx"
    "cs_known_at s = cc_known_at c" "cs_valid_at s = cc_valid_at c"
    "fs = map (\<lambda>(position, result). \<lparr>sf_org = ctx_org ctx, sf_snapshot_id = cs_id s,
           sf_fact_version_id = vs_id (rt_version result), sf_position = position,
           sf_ranking = ranking_object (rt_ranking result)\<rparr>) (enumerate 1 (rr_results (cc_retrieval c)))"
    "\<exists>stored. search eg pr ix None clock db1 db2 ctx
       (request\<lparr>rq_valid_at := Some (Aware (cc_valid_at c)), rq_known_at := Some (Aware (cc_known_at c))\<rparr>) = Inr (cc_retrieval c, stored)"
    "rq_known_at request = None \<longrightarrow> cc_known_at c = t_clock t"
  using assms by (auto simp: capture_context_def Let_def result_simps split: prod.splits option.splits)

text \<open>The facts of the new snapshot are its retrieval results, at the positions 1, 2, 3, ...\<close>

lemma captured_rows:
  assumes st: "decision_store_ok db" and ok: "ledger_ok db" and run: "add_snapshot s fs db = Inr db'"
    and fs: "fs = map (\<lambda>(position, result). \<lparr>sf_org = cs_org s, sf_snapshot_id = cs_id s,
           sf_fact_version_id = vs_id (rt_version result), sf_position = position,
           sf_ranking = ranking_object (rt_ranking result)\<rparr>) (enumerate 1 results)"
  shows "map sw_snapshot_fact (snapshot_rows db' (cs_org s) (cs_id s)) = fs"
    "map (\<lambda>r. fv_id (sw_version r)) (snapshot_rows db' (cs_org s) (cs_id s)) = map (\<lambda>x. vs_id (rt_version x)) results"
    "map (\<lambda>r. sf_position (sw_snapshot_fact r)) (snapshot_rows db' (cs_org s) (cs_id s)) = [1..<Suc (length results)]"
proof -
  note add = add_snapshot_Inr [OF run]
  have ok': "ledger_ok db'" using ok ledger_ok_cong [of db' db] by (simp add: add(1))
  have old: "filter (\<lambda>x. sf_org x = cs_org s \<and> sf_snapshot_id x = cs_id s) (snapshot_facts db) = []"
    using snapshot_of_fact [OF st] add(2) unfolding filter_empty_conv by metis
  have all: "filter (\<lambda>x. sf_org x = cs_org s \<and> sf_snapshot_id x = cs_id s) fs = fs"
    by (auto simp: fs filter_id_conv)
  have pos: "map sf_position fs = [1..<Suc (length results)]"
    unfolding fs by (simp add: o_def case_prod_beta' enumerate_eq_zip del: upt_Suc)
  have "sort_key sf_position fs = fs"
    by (rule sort_key_id_if_sorted) (simp only: pos sorted_upt)
  then show facts: "map sw_snapshot_fact (snapshot_rows db' (cs_org s) (cs_id s)) = fs"
    using snapshot_rows_facts(1) [OF ok' add_snapshot_ok [OF st run]] by (simp add: add(1) old all)
  have "map (\<lambda>r. fv_id (sw_version r)) (snapshot_rows db' (cs_org s) (cs_id s)) =
      map (\<lambda>r. sf_fact_version_id (sw_snapshot_fact r)) (snapshot_rows db' (cs_org s) (cs_id s))"
    using snapshot_rows_facts(2) [OF ok' add_snapshot_ok [OF st run]] by simp
  also have "\<dots> = map sf_fact_version_id fs" using arg_cong [OF facts, of "map sf_fact_version_id"] by (simp add: o_def)
  also have "\<dots> = map (\<lambda>x. vs_id (rt_version x)) results"
    unfolding fs by (rule nth_equalityI) (simp_all add: nth_enumerate_eq)
  finally show "map (\<lambda>r. fv_id (sw_version r)) (snapshot_rows db' (cs_org s) (cs_id s)) = map (\<lambda>x. vs_id (rt_version x)) results" .
  show "map (\<lambda>r. sf_position (sw_snapshot_fact r)) (snapshot_rows db' (cs_org s) (cs_id s)) = [1..<Suc (length results)]"
    using arg_cong [OF facts, of "map sf_position"] pos by (simp add: o_def del: upt_Suc)
qed

section \<open>Properties\<close>


text \<open>A database with one snapshot of the recorded credit limit, for the witnesses.\<close>

definition sample_snapshot :: context_snapshot where
  "sample_snapshot = \<lparr>cs_id = 810, cs_org = 200, cs_captured_by_user_id = 100, cs_query = ''credit limit'', cs_valid_at = 25,
     cs_known_at = 25, cs_embedding_model = ''toy'', cs_vector_search = ''unavailable'', cs_privacy_scopes = [PUBLIC, INTERNAL],
     cs_parameters = PDict [], cs_created_at = 26\<rparr>"

definition snapshot_db :: db where
  "snapshot_db = one_version_db\<lparr>snapshots := [sample_snapshot],
     snapshot_facts := [\<lparr>sf_org = 200, sf_snapshot_id = 810, sf_fact_version_id = fv_id first_version, sf_position = 1,
        sf_ranking = PDict []\<rparr>]\<rparr>"

definition sample_decision :: record_decision_command where
  "sample_decision = \<lparr>rd_snapshot_id = 810, rd_action = ''credit.approve'', rd_outcome = PBool True,
     rd_relied_on = [fv_id first_version], rd_rationale = None, rd_agent = None\<rparr>"

lemma snapshot_db_ok: "decision_store_ok snapshot_db" "sealed R snapshot_db"
proof -
  show "decision_store_ok snapshot_db" by code_simp
  show "sealed R snapshot_db" by (simp add: sealed_def snapshot_db_def sample_defs)
qed

lemma sample_decision_run:
  obtains db' where "store_decision toy_runtime (sample_txn 820 40) admin_ctx sample_decision snapshot_db = Inr (820, db')"
    "decisions db' \<noteq> []" "\<forall>d \<in> set (decisions db'). d_id d = 820 \<and> d_org d = 200"
    "require_permission db' admin_ctx READ_DECISIONS = Inr ADMIN" "ledger_ok db'"
proof -
  let ?rows = "snapshot_rows snapshot_db 200 810"
  let ?d = "\<lparr>d_id = 820, d_org = 200, d_snapshot_id = 810, d_decided_by_user_id = 100, d_agent = None,
     d_action = ''credit.approve'', d_outcome = PBool True, d_rationale = None, d_decided_at = 40,
     d_receipt_sha256 = replicate 64 (CHR ''0'')\<rparr>"
  have out: "validate_outcome toy_runtime (PBool True) = Inr (PBool True)"
    by (simp add: validate_outcome_def validate_fact_value_def length_limits)
  have act: "normalize_action ''credit.approve'' = Inr ''credit.approve''" by code_simp
  have pat: "identifier_pattern ''credit.approve''" by code_simp
  have perm: "require_permission snapshot_db admin_ctx RECORD_DECISIONS = Inr ADMIN" by code_simp
  have snap: "get_snapshot snapshot_db 200 810 = Some sample_snapshot" by code_simp
  have rel: "validate_relied_on [fv_id first_version] (map (\<lambda>r. fv_id (sw_version r)) ?rows) = Inr [fv_id first_version]" by code_simp
  have rows: "map (\<lambda>r. fv_value (sw_version r)) ?rows = [PInt 5000]" by code_simp
  have "\<exists>c. decision_content toy_runtime ?d sample_snapshot ?rows [fv_id first_version] = Inr c \<and> ct_outcome c = PBool True"
    using rows by (auto simp: decision_content_def fact_digest_def value_sha256_def canonical_json_def)
  then obtain c where c: "decision_content toy_runtime ?d sample_snapshot ?rows [fv_id first_version] = Inr c" "ct_outcome c = PBool True"
    by blast
  then obtain x where "decision_seal toy_runtime ?d sample_snapshot ?rows [fv_id first_version] = Inr (sha256 toy_runtime x)"
    using receipt_hash_total [of toy_runtime c] by (auto simp: decision_seal_def)
  moreover have "hex64 (sha256 toy_runtime x)"
    by (simp add: toy_runtime_def hex64_def hex_digit_def is_digit_def) presburger
  ultimately obtain h where h: "decision_seal toy_runtime ?d sample_snapshot ?rows [fv_id first_version] = Inr h" "hex64 h" by blast
  let ?db = "snapshot_db\<lparr>decisions := [?d\<lparr>d_receipt_sha256 := h\<rparr>], decision_facts :=
      [\<lparr>df_org = 200, df_decision_id = 820, df_snapshot_id = 810, df_fact_version_id = fv_id first_version\<rparr>]\<rparr>"
  have "store_decision toy_runtime (sample_txn 820 40) admin_ctx sample_decision snapshot_db = Inr (820, ?db)"
    using out act perm snap rel h pat
    by (simp add: store_decision_def sample_decision_def sample_txn_def admin_ctx_def normalize_rationale_def normalize_agent_def
        sample_snapshot_def Let_def add_decision_def decision_checks_def decision_fact_refs_def snapshot_db_def sample_defs)
  moreover have "require_permission ?db admin_ctx READ_DECISIONS = require_permission one_version_db admin_ctx READ_DECISIONS"
    by (simp add: require_permission_def active_membership_def get_membership_def get_user_def snapshot_db_def)
  moreover have "require_permission one_version_db admin_ctx READ_DECISIONS = Inr ADMIN" by code_simp
  moreover have "ledger_ok ?db" using one_version_ledger ledger_ok_cong [of ?db one_version_db] by (simp add: snapshot_db_def)
  ultimately show ?thesis using that [of ?db] by simp
qed


text \<open>
  C16. A receipt shows the frozen context: every fact of the decision's snapshot once, in the
  order of the positions, shown as it was known at the snapshot's time if the reader may see
  its privacy scope, and otherwise with its identity and nothing of its content; linked
  evidence is shown only if it was linked by then and is in a visible scope.
\<close>

theorem receipt_shows_context:
  assumes ok: "ledger_ok db" and st: "decision_store_ok db" and sl: "sealed R db" and d: "d \<in> set (decisions db)"
    and perm: "require_permission db ctx READ_DECISIONS = Inr role" and org: "d_org d = ctx_org ctx"
    and visible: "visible = set (visible_privacy_scopes role [ctx_max_privacy_scope ctx])"
  shows "\<exists>r s. receipt R db ctx (d_id d) = Inr r \<and> get_snapshot db (d_org d) (d_snapshot_id d) = Some s \<and>
    map (\<lambda>x. (rx_position x, rx_fact_version_id x)) (dr_facts r) = map (\<lambda>f. (sf_position f, sf_fact_version_id f))
      (sort_key sf_position (filter (\<lambda>f. sf_org f = d_org d \<and> sf_snapshot_id f = d_snapshot_id d) (snapshot_facts db))) \<and>
    (\<forall>x \<in> set (dr_facts r). \<exists>v \<in> set (fact_versions db). fv_id v = rx_fact_version_id x \<and> fv_org v = d_org d \<and>
      (if fv_privacy_scope v \<in> visible
       then \<not> rx_redacted x \<and> rx_version x = Some (as_known (to_snapshot v) (Some (cs_known_at s)))
       else rx_redacted x \<and> rx_version x = None \<and> rx_entity_type x = None \<and> rx_external_id x = None \<and>
         rx_property x = None \<and> rx_source_name x = None \<and> rx_ranking x = PDict [] \<and> rx_evidence x = []) \<and>
      (\<forall>y \<in> set (rx_evidence x). re_linked_at y \<le> cs_known_at s \<and>
         (\<exists>e \<in> set (evidence_rows db). ev_id e = re_evidence_id y \<and> ev_privacy_scope e \<in> visible)))"
proof -
  obtain s r where s: "get_snapshot db (d_org d) (d_snapshot_id d) = Some s" and r: "receipt R db ctx (d_id d) = Inr r"
    and fs: "dr_facts r = map (receipt_fact_of db (ctx_org ctx) (visible_privacy_scopes role [ctx_max_privacy_scope ctx]) (cs_known_at s)
        (relied_on_rows db (ctx_org ctx) (d_id d))
        (revocation_times db (ctx_org ctx) (map (\<lambda>r. fv_id (sw_version r)) (snapshot_rows db (ctx_org ctx) (cs_id s)))))
      (snapshot_rows db (ctx_org ctx) (cs_id s))"
    by (rule receipt_Inr [OF st sl d perm org])
  let ?rows = "snapshot_rows db (ctx_org ctx) (cs_id s)"
  note rows = snapshot_rows_facts [OF ok st, where org = "ctx_org ctx" and sid = "cs_id s"]
  have sid: "cs_id s = d_snapshot_id d" using get_snapshot_SomeD [OF s] by simp
  have "map (\<lambda>x. (rx_position x, rx_fact_version_id x)) (dr_facts r) =
      map (\<lambda>row. (sf_position (sw_snapshot_fact row), sf_fact_version_id (sw_snapshot_fact row))) ?rows"
    by (simp add: fs rows(2))
  also have "\<dots> = map (\<lambda>f. (sf_position f, sf_fact_version_id f)) (map sw_snapshot_fact ?rows)" by simp
  finally have ids: "map (\<lambda>x. (rx_position x, rx_fact_version_id x)) (dr_facts r) = map (\<lambda>f. (sf_position f, sf_fact_version_id f))
      (sort_key sf_position (filter (\<lambda>f. sf_org f = d_org d \<and> sf_snapshot_id f = d_snapshot_id d) (snapshot_facts db)))"
    by (simp only: rows(1) [unfolded sid] sid org)
  have "\<exists>v \<in> set (fact_versions db). fv_id v = rx_fact_version_id x \<and> fv_org v = d_org d \<and>
      (if fv_privacy_scope v \<in> visible
       then \<not> rx_redacted x \<and> rx_version x = Some (as_known (to_snapshot v) (Some (cs_known_at s)))
       else rx_redacted x \<and> rx_version x = None \<and> rx_entity_type x = None \<and> rx_external_id x = None \<and>
         rx_property x = None \<and> rx_source_name x = None \<and> rx_ranking x = PDict [] \<and> rx_evidence x = []) \<and>
      (\<forall>y \<in> set (rx_evidence x). re_linked_at y \<le> cs_known_at s \<and>
         (\<exists>e \<in> set (evidence_rows db). ev_id e = re_evidence_id y \<and> ev_privacy_scope e \<in> visible))"
    if "x \<in> set (dr_facts r)" for x
  proof -
    obtain row where row: "row \<in> set ?rows" and x: "x = receipt_fact_of db (ctx_org ctx)
        (visible_privacy_scopes role [ctx_max_privacy_scope ctx]) (cs_known_at s) (relied_on_rows db (ctx_org ctx) (d_id d))
        (revocation_times db (ctx_org ctx) (map (\<lambda>r. fv_id (sw_version r)) ?rows)) row"
      using \<open>x \<in> _\<close> by (auto simp: fs)
    show ?thesis
      by (rule bexI [of _ "sw_version row"])
        (use rows(3) [OF row] org in \<open>auto simp: x visible receipt_fact_of_def redacted_fact_def Let_def evidence_for_version_def\<close>)
  qed
  then show ?thesis using r s ids by blast
qed

text \<open>Witness: the receipt of the sample decision, read by the administrator.\<close>

theorem receipt_shows_context_witness:
  "\<exists>db' d r s. d \<in> set (decisions db') \<and> receipt toy_runtime db' admin_ctx (d_id d) = Inr r \<and>
     get_snapshot db' (d_org d) (d_snapshot_id d) = Some s \<and>
     (\<forall>x \<in> set (dr_facts r). \<exists>v \<in> set (fact_versions db'). fv_id v = rx_fact_version_id x)"
proof (rule sample_decision_run)
  fix db' assume run: "store_decision toy_runtime (sample_txn 820 40) admin_ctx sample_decision snapshot_db = Inr (820, db')"
    and ne: "decisions db' \<noteq> []" and ids: "\<forall>d \<in> set (decisions db'). d_id d = 820 \<and> d_org d = 200"
    and perm: "require_permission db' admin_ctx READ_DECISIONS = Inr ADMIN" and ok: "ledger_ok db'"
  have d: "hd (decisions db') \<in> set (decisions db')" using ne by simp
  have org: "d_org (hd (decisions db')) = ctx_org admin_ctx" using ids d by (simp add: admin_ctx_def)
  have st: "decision_store_ok db'" "sealed toy_runtime db'"
    using store_decision_ok [OF snapshot_db_ok(1) run] store_decision_sealed [OF snapshot_db_ok run] by blast+
  show ?thesis using receipt_shows_context [OF ok st d perm org refl] d by blast
qed

text \<open>
  C17. Capturing a context freezes what was retrieved: a committed \<^verbatim>\<open>capture_context\<close> keeps the
  decision tables well formed and every decision sealed, stores the retrieved versions in
  the order of the ranking at the positions 1, 2, 3, ..., and pins the time of knowledge to
  the database clock unless the caller pinned it.
\<close>

theorem capture_context_freezes:
  assumes ok: "ledger_ok db" and st: "decision_store_ok db" and sl: "sealed R db"
    and run: "capture_context R eg pr ix t t' clock db0 db1 db2 ctx request db = Inr (c, db')"
  shows "decision_store_ok db' \<and> sealed R db' \<and>
    (\<exists>s. get_snapshot db' (ctx_org ctx) (cc_snapshot_id c) = Some s \<and> cs_known_at s = cc_known_at c \<and>
       (rq_known_at request = None \<longrightarrow> cs_known_at s = t_clock t)) \<and>
    map (\<lambda>r. (sf_position (sw_snapshot_fact r), fv_id (sw_version r))) (snapshot_rows db' (ctx_org ctx) (cc_snapshot_id c)) =
      zip [1..<Suc (length (rr_results (cc_retrieval c)))] (map (\<lambda>x. vs_id (rt_version x)) (rr_results (cc_retrieval c)))"
proof -
  obtain s fs where add: "add_snapshot s fs db = Inr db'" and s: "cs_id s = cc_snapshot_id c" "cs_org s = ctx_org ctx"
      "cs_known_at s = cc_known_at c"
    and fs: "fs = map (\<lambda>(position, result). \<lparr>sf_org = ctx_org ctx, sf_snapshot_id = cs_id s,
           sf_fact_version_id = vs_id (rt_version result), sf_position = position,
           sf_ranking = ranking_object (rt_ranking result)\<rparr>) (enumerate 1 (rr_results (cc_retrieval c)))"
    and known: "rq_known_at request = None \<longrightarrow> cc_known_at c = t_clock t"
    by (rule capture_context_Inr [OF run]) (rule that)
  have st': "decision_store_ok db'" by (rule add_snapshot_ok [OF st add])
  moreover have "sealed R db'" by (rule add_snapshot_sealed [OF st sl add]) (auto simp: fs)
  moreover have "get_snapshot db' (ctx_org ctx) (cc_snapshot_id c) = Some s"
    using st' s add_snapshot_Inr(1) [OF add] unfolding get_snapshot_def decision_store_ok_def
    by (intro find_unique [of cs_id]) auto
  moreover have pairs: "map (\<lambda>r. (sf_position (sw_snapshot_fact r), fv_id (sw_version r))) rows =
      zip (map (\<lambda>r. sf_position (sw_snapshot_fact r)) rows) (map (\<lambda>r. fv_id (sw_version r)) rows)" for rows
    by (induction rows) auto
  have "map (\<lambda>r. (sf_position (sw_snapshot_fact r), fv_id (sw_version r))) (snapshot_rows db' (cs_org s) (cs_id s)) =
      zip [1..<Suc (length (rr_results (cc_retrieval c)))] (map (\<lambda>x. vs_id (rt_version x)) (rr_results (cc_retrieval c)))"
    unfolding pairs captured_rows(2,3) [OF st ok add fs [folded s(2)]] by (rule refl)
  ultimately show ?thesis using s known by simp
qed

text \<open>The sample question as known at 25 is answered with the one recorded version.\<close>

lemma sample_capture_search:
  obtains r where "search toy_engine toy_provider sample_index None 90 one_version_db one_version_db admin_ctx
      (sample_request\<lparr>rq_valid_at := Some (Aware 25), rq_known_at := Some (Aware 25)\<rparr>) = Inr (r, None)"
    "map (\<lambda>x. vs_id (rt_version x)) (rr_results r) = [fv_id first_version]"
proof -
  let ?req = "sample_request\<lparr>rq_valid_at := Some (Aware 25), rq_known_at := Some (Aware 25)\<rparr>"
  let ?sr = "sample_sr\<lparr>sr_valid_at := 25, sr_known_at := Some 25\<rparr>"
  let ?scopes = "visible_privacy_scopes ADMIN [rq_max_privacy_scope ?req, ctx_max_privacy_scope admin_ctx]"
  have req: "validate_request 90 ?req = Inr ?sr"
  proof -
    have "normalize_query (rq_query sample_request) = Inr ''credit limit''" by code_simp
    then show ?thesis
      by (simp add: validate_request_def sample_request_def sample_sr_def validate_limit_def MAX_LIMIT_def validate_trust_weight_def
          normalize_filters_def at_most_values_def check_min_confidence_def require_aware_def aware_opt_def)
  qed
  have cand: "candidates one_version_db toy_engine sample_index (ctx_org admin_ctx) (sr_query ?sr) None (pr_model_id toy_provider)
      (sr_valid_at ?sr) (sr_known_at ?sr) ?scopes (sr_filters ?sr) (nat (candidate_pool_size (sr_limit ?sr))) =
    ([], [\<lparr>th_fact_version_id = fv_id first_version, th_score = 1\<rparr>])"
    by code_simp
  have w: "0 \<le> sr_trust_weight ?sr" "sr_trust_weight ?sr \<le> 1" by (simp_all add: sample_sr_def)
  obtain r ranked where r: "search_database toy_engine sample_index one_version_db admin_ctx ?req ?sr None (pr_model_id toy_provider) Off = Inr r"
    and d: "distinct (map rc_fact_version_id ranked)"
    and all: "rc_fact_version_id ` set ranked = vh_fact_version_id ` set ([] :: vector_hit list) \<union> th_fact_version_id ` set [\<lparr>th_fact_version_id = fv_id first_version, th_score = 1\<rparr>]"
    and res: "list_all2 (\<lambda>c x. \<exists>v. in_scope one_version_db (ctx_org admin_ctx) (sr_valid_at ?sr) (sr_known_at ?sr) ?scopes (sr_filters ?sr) v \<and>
        fv_id v = rc_fact_version_id c \<and> rt_version x = as_known (to_snapshot v) (sr_known_at ?sr) \<and> rt_ranking x = c)
      (take (nat (sr_limit ?sr)) ranked) (rr_results r)"
    by (rule search_database_Inr [OF one_version_ledger toy_engine_ok sample_reader w refl cand, where st = Off]) (rule that)
  have "length (map rc_fact_version_id ranked) = card (set (map rc_fact_version_id ranked))" using d by (rule distinct_card [symmetric])
  then have "length ranked = 1" using all by simp
  then obtain c where "ranked = [c]" by (cases ranked) auto
  then have c: "ranked = [c]" "rc_fact_version_id c = fv_id first_version" using all by auto
  have "map (\<lambda>x. vs_id (rt_version x)) (rr_results r) = map rc_fact_version_id (take (nat (sr_limit ?sr)) ranked)"
    using res by (induction rule: list_all2_induct) auto
  then have "map (\<lambda>x. vs_id (rt_version x)) (rr_results r) = [fv_id first_version]" by (simp add: c sample_sr_def)
  moreover have "search toy_engine toy_provider sample_index None 90 one_version_db one_version_db admin_ctx ?req = Inr (r, None)"
    unfolding search_def req sample_reader bindr_simps Let_def cache_key_for_def using r by (simp add: toy_provider_def)
  ultimately show ?thesis by (intro that)
qed

text \<open>Witness: the sample request, captured when the database clock shows 25.\<close>

theorem capture_context_freezes_witness:
  "\<exists>c db'. capture_context toy_runtime toy_engine toy_provider sample_index (sample_txn 900 25) (sample_txn 910 26) 90
       one_version_db one_version_db one_version_db admin_ctx (sample_request\<lparr>rq_valid_at := None\<rparr>) one_version_db = Inr (c, db') \<and>
     cc_known_at c = 25 \<and> decision_store_ok db' \<and>
     map (\<lambda>r. (sf_position (sw_snapshot_fact r), fv_id (sw_version r))) (snapshot_rows db' (ctx_org admin_ctx) (cc_snapshot_id c)) =
       [(1, fv_id first_version)]"
proof -
  let ?run = "capture_context toy_runtime toy_engine toy_provider sample_index (sample_txn 900 25) (sample_txn 910 26) 90
       one_version_db one_version_db one_version_db admin_ctx (sample_request\<lparr>rq_valid_at := None\<rparr>) one_version_db"
  have perm: "require_permission one_version_db admin_ctx RECORD_DECISIONS = Inr ADMIN" by code_simp
  obtain r where r: "search toy_engine toy_provider sample_index None 90 one_version_db one_version_db admin_ctx
      (sample_request\<lparr>rq_valid_at := Some (Aware 25), rq_known_at := Some (Aware 25)\<rparr>) = Inr (r, None)"
    and ids: "map (\<lambda>x. vs_id (rt_version x)) (rr_results r) = [fv_id first_version]"
    by (rule sample_capture_search)
  obtain x where x: "rr_results r = [x]" "vs_id (rt_version x) = fv_id first_version" using ids by auto
  have "\<exists>c db'. ?run = Inr (c, db') \<and> cc_known_at c = 25 \<and> cc_retrieval c = r"
    using perm r x
    by (simp add: capture_context_def sample_txn_def sample_request_def Let_def add_snapshot_def snapshot_fact_refs_def
        search_status_str_def sample_defs split: vector_search_status.split)
  then obtain c db' where run: "?run = Inr (c, db')" and c: "cc_known_at c = 25" "cc_retrieval c = r" by blast
  have "decision_store_ok one_version_db" "sealed toy_runtime one_version_db"
    by (code_simp, simp add: sealed_def sample_defs)
  then show ?thesis
    using capture_context_freezes [OF one_version_ledger _ _ run] run c x by simp
qed

end
