(* ===== verification/Revocations.thy ===== *)
theory Revocations
  imports Decisions
begin

text \<open>
  Revocation of a fact version and its impact on decisions: \<^verbatim>\<open>models/revocation.py\<close> and
  \<^verbatim>\<open>services/revocations.py\<close>. Shown: a revocation keeps every table well formed and every decision
  sealed, a version is revoked at most once, the stored impact rows are exactly the
  decisions whose context held the version, and a report is complete.
\<close>

section \<open>Records and queries\<close>

definition MAX_REASON_CHARS :: nat where "MAX_REASON_CHARS = 2000"
definition MAX_LIST :: int where "MAX_LIST = 100"

record impacted_decision =
  im_decision_id :: uuid
  im_snapshot_id :: uuid
  im_action :: string
  im_agent :: "string option"
  im_decided_at :: instant
  im_relied_on :: bool
  im_recorded_at_revocation :: bool
  im_decided_after_revocation :: bool

record revocation_report =
  rp_revocation_id :: uuid
  rp_fact_id :: uuid
  rp_entity_type :: string
  rp_external_id :: string
  rp_property :: string
  rp_version :: version_snapshot
  rp_reason :: string
  rp_revoked_by_user_id :: uuid
  rp_revoked_at :: instant
  rp_decisions :: "impacted_decision list"
  rp_decisions_relied_on :: nat
  rp_decisions_with_version_in_context :: nat

definition relies_on :: "db \<Rightarrow> decision \<Rightarrow> uuid \<Rightarrow> bool" where
  "relies_on db d vid \<longleftrightarrow> (\<exists>f \<in> set (decision_facts db).
     df_org f = d_org d \<and> df_decision_id f = d_id d \<and> df_fact_version_id f = vid)"

text \<open>Decisions whose frozen context contained the version, oldest first.\<close>

definition decisions_with :: "db \<Rightarrow> uuid \<Rightarrow> uuid \<Rightarrow> (decision \<times> bool) list" where
  "decisions_with db org vid = sort_key (\<lambda>(d, relied). (d_decided_at d, d_id d))
     [(d, relies_on db d vid). d \<leftarrow> decisions db, x \<leftarrow> snapshot_facts db,
        sf_org x = d_org d \<and> sf_snapshot_id x = d_snapshot_id d \<and> d_org d = org \<and> sf_fact_version_id x = vid]"

text \<open>The row of the version with its fact and entity; \<^verbatim>\<open>one()\<close> raises unless there is exactly one.\<close>

definition version_fact_entity :: "db \<Rightarrow> uuid \<Rightarrow> uuid \<Rightarrow> (fact_version \<times> fact \<times> entity) list" where
  "version_fact_entity db org vid = [(v, f, e). v \<leftarrow> fact_versions db, f \<leftarrow> facts db, e \<leftarrow> entities db,
     f_org f = fv_org v \<and> f_id f = fv_fact_id v \<and> en_org e = f_org f \<and> en_id e = f_entity_id f \<and>
     fv_org v = org \<and> fv_id v = vid]"

definition one_row :: "'a list \<Rightarrow> 'a result" where
  "one_row rows = (case rows of [] \<Rightarrow> Inl (PyError ''NoResultFound'') | [r] \<Rightarrow> Inr r | _ \<Rightarrow> Inl (PyError ''MultipleResultsFound''))"

definition stored_impacts :: "db \<Rightarrow> uuid \<Rightarrow> uuid \<Rightarrow> uuid list" where
  "stored_impacts db org rid = map ri_decision_id (filter (\<lambda>i. ri_org i = org \<and> ri_revocation_id i = rid) (impacts db))"

definition report :: "db \<Rightarrow> uuid \<Rightarrow> fact_revocation \<Rightarrow> revocation_report result" where
  "report db org r =
     bindr (one_row (version_fact_entity db org (rv_fact_version_id r))) (\<lambda>(version, f, e). let
       stored = set (stored_impacts db org (rv_id r));
       ds = map (\<lambda>(d, relied). \<lparr>im_decision_id = d_id d, im_snapshot_id = d_snapshot_id d, im_action = d_action d,
           im_agent = d_agent d, im_decided_at = d_decided_at d, im_relied_on = relied,
           im_recorded_at_revocation = (d_id d \<in> stored), im_decided_after_revocation = (d_id d \<notin> stored)\<rparr>)
         (decisions_with db org (fv_id version)) in
     Inr \<lparr>rp_revocation_id = rv_id r, rp_fact_id = f_id f, rp_entity_type = en_type e, rp_external_id = en_external_id e,
       rp_property = f_property f, rp_version = to_snapshot version, rp_reason = rv_reason r,
       rp_revoked_by_user_id = rv_revoked_by_user_id r, rp_revoked_at = rv_revoked_at r, rp_decisions = ds,
       rp_decisions_relied_on = length (filter im_relied_on ds), rp_decisions_with_version_in_context = length ds\<rparr>)"

section \<open>Constraints\<close>

text \<open>The check trims spaces only, as \<^verbatim>\<open>btrim\<close> does.\<close>

definition revocation_insert_ok :: "db \<Rightarrow> fact_revocation \<Rightarrow> bool" where
  "revocation_insert_ok db r \<longleftrightarrow> rv_id r \<notin> rv_id ` set (revocations db) \<and>
     (rv_org r, rv_fact_version_id r) \<notin> (\<lambda>x. (rv_org x, rv_fact_version_id x)) ` set (revocations db) \<and>
     (\<exists>c \<in> set (rv_reason r). c \<noteq> CHR '' '') \<and>
     (rv_org r, rv_fact_version_id r) \<in> (\<lambda>v. (fv_org v, fv_id v)) ` set (fact_versions db) \<and>
     rv_revoked_by_user_id r \<in> u_id ` set (users db)"

definition impact_refs :: "db \<Rightarrow> revocation_impact \<Rightarrow> bool" where
  "impact_refs db i \<longleftrightarrow> (ri_org i, ri_revocation_id i) \<in> (\<lambda>r. (rv_org r, rv_id r)) ` set (revocations db) \<and>
     (ri_org i, ri_decision_id i, ri_snapshot_id i) \<in> decision_ref ` set (decisions db) \<and>
     (ri_snapshot_id i, ri_fact_version_id i) \<in> snapshot_fact_key ` set (snapshot_facts db)"

definition insert_revocation :: "fact_revocation \<Rightarrow> db \<Rightarrow> db result" where
  "insert_revocation r db = bindr (requirer (revocation_insert_ok db r) (IntegrityError ''fact_revocations''))
     (\<lambda>_. Inr (db\<lparr>revocations := revocations db @ [r]\<rparr>))"

definition insert_impacts :: "revocation_impact list \<Rightarrow> db \<Rightarrow> db result" where
  "insert_impacts is db = bindr (requirer
       (distinct (map (\<lambda>i. (ri_revocation_id i, ri_decision_id i)) (impacts db @ is)) \<and> list_all (impact_refs db) is)
       (IntegrityError ''revocation_impacts''))
     (\<lambda>_. Inr (db\<lparr>impacts := impacts db @ is\<rparr>))"

section \<open>The service\<close>

definition revoke ::
  "txn \<Rightarrow> tenant_context \<Rightarrow> uuid \<Rightarrow> string \<Rightarrow> uuid option \<Rightarrow> db \<Rightarrow> (revocation_report \<times> db) result" where
  "revoke t ctx fid reason0 version_id db = (let reason = strip reason0; org = ctx_org ctx in
     bindr (requirer (reason \<noteq> [] \<and> length reason \<le> MAX_REASON_CHARS)
        (ValidationFailedError ''reason must be 1-2000 characters'')) (\<lambda>_.
     bindr (require_permission db ctx WRITE_FACTS) (\<lambda>role.
     bindr (require_permission db ctx READ_DECISIONS) (\<lambda>_.
     bindr (some_or (get_fact_row db org fid) (NotFoundError ''fact not found'')) (\<lambda>_.
     bindr (some_or (case version_id of None \<Rightarrow> latest_version_row db org fid | Some i \<Rightarrow> get_version_row db org i)
        (NotFoundError ''fact version not found'')) (\<lambda>version.
     bindr (requirer (fv_fact_id version = fid \<and>
           fv_privacy_scope version \<in> set (visible_privacy_scopes role [ctx_max_privacy_scope ctx]))
        (NotFoundError ''fact version not found'')) (\<lambda>_.
     bindr (requirer (\<not> (\<exists>r \<in> set (revocations db). rv_org r = org \<and> rv_fact_version_id r = fv_id version))
        (ConflictError ''this fact version is already revoked'')) (\<lambda>_.
     let revocation = \<lparr>rv_id = t_ids t 0, rv_org = org, rv_fact_version_id = fv_id version, rv_reason = reason,
         rv_revoked_by_user_id = ctx_user ctx, rv_agent_client_id = ctx_agent_client_id ctx, rv_revoked_at = t_now t\<rparr> in
     bindr (insert_revocation revocation db) (\<lambda>db1.
     bindr (insert_impacts (map (\<lambda>(d, relied). \<lparr>ri_org = org, ri_revocation_id = rv_id revocation, ri_decision_id = d_id d,
           ri_snapshot_id = d_snapshot_id d, ri_fact_version_id = fv_id version, ri_relied_on = relied\<rparr>)
         (decisions_with db1 org (fv_id version))) db1) (\<lambda>db2.
     bindr (report db2 org revocation) (\<lambda>rep. Inr (rep, db2))))))))))))"

definition readable :: "db \<Rightarrow> tenant_context \<Rightarrow> privacy_scope list result" where
  "readable db ctx =
     bindr (require_permission db ctx READ_FACTS) (\<lambda>role.
     bindr (require_permission db ctx READ_DECISIONS) (\<lambda>_.
     Inr (visible_privacy_scopes role [ctx_max_privacy_scope ctx])))"

text \<open>Revocations of the tenant joined with their versions.\<close>

definition visible_revocations :: "db \<Rightarrow> uuid \<Rightarrow> privacy_scope list \<Rightarrow> (fact_version \<Rightarrow> bool) \<Rightarrow> fact_revocation list" where
  "visible_revocations db org visible P = [r. r \<leftarrow> revocations db, v \<leftarrow> fact_versions db,
     fv_org v = rv_org r \<and> fv_id v = rv_fact_version_id r \<and> rv_org r = org \<and> P v \<and> fv_privacy_scope v \<in> set visible]"

definition impact_of_fact :: "db \<Rightarrow> tenant_context \<Rightarrow> uuid \<Rightarrow> revocation_report list result" where
  "impact_of_fact db ctx fid =
     bindr (readable db ctx) (\<lambda>visible.
     bindr (some_or (get_fact_row db (ctx_org ctx) fid) (NotFoundError ''fact not found'')) (\<lambda>_.
     mapr (report db (ctx_org ctx))
       (sort_key rv_revoked_at (visible_revocations db (ctx_org ctx) visible (\<lambda>v. fv_fact_id v = fid)))))"

definition impact_of_version :: "db \<Rightarrow> tenant_context \<Rightarrow> uuid \<Rightarrow> revocation_report result" where
  "impact_of_version db ctx vid =
     bindr (readable db ctx) (\<lambda>visible.
     bindr (some_or (find (\<lambda>r. rv_fact_version_id r = vid) (visible_revocations db (ctx_org ctx) visible (\<lambda>_. True)))
        (NotFoundError ''revocation not found'')) (\<lambda>r.
     report db (ctx_org ctx) r))"

definition list_revocations :: "db \<Rightarrow> tenant_context \<Rightarrow> int \<Rightarrow> revocation_report list result" where
  "list_revocations db ctx limit =
     bindr (requirer (1 \<le> limit \<and> limit \<le> MAX_LIST) (ValidationFailedError ''limit must be between 1 and 100'')) (\<lambda>_.
     bindr (readable db ctx) (\<lambda>visible.
     mapr (report db (ctx_org ctx)) (take (nat limit) (sort_key (\<lambda>r. (- rv_revoked_at r, rv_id r))
       (visible_revocations db (ctx_org ctx) visible (\<lambda>_. True))))))"

section \<open>The invariant\<close>

definition revocations_ok :: "db \<Rightarrow> bool" where
  "revocations_ok db \<longleftrightarrow> distinct (map rv_id (revocations db)) \<and>
     distinct (map (\<lambda>r. (rv_org r, rv_fact_version_id r)) (revocations db)) \<and>
     distinct (map (\<lambda>i. (ri_revocation_id i, ri_decision_id i)) (impacts db)) \<and>
     list_all (impact_refs db) (impacts db) \<and>
     (\<forall>r \<in> set (revocations db). (rv_org r, rv_fact_version_id r) \<in> (\<lambda>v. (fv_org v, fv_id v)) ` set (fact_versions db))"

text \<open>Each decision is listed once: a context holds a version at most once.\<close>

lemma decisions_with_rows:
  assumes st: "decision_store_ok db"
  shows "decisions_with db org vid = map (\<lambda>d. (d, relies_on db d vid)) (sort_key (\<lambda>d. (d_decided_at d, d_id d))
     (filter (\<lambda>d. d_org d = org \<and> (\<exists>x \<in> set (snapshot_facts db). sf_org x = d_org d \<and> sf_snapshot_id x = d_snapshot_id d \<and>
        sf_fact_version_id x = vid)) (decisions db)))"
proof -
  let ?P = "\<lambda>d x. sf_org x = d_org d \<and> sf_snapshot_id x = d_snapshot_id d \<and> d_org d = org \<and> sf_fact_version_id x = vid"
  have one: "concat (map (\<lambda>x. if ?P d x then [(d, relies_on db d vid)] else []) (snapshot_facts db)) =
      (if d_org d = org \<and> (\<exists>x \<in> set (snapshot_facts db). sf_org x = d_org d \<and> sf_snapshot_id x = d_snapshot_id d \<and>
        sf_fact_version_id x = vid) then [(d, relies_on db d vid)] else [])" for d
  proof (cases "\<exists>x \<in> set (snapshot_facts db). ?P d x")
    case True
    then obtain x where x: "x \<in> set (snapshot_facts db)" "?P d x" by blast
    show ?thesis
      by (rule concat_map_key [of snapshot_fact_key _ x])
        (use st x in \<open>auto simp: decision_store_ok_def\<close>)
  next
    case False
    then have "concat (map (\<lambda>x. if ?P d x then [(d, relies_on db d vid)] else []) (snapshot_facts db)) = []"
      by (intro concat_map_Nil) auto
    then show ?thesis using False by auto
  qed
  have "concat (map (\<lambda>d. concat (map (\<lambda>x. if ?P d x then [(d, relies_on db d vid)] else []) (snapshot_facts db))) (decisions db)) =
      map (\<lambda>d. (d, relies_on db d vid)) (filter (\<lambda>d. d_org d = org \<and> (\<exists>x \<in> set (snapshot_facts db). sf_org x = d_org d \<and>
        sf_snapshot_id x = d_snapshot_id d \<and> sf_fact_version_id x = vid)) (decisions db))"
    by (rule concat_map_filter) (rule one)
  moreover have "sort_key (\<lambda>(d, relied). (d_decided_at d, d_id d)) (map (\<lambda>d. (d, g d)) ds) =
      map (\<lambda>d. (d, g d)) (sort_key (\<lambda>d. (d_decided_at d, d_id d)) ds)" for ds and g :: "decision \<Rightarrow> bool"
    by (simp add: sort_key_map)
  ultimately show ?thesis by (simp add: decisions_with_def)
qed

lemma one_row_single [simp]: "one_row [x] = Inr x"
  by (simp add: one_row_def)

lemma version_fact_entity_single:
  assumes ok: "ledger_ok db" and v: "v \<in> set (fact_versions db)" "fv_org v = org" "fv_id v = vid"
  obtains f e where "version_fact_entity db org vid = [(v, f, e)]" "f_id f = fv_fact_id v"
proof -
  obtain f e s where j: "joined db v f e s" by (rule joined_exists [OF ok v(1)])
  note d = ledger_distinct [OF ok]
  have "version_fact_entity db org vid = [(v, f, e)]"
    unfolding version_fact_entity_def
  proof (rule concat_map_key [of fv_id _ v], goal_cases)
    case 4
    show ?case
    proof (rule concat_map_key [of f_id _ f], goal_cases)
      case 4
      show ?case by (rule concat_map_key [of en_id _ e]) (use j v d in \<open>auto simp: joined_def\<close>)
    qed (use j d in \<open>auto simp: joined_def intro!: concat_map_Nil\<close>)
  qed (use v d in \<open>auto intro!: concat_map_Nil\<close>)
  then show ?thesis using that j by (auto simp: joined_def)
qed

text \<open>A report on a revocation of the ledger always succeeds and lists every decision with the version.\<close>

lemma report_Inr:
  assumes ok: "ledger_ok db" and v: "v \<in> set (fact_versions db)" "fv_org v = org" "fv_id v = rv_fact_version_id r"
  obtains rep where "report db org r = Inr rep" "rp_revocation_id rep = rv_id r" "rp_version rep = to_snapshot v"
    "map (\<lambda>i. (im_decision_id i, im_relied_on i)) (rp_decisions rep) =
       map (\<lambda>(d, relied). (d_id d, relied)) (decisions_with db org (fv_id v))"
    "\<forall>i \<in> set (rp_decisions rep). im_recorded_at_revocation i = (im_decision_id i \<in> set (stored_impacts db org (rv_id r))) \<and>
       im_decided_after_revocation i = (im_decision_id i \<notin> set (stored_impacts db org (rv_id r)))"
    "rp_decisions_with_version_in_context rep = length (decisions_with db org (fv_id v))"
    "rp_decisions_relied_on rep = length (filter snd (decisions_with db org (fv_id v)))"
proof -
  obtain f e where row: "version_fact_entity db org (rv_fact_version_id r) = [(v, f, e)]"
    by (rule version_fact_entity_single [OF ok v])
  have "\<exists>rep. report db org r = Inr rep \<and> rp_revocation_id rep = rv_id r \<and> rp_version rep = to_snapshot v \<and>
      map (\<lambda>i. (im_decision_id i, im_relied_on i)) (rp_decisions rep) =
        map (\<lambda>(d, relied). (d_id d, relied)) (decisions_with db org (fv_id v)) \<and>
      (\<forall>i \<in> set (rp_decisions rep). im_recorded_at_revocation i = (im_decision_id i \<in> set (stored_impacts db org (rv_id r))) \<and>
        im_decided_after_revocation i = (im_decision_id i \<notin> set (stored_impacts db org (rv_id r)))) \<and>
      rp_decisions_with_version_in_context rep = length (decisions_with db org (fv_id v)) \<and>
      rp_decisions_relied_on rep = length (filter snd (decisions_with db org (fv_id v)))"
    unfolding report_def row by (auto simp: Let_def o_def case_prod_beta')
  then show ?thesis using that by blast
qed

lemma version_choice:
  assumes "(case version_id of None \<Rightarrow> latest_version_row db org fid | Some i \<Rightarrow> get_version_row db org i) = Some v"
  shows "v \<in> set (fact_versions db)" "fv_org v = org"
  using assms get_version_row_SomeD [of db org _ v]
  by (auto simp: latest_version_row_def versions_of_def split: option.splits list.splits dest!: arg_cong [of "sort_key _ _" _ set])

text \<open>What a committed revocation is made of.\<close>

definition impact_rows :: "db \<Rightarrow> uuid \<Rightarrow> uuid \<Rightarrow> uuid \<Rightarrow> revocation_impact list" where
  "impact_rows db org rid vid = map (\<lambda>(d, relied). \<lparr>ri_org = org, ri_revocation_id = rid, ri_decision_id = d_id d,
     ri_snapshot_id = d_snapshot_id d, ri_fact_version_id = vid, ri_relied_on = relied\<rparr>) (decisions_with db org vid)"

lemma decisions_with_cong:
  assumes "decisions db' = decisions db" "snapshot_facts db' = snapshot_facts db" "decision_facts db' = decision_facts db"
  shows "decisions_with db' org vid = decisions_with db org vid"
  unfolding decisions_with_def relies_on_def assms by (rule refl)

lemma revoke_Inr:
  assumes "revoke t ctx fid reason version_id db = Inr (rep, db')"
  obtains v r where "v \<in> set (fact_versions db)" "fv_org v = ctx_org ctx" "fv_fact_id v = fid"
    "(case version_id of None \<Rightarrow> latest_version_row db (ctx_org ctx) fid | Some i \<Rightarrow> get_version_row db (ctx_org ctx) i) = Some v"
    "r = \<lparr>rv_id = t_ids t 0, rv_org = ctx_org ctx, rv_fact_version_id = fv_id v, rv_reason = strip reason,
         rv_revoked_by_user_id = ctx_user ctx, rv_agent_client_id = ctx_agent_client_id ctx, rv_revoked_at = t_now t\<rparr>"
    "revocation_insert_ok db r"
    "db' = db\<lparr>revocations := revocations db @ [r], impacts := impacts db @ impact_rows db (ctx_org ctx) (rv_id r) (fv_id v)\<rparr>"
    "distinct (map (\<lambda>i. (ri_revocation_id i, ri_decision_id i)) (impacts db'))"
    "list_all (impact_refs db') (impact_rows db (ctx_org ctx) (rv_id r) (fv_id v))"
    "report db' (ctx_org ctx) r = Inr rep"
proof -
  let ?r = "\<lambda>v. \<lparr>rv_id = t_ids t 0, rv_org = ctx_org ctx, rv_fact_version_id = fv_id v, rv_reason = strip reason,
         rv_revoked_by_user_id = ctx_user ctx, rv_agent_client_id = ctx_agent_client_id ctx, rv_revoked_at = t_now t\<rparr>"
  obtain v db1 where choice: "(case version_id of None \<Rightarrow> latest_version_row db (ctx_org ctx) fid | Some i \<Rightarrow> get_version_row db (ctx_org ctx) i) = Some v"
    and fid: "fv_fact_id v = fid" and ins: "insert_revocation (?r v) db = Inr db1"
    and imp: "insert_impacts (map (\<lambda>(d, relied). \<lparr>ri_org = ctx_org ctx, ri_revocation_id = t_ids t 0, ri_decision_id = d_id d,
           ri_snapshot_id = d_snapshot_id d, ri_fact_version_id = fv_id v, ri_relied_on = relied\<rparr>)
         (decisions_with db1 (ctx_org ctx) (fv_id v))) db1 = Inr db'"
    and rep: "report db' (ctx_org ctx) (?r v) = Inr rep"
    using assms by (auto simp: revoke_def Let_def result_simps)
  have db1: "db1 = db\<lparr>revocations := revocations db @ [?r v]\<rparr>" "revocation_insert_ok db (?r v)"
    using ins by (auto simp: insert_revocation_def result_simps)
  have dw: "decisions_with db1 (ctx_org ctx) (fv_id v) = decisions_with db (ctx_org ctx) (fv_id v)"
    by (rule decisions_with_cong) (simp_all add: db1)
  have imp': "insert_impacts (impact_rows db (ctx_org ctx) (t_ids t 0) (fv_id v)) db1 = Inr db'"
    using imp unfolding dw impact_rows_def .
  have db': "db' = db\<lparr>revocations := revocations db @ [?r v], impacts := impacts db @ impact_rows db (ctx_org ctx) (t_ids t 0) (fv_id v)\<rparr>"
    "distinct (map (\<lambda>i. (ri_revocation_id i, ri_decision_id i)) (impacts db @ impact_rows db (ctx_org ctx) (t_ids t 0) (fv_id v)))"
    "list_all (impact_refs db1) (impact_rows db (ctx_org ctx) (t_ids t 0) (fv_id v))"
    using imp' unfolding insert_impacts_def by (simp_all add: result_simps db1(1))
  have "impact_refs db' = impact_refs db1" by (rule ext) (simp add: impact_refs_def db'(1) db1(1))
  then show ?thesis
    by (intro that [of v "?r v"] version_choice [OF choice]) (use fid choice db1 db' rep in simp_all)
qed

lemma revoke_revocations_ok:
  assumes ok: "revocations_ok db" and run: "revoke t ctx fid reason version_id db = Inr (rep, db')"
  shows "revocations_ok db'"
proof -
  obtain v r where "v \<in> set (fact_versions db)" and r: "revocation_insert_ok db r"
    and db': "db' = db\<lparr>revocations := revocations db @ [r], impacts := impacts db @ impact_rows db (ctx_org ctx) (rv_id r) (fv_id v)\<rparr>"
    and dist: "distinct (map (\<lambda>i. (ri_revocation_id i, ri_decision_id i)) (impacts db'))"
    and refs: "list_all (impact_refs db') (impact_rows db (ctx_org ctx) (rv_id r) (fv_id v))"
    by (rule revoke_Inr [OF run]) (rule that)
  have "list_all (impact_refs db') (impacts db)"
    using ok by (auto simp: revocations_ok_def list_all_iff impact_refs_def db')
  then show ?thesis
    using ok r dist refs unfolding revocations_ok_def revocation_insert_ok_def by (auto simp: db')
qed

lemma revoke_frame:
  assumes "revoke t ctx fid reason version_id db = Inr (rep, db')"
  shows "\<exists>r is. rv_revoked_at r = t_now t \<and> db' = db\<lparr>revocations := revocations db @ [r], impacts := impacts db @ is\<rparr>"
  by (rule revoke_Inr [OF assms]) (rule exI, rule exI, rule conjI [rotated], assumption, simp)

lemma recomputed_hash_cong:
  assumes "snapshots db' = snapshots db" "snapshot_facts db' = snapshot_facts db" "fact_versions db' = fact_versions db"
    "facts db' = facts db" "entities db' = entities db" "sources db' = sources db" "decision_facts db' = decision_facts db"
  shows "recomputed_hash R db' d = recomputed_hash R db d"
  unfolding recomputed_hash_def get_snapshot_def snapshot_rows_def relied_on_rows_def assms by (rule refl)

lemma revoke_keeps_decisions:
  assumes run: "revoke t ctx fid reason version_id db = Inr (rep, db')" and st: "decision_store_ok db" and sl: "sealed R db"
  shows "decision_store_ok db'" "sealed R db'"
proof -
  obtain r "is" where db': "db' = db\<lparr>revocations := revocations db @ [r], impacts := impacts db @ is\<rparr>"
    using revoke_frame [OF run] by blast
  have "snapshot_fact_refs db' = snapshot_fact_refs db" "decision_fact_refs db' = decision_fact_refs db"
    by (rule ext, simp add: snapshot_fact_refs_def decision_fact_refs_def db')+
  then show "decision_store_ok db'" using st by (simp add: decision_store_ok_def db')
  have "recomputed_hash R db' d = recomputed_hash R db d" for d by (rule recomputed_hash_cong) (simp_all add: db')
  then show "sealed R db'" using sl by (simp add: sealed_def db')
qed

section \<open>Properties\<close>

text \<open>
  C18. What a committed revocation records: from well-formed tables, exactly one revocation, of
  a version of the caller's tenant that was not revoked before, and one impact row for every
  decision of the tenant whose frozen context held the version (and for no other), flagged
  as relied upon exactly when the decision cited it; the report lists the same decisions,
  all marked as recorded at the revocation, and the tables stay well formed.
\<close>

theorem revoke_records_impact:
  assumes ok: "ledger_ok db" and st: "decision_store_ok db" and rv: "revocations_ok db"
    and run: "revoke t ctx fid reason version_id db = Inr (rep, db')"
  shows "revocations_ok db' \<and> (\<exists>r. revocations db' = revocations db @ [r] \<and> rv_org r = ctx_org ctx \<and>
      (\<forall>x \<in> set (revocations db). (rv_org x, rv_fact_version_id x) \<noteq> (rv_org r, rv_fact_version_id r)) \<and>
      (\<exists>new. impacts db' = impacts db @ new \<and> distinct (map ri_decision_id new) \<and>
        (\<forall>did relied. (\<exists>i \<in> set new. ri_decision_id i = did \<and> ri_relied_on i = relied) \<longleftrightarrow>
          (\<exists>d \<in> set (decisions db). d_id d = did \<and> d_org d = ctx_org ctx \<and> relied = relies_on db d (rv_fact_version_id r) \<and>
            (\<exists>x \<in> set (snapshot_facts db). sf_org x = d_org d \<and> sf_snapshot_id x = d_snapshot_id d \<and>
               sf_fact_version_id x = rv_fact_version_id r))) \<and>
        map (\<lambda>i. (im_decision_id i, im_relied_on i)) (rp_decisions rep) = map (\<lambda>i. (ri_decision_id i, ri_relied_on i)) new \<and>
        (\<forall>i \<in> set (rp_decisions rep). im_recorded_at_revocation i \<and> \<not> im_decided_after_revocation i)))"
proof -
  obtain v r where v: "v \<in> set (fact_versions db)" "fv_org v = ctx_org ctx"
    and r: "r = \<lparr>rv_id = t_ids t 0, rv_org = ctx_org ctx, rv_fact_version_id = fv_id v, rv_reason = strip reason,
         rv_revoked_by_user_id = ctx_user ctx, rv_agent_client_id = ctx_agent_client_id ctx, rv_revoked_at = t_now t\<rparr>"
    and ins: "revocation_insert_ok db r"
    and db': "db' = db\<lparr>revocations := revocations db @ [r], impacts := impacts db @ impact_rows db (ctx_org ctx) (rv_id r) (fv_id v)\<rparr>"
    and dist: "distinct (map (\<lambda>i. (ri_revocation_id i, ri_decision_id i)) (impacts db'))"
    and rep: "report db' (ctx_org ctx) r = Inr rep"
    by (rule revoke_Inr [OF run]) (rule that)
  let ?new = "impact_rows db (ctx_org ctx) (rv_id r) (fv_id v)"
  have rv_fields: "rv_org r = ctx_org ctx" "rv_fact_version_id r = fv_id v" by (simp_all add: r)
  have ok': "ledger_ok db'" using ok ledger_ok_cong [of db' db] by (simp add: db')
  have dw: "decisions_with db' (ctx_org ctx) (fv_id v) = decisions_with db (ctx_org ctx) (fv_id v)"
    by (rule decisions_with_cong) (simp_all add: db')
  have "v \<in> set (fact_versions db')" using v by (simp add: db')
  then obtain rep' where rep': "report db' (ctx_org ctx) r = Inr rep'"
    "map (\<lambda>i. (im_decision_id i, im_relied_on i)) (rp_decisions rep') = map (\<lambda>(d, relied). (d_id d, relied)) (decisions_with db' (ctx_org ctx) (fv_id v))"
    "\<forall>i \<in> set (rp_decisions rep'). im_recorded_at_revocation i = (im_decision_id i \<in> set (stored_impacts db' (ctx_org ctx) (rv_id r))) \<and>
       im_decided_after_revocation i = (im_decision_id i \<notin> set (stored_impacts db' (ctx_org ctx) (rv_id r)))"
    by (rule report_Inr [OF ok' _ v(2) rv_fields(2) [symmetric]]) (rule that)
  then have eq: "rep' = rep" using rep by simp
  have new: "map (\<lambda>i. (ri_decision_id i, ri_relied_on i)) ?new = map (\<lambda>(d, relied). (d_id d, relied)) (decisions_with db (ctx_org ctx) (fv_id v))"
    by (simp add: impact_rows_def case_prod_beta')
  have ids: "map (\<lambda>i. (im_decision_id i, im_relied_on i)) (rp_decisions rep) = map (\<lambda>i. (ri_decision_id i, ri_relied_on i)) ?new"
    using rep'(2) by (simp only: eq dw new)
  have stored: "ri_decision_id ` set ?new \<subseteq> set (stored_impacts db' (ctx_org ctx) (rv_id r))"
    by (auto simp: stored_impacts_def db' impact_rows_def)
  have "im_decision_id ` set (rp_decisions rep) = ri_decision_id ` set ?new"
    using arg_cong [OF ids, of "\<lambda>xs. fst ` set xs"] by (simp add: image_image)
  then have marks: "\<forall>i \<in> set (rp_decisions rep). im_recorded_at_revocation i \<and> \<not> im_decided_after_revocation i"
    using rep'(3) stored unfolding eq by blast
  have unused: "\<forall>x \<in> set (revocations db). (rv_org x, rv_fact_version_id x) \<noteq> (rv_org r, rv_fact_version_id r)"
    using ins by (force simp: revocation_insert_ok_def)
  have nd: "distinct (map ri_decision_id ?new)"
  proof (rule distinct_map_via)
    show "distinct (map (\<lambda>i. (ri_revocation_id i, ri_decision_id i)) ?new)" using dist by (simp add: db')
  qed (auto simp: impact_rows_def)
  have iff: "(\<exists>i \<in> set ?new. ri_decision_id i = did \<and> ri_relied_on i = relied) \<longleftrightarrow>
          (\<exists>d \<in> set (decisions db). d_id d = did \<and> d_org d = ctx_org ctx \<and> relied = relies_on db d (rv_fact_version_id r) \<and>
            (\<exists>x \<in> set (snapshot_facts db). sf_org x = d_org d \<and> sf_snapshot_id x = d_snapshot_id d \<and>
               sf_fact_version_id x = rv_fact_version_id r))" for did relied
    unfolding impact_rows_def decisions_with_rows [OF st] by (auto simp: rv_fields)
  have "impacts db' = impacts db @ ?new" "revocations db' = revocations db @ [r]" by (simp_all add: db')
  then show ?thesis using revoke_revocations_ok [OF rv run] unused nd iff ids marks rv_fields(1) by blast
qed

lemma permitted_user_exists:
  assumes "require_permission db ctx p = Inr r"
  shows "ctx_user ctx \<in> u_id ` set (users db)"
proof -
  obtain u where "get_user db (ctx_user ctx) = Some u"
    using assms by (auto simp: require_permission_Inr active_membership_Some)
  then show ?thesis using get_user_SomeD [of db "ctx_user ctx" u] by (metis image_eqI)
qed

lemma strip_not_blank: "strip s \<noteq> [] \<Longrightarrow> \<exists>c \<in> set (strip s). c \<noteq> CHR '' ''"
  by (rule bexI [of _ "hd (strip s)"]) (auto simp: is_space_def dest!: strip_ends(1))

lemma impact_rows_ok:
  assumes st: "decision_store_ok db" and rv: "revocations_ok db" and new: "rid \<notin> rv_id ` set (revocations db)"
    and r: "(org, rid) \<in> (\<lambda>r. (rv_org r, rv_id r)) ` set (revocations db')"
    and same: "decisions db' = decisions db" "snapshot_facts db' = snapshot_facts db" "impacts db' = impacts db"
  shows "distinct (map (\<lambda>i. (ri_revocation_id i, ri_decision_id i)) (impacts db' @ impact_rows db org rid vid))"
    "list_all (impact_refs db') (impact_rows db org rid vid)"
proof -
  let ?P = "\<lambda>d. d_org d = org \<and> (\<exists>x \<in> set (snapshot_facts db). sf_org x = d_org d \<and> sf_snapshot_id x = d_snapshot_id d \<and>
        sf_fact_version_id x = vid)"
  let ?ds = "sort_key (\<lambda>d. (d_decided_at d, d_id d)) (filter ?P (decisions db))"
  have rows: "impact_rows db org rid vid = map (\<lambda>d. \<lparr>ri_org = org, ri_revocation_id = rid, ri_decision_id = d_id d,
     ri_snapshot_id = d_snapshot_id d, ri_fact_version_id = vid, ri_relied_on = relies_on db d vid\<rparr>) ?ds"
    by (simp add: impact_rows_def decisions_with_rows [OF st])
  have "distinct (map d_id ?ds)"
    using st by (simp add: decision_store_ok_def distinct_map_sort_key distinct_map_filter)
  then have "distinct (map (\<lambda>d. (rid, d_id d)) ?ds)" by (rule distinct_map_via) simp
  then have "distinct (map (\<lambda>i. (ri_revocation_id i, ri_decision_id i)) (impact_rows db org rid vid))"
    by (simp add: rows o_def)
  moreover have "\<forall>i \<in> set (impacts db). ri_revocation_id i \<noteq> rid"
    using rv new by (fastforce simp: revocations_ok_def list_all_iff impact_refs_def)
  ultimately show "distinct (map (\<lambda>i. (ri_revocation_id i, ri_decision_id i)) (impacts db' @ impact_rows db org rid vid))"
    using rv by (auto simp: same revocations_ok_def rows)
  show "list_all (impact_refs db') (impact_rows db org rid vid)"
    unfolding list_all_iff
  proof
    fix i assume "i \<in> set (impact_rows db org rid vid)"
    then obtain d x where d: "d \<in> set (decisions db)" "d_org d = org" and x: "x \<in> set (snapshot_facts db)"
      "sf_snapshot_id x = d_snapshot_id d" "sf_fact_version_id x = vid"
      and i: "ri_org i = org" "ri_revocation_id i = rid" "ri_decision_id i = d_id d" "ri_snapshot_id i = d_snapshot_id d"
        "ri_fact_version_id i = vid"
      by (auto simp: rows)
    have "(ri_org i, ri_decision_id i, ri_snapshot_id i) \<in> decision_ref ` set (decisions db')"
      by (rule image_eqI [of _ _ d]) (use d i same in simp_all)
    moreover have "(ri_snapshot_id i, ri_fact_version_id i) \<in> snapshot_fact_key ` set (snapshot_facts db')"
      by (rule image_eqI [of _ _ x]) (use x i same in simp_all)
    ultimately show "impact_refs db' i" using r i(1,2) by (simp add: impact_refs_def)
  qed
qed

text \<open>
  C19. When a revocation succeeds: with fresh identifiers on well-formed tables, exactly when
  the trimmed reason has 1 to 2000 characters, the caller may write facts and read decisions,
  the fact exists in the tenant, and the chosen version (the latest if none is named) belongs
  to it, is in a scope the caller sees and has not been revoked; no constraint of the
  database is ever violated, and a second revocation of a version is always refused.
\<close>

theorem revoke_succeeds_iff:
  assumes ok: "ledger_ok db" and st: "decision_store_ok db" and rv: "revocations_ok db" and fresh: "fresh_ids db (t_ids t)"
  shows "((\<exists>rep db'. revoke t ctx fid reason version_id db = Inr (rep, db')) \<longleftrightarrow>
      strip reason \<noteq> [] \<and> length (strip reason) \<le> 2000 \<and>
      (\<exists>role. require_permission db ctx WRITE_FACTS = Inr role \<and> (\<exists>r. require_permission db ctx READ_DECISIONS = Inr r) \<and>
        get_fact_row db (ctx_org ctx) fid \<noteq> None \<and>
        (\<exists>v. (case version_id of None \<Rightarrow> latest_version_row db (ctx_org ctx) fid
                | Some i \<Rightarrow> get_version_row db (ctx_org ctx) i) = Some v \<and>
           fv_fact_id v = fid \<and> fv_privacy_scope v \<in> set (visible_privacy_scopes role [ctx_max_privacy_scope ctx]) \<and>
           (\<forall>r \<in> set (revocations db). (rv_org r, rv_fact_version_id r) \<noteq> (ctx_org ctx, fv_id v))))) \<and>
    (\<forall>m. revoke t ctx fid reason version_id db \<noteq> Inl (IntegrityError m))"
proof -
  let ?r = "\<lambda>v. \<lparr>rv_id = t_ids t 0, rv_org = ctx_org ctx, rv_fact_version_id = fv_id v, rv_reason = strip reason,
         rv_revoked_by_user_id = ctx_user ctx, rv_agent_client_id = ctx_agent_client_id ctx, rv_revoked_at = t_now t\<rparr>"
  let ?go = "\<lambda>v. bindr (insert_revocation (?r v) db) (\<lambda>db1.
     bindr (insert_impacts (map (\<lambda>(d, relied). \<lparr>ri_org = ctx_org ctx, ri_revocation_id = t_ids t 0, ri_decision_id = d_id d,
           ri_snapshot_id = d_snapshot_id d, ri_fact_version_id = fv_id v, ri_relied_on = relied\<rparr>)
         (decisions_with db1 (ctx_org ctx) (fv_id v))) db1) (\<lambda>db2.
     bindr (report db2 (ctx_org ctx) (?r v)) (\<lambda>rep. Inr (rep, db2))))"
  have go: "\<exists>rep db'. ?go v = Inr (rep, db')"
    if v: "v \<in> set (fact_versions db)" "fv_org v = ctx_org ctx" and reason: "strip reason \<noteq> []"
      and perm: "require_permission db ctx WRITE_FACTS = Inr role"
      and unrevoked: "\<not> (\<exists>r \<in> set (revocations db). rv_org r = ctx_org ctx \<and> rv_fact_version_id r = fv_id v)" for v role
  proof -
    let ?db1 = "db\<lparr>revocations := revocations db @ [?r v]\<rparr>"
    let ?rows = "impact_rows db (ctx_org ctx) (t_ids t 0) (fv_id v)"
    let ?db2 = "?db1\<lparr>impacts := impacts db @ ?rows\<rparr>"
    have "(ctx_org ctx, fv_id v) \<in> (\<lambda>v. (fv_org v, fv_id v)) ` set (fact_versions db)" using v by force
    then have "revocation_insert_ok db (?r v)"
      using unrevoked strip_not_blank [OF reason] permitted_user_exists [OF perm] fresh_idsD(8) [OF fresh, of 0]
      by (auto simp: revocation_insert_ok_def)
    then have 1: "insert_revocation (?r v) db = Inr ?db1" by (simp add: insert_revocation_def)
    have dw: "decisions_with ?db1 (ctx_org ctx) (fv_id v) = decisions_with db (ctx_org ctx) (fv_id v)"
      by (rule decisions_with_cong) simp_all
    have "insert_impacts ?rows ?db1 = Inr ?db2"
      unfolding insert_impacts_def
      using impact_rows_ok [OF st rv fresh_idsD(8) [OF fresh, of 0], of "ctx_org ctx" ?db1 "fv_id v"] by simp
    moreover have "ledger_ok ?db2" using ok ledger_ok_cong [of ?db2 db] by simp
    then obtain rep where "report ?db2 (ctx_org ctx) (?r v) = Inr rep"
      using report_Inr [of ?db2 v "ctx_org ctx" "?r v"] v by auto
    ultimately show ?thesis using 1 dw by (simp add: impact_rows_def)
  qed
  note unfold = revoke_def Let_def MAX_REASON_CHARS_def
  have "revoke t ctx fid reason version_id db \<noteq> Inl (IntegrityError m)" for m
  proof
    assume "revoke t ctx fid reason version_id db = Inl (IntegrityError m)"
    then obtain v role where "?go v = Inl (IntegrityError m)" "strip reason \<noteq> []" "require_permission db ctx WRITE_FACTS = Inr role"
      "(case version_id of None \<Rightarrow> latest_version_row db (ctx_org ctx) fid | Some i \<Rightarrow> get_version_row db (ctx_org ctx) i) = Some v"
      "\<not> (\<exists>r \<in> set (revocations db). rv_org r = ctx_org ctx \<and> rv_fact_version_id r = fv_id v)"
      unfolding unfold by (auto simp: bindr_eq_Inl [where e = "IntegrityError m" and m = "require_permission db ctx p" for p]
          bindr_eq_Inl [where m = "requirer c x" for c x] bindr_eq_Inl [where m = "some_or c x" for c x]
          requirer_eq_Inl some_or_eq_Inl require_permission_no_integrity requirer_eq_Inr some_or_eq_Inr)
    then show False using go version_choice by fastforce
  qed
  moreover have "(\<exists>rep db'. revoke t ctx fid reason version_id db = Inr (rep, db')) \<longleftrightarrow>
      strip reason \<noteq> [] \<and> length (strip reason) \<le> 2000 \<and>
      (\<exists>role. require_permission db ctx WRITE_FACTS = Inr role \<and> (\<exists>r. require_permission db ctx READ_DECISIONS = Inr r) \<and>
        get_fact_row db (ctx_org ctx) fid \<noteq> None \<and>
        (\<exists>v. (case version_id of None \<Rightarrow> latest_version_row db (ctx_org ctx) fid
                | Some i \<Rightarrow> get_version_row db (ctx_org ctx) i) = Some v \<and>
           fv_fact_id v = fid \<and> fv_privacy_scope v \<in> set (visible_privacy_scopes role [ctx_max_privacy_scope ctx]) \<and>
           \<not> (\<exists>r \<in> set (revocations db). rv_org r = ctx_org ctx \<and> rv_fact_version_id r = fv_id v) \<and>
           (\<exists>rep db'. ?go v = Inr (rep, db'))))"
    unfolding unfold by (auto simp: bindr_eq_Inr requirer_eq_Inr some_or_eq_Inr)
  ultimately show ?thesis using go version_choice by fastforce
qed

text \<open>The sample snapshot with one decision that cites the credit limit, for the witnesses.\<close>

definition decided_db :: db where
  "decided_db = snapshot_db\<lparr>decisions := [\<lparr>d_id = 820, d_org = 200, d_snapshot_id = 810, d_decided_by_user_id = 100, d_agent = None,
       d_action = ''credit.approve'', d_outcome = PBool True, d_rationale = None, d_decided_at = 40, d_receipt_sha256 = []\<rparr>],
     decision_facts := [\<lparr>df_org = 200, df_decision_id = 820, df_snapshot_id = 810, df_fact_version_id = fv_id first_version\<rparr>]\<rparr>"

lemma decided_db_ok: "ledger_ok decided_db" "decision_store_ok decided_db" "revocations_ok decided_db"
proof -
  show "ledger_ok decided_db"
    using one_version_ledger ledger_ok_cong [of decided_db one_version_db] by (simp add: decided_db_def snapshot_db_def)
  show "decision_store_ok decided_db" "revocations_ok decided_db" by code_simp+
qed

lemma decided_db_fresh: "fresh_ids decided_db (t_ids (sample_txn 830 60))"
proof -
  have "used_ids decided_db = used_ids one_version_db \<union> {810, 820}"
    by (auto simp: used_ids_def decided_db_def snapshot_db_def sample_snapshot_def sample_defs)
  also have "used_ids one_version_db = {100, 200, 201, 600, 601, 700, 701, 702}"
    by (auto simp: used_ids_def sample_defs)
  finally show ?thesis by (auto simp: fresh_ids_def sample_txn_def inj_def)
qed

text \<open>Witness: the credit limit is revoked; the one decision that cites it is recorded as impacted.\<close>

theorem revoke_records_impact_witness:
  "\<exists>rep db' r. revoke (sample_txn 830 60) admin_ctx (fv_fact_id first_version) ''wrong'' None decided_db = Inr (rep, db') \<and>
     revocations_ok db' \<and> revocations db' = [r] \<and> (\<exists>i \<in> set (impacts db'). ri_decision_id i = 820 \<and> ri_relied_on i)"
proof -
  let ?run = "revoke (sample_txn 830 60) admin_ctx (fv_fact_id first_version) ''wrong'' None decided_db"
  have "\<not> Sum_Type.isl ?run" by code_simp
  then obtain rep db' where run: "?run = Inr (rep, db')" by (cases ?run) auto
  obtain v r where r: "v \<in> set (fact_versions decided_db)" "rv_fact_version_id r = fv_id v" "revocations db' = revocations decided_db @ [r]"
    by (rule revoke_Inr [OF run]) (rule that, auto)
  have "rv_fact_version_id r = fv_id first_version" using r(1,2) by (auto simp: decided_db_def snapshot_db_def one_version_db_def)
  then show ?thesis
    using revoke_records_impact [OF decided_db_ok run] run r(3)
    by (auto simp: decided_db_def snapshot_db_def sample_defs relies_on_def) metis
qed

theorem revoke_succeeds_iff_witness:
  "(\<exists>rep db'. revoke (sample_txn 830 60) admin_ctx (fv_fact_id first_version) ''wrong'' None decided_db = Inr (rep, db')) \<and>
   (\<forall>rep db'. revoke (sample_txn 830 60) admin_ctx (fv_fact_id first_version) ''  '' None decided_db \<noteq> Inr (rep, db'))"
proof -
  have "latest_version_row decided_db (ctx_org admin_ctx) (fv_fact_id first_version) = Some first_version"
    "require_permission decided_db admin_ctx WRITE_FACTS = Inr ADMIN" "require_permission decided_db admin_ctx READ_DECISIONS = Inr ADMIN"
    "get_fact_row decided_db (ctx_org admin_ctx) (fv_fact_id first_version) \<noteq> None" "strip ''wrong'' = ''wrong''" "strip ''  '' = []"
    "fv_privacy_scope first_version \<in> set (visible_privacy_scopes ADMIN [ctx_max_privacy_scope admin_ctx])"
    "revocations decided_db = []"
    by code_simp+
  then show ?thesis
    using revoke_succeeds_iff [OF decided_db_ok decided_db_fresh, of admin_ctx "fv_fact_id first_version" "''wrong''" None]
      revoke_succeeds_iff [OF decided_db_ok decided_db_fresh, of admin_ctx "fv_fact_id first_version" "''  ''" None]
    by simp
qed

end
