(* ===== verification/Py_Json.thy ===== *)
theory Py_Json
  imports Py_Values
begin

text \<open>
  Python's \<^verbatim>\<open>json.loads\<close> and \<^verbatim>\<open>str()\<close>, which the sources apply to texts written by a model or a
  cache. Shown: reading back what \<^verbatim>\<open>json.dumps\<close> printed gives the value that was printed, up to
  the order the keys were printed in, so different values have different texts.
\<close>

section \<open>Scanning\<close>

definition json_ws :: "string \<Rightarrow> string" where
  "json_ws s = dropWhile (\<lambda>c. code c \<in> {32, 9, 10, 13}) s"

definition hex_nibble :: "char \<Rightarrow> nat option" where
  "hex_nibble c =
     (if 48 \<le> code c \<and> code c \<le> 57 then Some (code c - 48)
      else if 97 \<le> code c \<and> code c \<le> 102 then Some (code c - 87)
      else if 65 \<le> code c \<and> code c \<le> 70 then Some (code c - 55) else None)"

definition simple_escape :: "char \<Rightarrow> char option" where
  "simple_escape c =
     (if c = CHR 0x22 \<or> c = CHR 0x5C \<or> c = CHR ''/'' then Some c
      else if c = CHR ''n'' then Some (char_of (10::nat)) else if c = CHR ''r'' then Some (char_of (13::nat))
      else if c = CHR ''t'' then Some (char_of (9::nat)) else if c = CHR ''f'' then Some (char_of (12::nat))
      else if c = CHR ''b'' then Some (char_of (8::nat)) else None)"

text \<open>
  The body of a text up to its closing quote. Control characters are refused, as strict
  decoding does; an escape of a code point beyond Latin-1 is outside the model and refused too.
\<close>

fun scan_str :: "string \<Rightarrow> (string \<times> string) option" where
  "scan_str [] = None"
| "scan_str (c # s) =
     (if c = CHR 0x22 then Some ([], s)
      else if c = CHR 0x5C then (case s of
          d # h1 # h2 # h3 # h4 # t \<Rightarrow>
            if d = CHR ''u'' then (case (hex_nibble h1, hex_nibble h2, hex_nibble h3, hex_nibble h4) of
                (Some 0, Some 0, Some x, Some y) \<Rightarrow>
                  map_option (\<lambda>(r, u). (char_of (16 * x + y) # r, u)) (scan_str t)
              | _ \<Rightarrow> None)
            else (case simple_escape d of None \<Rightarrow> None
              | Some e \<Rightarrow> map_option (\<lambda>(r, u). (e # r, u)) (scan_str (h1 # h2 # h3 # h4 # t)))
        | d # t \<Rightarrow> (case simple_escape d of None \<Rightarrow> None
              | Some e \<Rightarrow> map_option (\<lambda>(r, u). (e # r, u)) (scan_str t))
        | [] \<Rightarrow> None)
      else if code c < 32 then None
      else map_option (\<lambda>(r, u). (c # r, u)) (scan_str s))"

definition digits_value :: "string \<Rightarrow> nat" where
  "digits_value ds = foldl (\<lambda>n c. 10 * n + (code c - 48)) 0 ds"

text \<open>
  A number: an integer unless a fraction or an exponent follows, each only if it has a
  digit. The value of a float text is its decimal value: rounding to a double is not modelled.
\<close>

definition scan_digits :: "string \<Rightarrow> string \<times> string" where
  "scan_digits s = (takeWhile is_digit s, dropWhile is_digit s)"

definition scan_frac :: "string \<Rightarrow> string \<times> string" where
  "scan_frac s = (case s of c # t \<Rightarrow> if c = CHR ''.'' \<and> fst (scan_digits t) \<noteq> [] then scan_digits t else ([], s) | [] \<Rightarrow> ([], s))"

definition scan_exp :: "string \<Rightarrow> int option \<times> string" where
  "scan_exp s = (case s of c # t \<Rightarrow>
       if c = CHR ''e'' \<or> c = CHR ''E'' then
         (let (neg, u) = (case t of d # u \<Rightarrow> if d = CHR ''-'' then (True, u) else if d = CHR ''+'' then (False, u) else (False, t)
              | [] \<Rightarrow> (False, t)); (ds, v) = scan_digits u in
          if ds = [] then (None, s) else (Some (if neg then - int (digits_value ds) else int (digits_value ds)), v))
       else (None, s)
     | [] \<Rightarrow> (None, s))"

definition scan_nat :: "string \<Rightarrow> (string \<times> string) option" where
  "scan_nat s = (case s of c # t \<Rightarrow>
       if c = CHR ''0'' then Some ([c], t) else if is_digit c then Some (scan_digits s) else None
     | [] \<Rightarrow> None)"

definition number_value :: "bool \<Rightarrow> string \<Rightarrow> string \<Rightarrow> int option \<Rightarrow> pyval" where
  "number_value neg ip fp ex = (case (fp, ex) of
       ([], None) \<Rightarrow> PInt (if neg then - int (digits_value ip) else int (digits_value ip))
     | _ \<Rightarrow> (let m = of_nat (digits_value ip) + of_nat (digits_value fp) / 10 ^ length fp;
              e = (case ex of None \<Rightarrow> 0 | Some e \<Rightarrow> e);
              v = (if 0 \<le> e then m * 10 ^ nat e else m / 10 ^ nat (- e)) in
          PFloat (if neg then - v else v)))"

definition scan_unsigned :: "bool \<Rightarrow> string \<Rightarrow> (pyval \<times> string) option" where
  "scan_unsigned neg s = (case scan_nat s of None \<Rightarrow> None | Some (ip, t) \<Rightarrow>
     (let (fp, u) = scan_frac t; (ex, v) = scan_exp u in Some (number_value neg ip fp ex, v)))"

definition scan_number :: "string \<Rightarrow> (pyval \<times> string) option" where
  "scan_number s = (case s of c # t \<Rightarrow> if c = CHR ''-'' then scan_unsigned True t else scan_unsigned False s | [] \<Rightarrow> None)"

text \<open>The constants, the non-finite floats among them.\<close>

definition scan_word :: "string \<Rightarrow> (pyval \<times> string) option" where
  "scan_word s =
     (if take 4 s = ''null'' then Some (PNone, drop 4 s)
      else if take 4 s = ''true'' then Some (PBool True, drop 4 s)
      else if take 5 s = ''false'' then Some (PBool False, drop 5 s)
      else if take 3 s = ''NaN'' then Some (PNonFinite ''nan'', drop 3 s)
      else if take 8 s = ''Infinity'' then Some (PNonFinite ''inf'', drop 8 s)
      else if take 9 s = ''-Infinity'' then Some (PNonFinite ''-inf'', drop 9 s)
      else scan_number s)"

text \<open>A dict built from pairs keeps the first position and the last value of a repeated key.\<close>

fun dict_set :: "string \<Rightarrow> pyval \<Rightarrow> (string \<times> pyval) list \<Rightarrow> (string \<times> pyval) list" where
  "dict_set k v [] = [(k, v)]"
| "dict_set k v ((k', v') # kvs) = (if k = k' then (k, v) # kvs else (k', v') # dict_set k v kvs)"

definition dict_of_pairs :: "(string \<times> pyval) list \<Rightarrow> (string \<times> pyval) list" where
  "dict_of_pairs kvs = fold (\<lambda>(k, v). dict_set k v) kvs []"

text \<open>
  Values, the rest of an array and the rest of an object, with fuel for the nesting and the
  number of elements; the length of the text is always enough.
\<close>

fun scan_value :: "nat \<Rightarrow> string \<Rightarrow> (pyval \<times> string) option"
  and scan_elements :: "nat \<Rightarrow> string \<Rightarrow> (pyval list \<times> string) option"
  and scan_members :: "nat \<Rightarrow> string \<Rightarrow> ((string \<times> pyval) list \<times> string) option" where
  "scan_value 0 s = None"
| "scan_value (Suc n) s = (case s of [] \<Rightarrow> None | c # t \<Rightarrow>
     if c = CHR 0x22 then map_option (\<lambda>(x, u). (PStr x, u)) (scan_str t)
     else if c = CHR ''['' then (case json_ws t of
         d # u \<Rightarrow> if d = CHR '']'' then Some (PList [], u) else map_option (\<lambda>(xs, v). (PList xs, v)) (scan_elements n (json_ws t))
       | [] \<Rightarrow> None)
     else if c = CHR ''{'' then (case json_ws t of
         d # u \<Rightarrow> if d = CHR ''}'' then Some (PDict [], u) else map_option (\<lambda>(xs, v). (PDict (dict_of_pairs xs), v)) (scan_members n (json_ws t))
       | [] \<Rightarrow> None)
     else scan_word s)"
| "scan_elements 0 s = None"
| "scan_elements (Suc n) s = (case scan_value n s of None \<Rightarrow> None | Some (x, t) \<Rightarrow>
     (case json_ws t of [] \<Rightarrow> None | c # u \<Rightarrow>
        if c = CHR '','' then map_option (\<lambda>(xs, v). (x # xs, v)) (scan_elements n (json_ws u))
        else if c = CHR '']'' then Some ([x], u) else None))"
| "scan_members 0 s = None"
| "scan_members (Suc n) s = (case s of [] \<Rightarrow> None | q # s' \<Rightarrow>
     if q \<noteq> CHR 0x22 then None else
     (case scan_str s' of None \<Rightarrow> None | Some (k, t) \<Rightarrow>
     (case json_ws t of [] \<Rightarrow> None | c # u \<Rightarrow>
        if c \<noteq> CHR '':'' then None else
        (case scan_value n (json_ws u) of None \<Rightarrow> None | Some (x, v) \<Rightarrow>
        (case json_ws v of [] \<Rightarrow> None | d # w \<Rightarrow>
           if d = CHR '','' then map_option (\<lambda>(xs, r). ((k, x) # xs, r)) (scan_members n (json_ws w))
           else if d = CHR ''}'' then Some ([(k, x)], w) else None)))))"

text \<open>\<open>None\<close> is the ValueError of a text that is no JSON document.\<close>

definition json_loads :: "string \<Rightarrow> pyval option" where
  "json_loads s = (case scan_value (2 * length s + 2) (json_ws s) of
     Some (v, rest) \<Rightarrow> if json_ws rest = [] then Some v else None | None \<Rightarrow> None)"

section \<open>The text of a value\<close>

definition repr_char :: "char \<Rightarrow> char \<Rightarrow> string" where
  "repr_char q c =
     (if c = q \<or> c = CHR 0x5C then [CHR 0x5C, c]
      else if code c = 10 then CHR 0x5C # ''n'' else if code c = 13 then CHR 0x5C # ''r''
      else if code c = 9 then CHR 0x5C # ''t''
      else if is_printable c then [c]
      else CHR 0x5C # ''x'' @ [hex_digit (code c div 16), hex_digit (code c mod 16)])"

definition py_repr_str :: "string \<Rightarrow> string" where
  "py_repr_str s = (let q = (if CHR 0x27 \<in> set s \<and> CHR 0x22 \<notin> set s then CHR 0x22 else CHR 0x27) in
     q # concat (map (repr_char q) s) @ [q])"

fun py_repr :: "runtime \<Rightarrow> pyval \<Rightarrow> string" where
  "py_repr R PNone = ''None''"
| "py_repr R (PBool b) = (if b then ''True'' else ''False'')"
| "py_repr R (PInt i) = int_str i"
| "py_repr R (PFloat r) = float_repr R r"
| "py_repr R (PNonFinite s) = s"
| "py_repr R (PStr s) = py_repr_str s"
| "py_repr R (PList vs) = ''['' @ join '', '' (map (py_repr R) vs) @ '']''"
| "py_repr R (PDict kvs) = ''{'' @ join '', '' (map (\<lambda>kv. py_repr_str (fst kv) @ '': '' @ py_repr R (snd kv)) kvs) @ ''}''"
| "py_repr R POpaque = ''<object>''"

definition py_str :: "runtime \<Rightarrow> pyval \<Rightarrow> string" where
  "py_str R v = (case v of PStr s \<Rightarrow> s | _ \<Rightarrow> py_repr R v)"

section \<open>Reading back what was printed\<close>

text \<open>What may follow a value inside a document.\<close>

definition stops :: "string \<Rightarrow> bool" where
  "stops rest \<longleftrightarrow> rest = [] \<or> hd rest \<in> {CHR '','', CHR '']'', CHR ''}''}"

text \<open>
  The separators are a comma and a colon, each with at most a space after it, as in the
  default and in the compact form.
\<close>

definition plain_seps :: "json_opts \<Rightarrow> bool" where
  "plain_seps opts \<longleftrightarrow> (item_sep opts = '','' \<or> item_sep opts = '', '') \<and> (key_sep opts = '':'' \<or> key_sep opts = '': '')"

text \<open>The value with the keys of its dicts in the order they are printed in.\<close>

fun json_canon :: "json_opts \<Rightarrow> pyval \<Rightarrow> pyval" where
  "json_canon opts (PList vs) = PList (map (json_canon opts) vs)"
| "json_canon opts (PDict kvs) = PDict
     (if sort_keys opts then sort_key fst (map (\<lambda>kv. (fst kv, json_canon opts (snd kv))) kvs)
      else map (\<lambda>kv. (fst kv, json_canon opts (snd kv))) kvs)"
| "json_canon opts v = v"

text \<open>
  A float text is one the reader takes back to the float, which is what Python promises of
  \<^verbatim>\<open>repr\<close>; dicts have distinct keys, and the non-finite floats are the three there are.
\<close>

definition float_reads :: "(rat \<Rightarrow> string) \<Rightarrow> rat \<Rightarrow> bool" where
  "float_reads fr r \<longleftrightarrow> (\<forall>n rest. stops rest \<longrightarrow> scan_value (Suc n) (fr r @ rest) = Some (PFloat r, rest))"

fun json_value :: "(rat \<Rightarrow> string) \<Rightarrow> pyval \<Rightarrow> bool" where
  "json_value fr (PFloat r) = float_reads fr r"
| "json_value fr (PNonFinite s) = (s \<in> {''nan'', ''inf'', ''-inf''})"
| "json_value fr (PList vs) = (\<forall>v \<in> set vs. json_value fr v)"
| "json_value fr (PDict kvs) = (distinct (map fst kvs) \<and> (\<forall>kv \<in> set kvs. json_value fr (snd kv)))"
| "json_value fr v = True"

subsection \<open>Texts\<close>

lemma scan_simple_escape:
  assumes "d \<noteq> CHR ''u''"
  shows "scan_str (CHR 0x5C # d # t) = (case simple_escape d of None \<Rightarrow> None
     | Some e \<Rightarrow> map_option (\<lambda>(r, u). (e # r, u)) (scan_str t))"
  using assms by (cases "simple_escape d"; subst scan_str.simps(2)) (simp_all del: scan_str.simps split: list.split)

lemma hex_nibble_digit: "n < 16 \<Longrightarrow> hex_nibble (hex_digit n) = Some n"
  by (auto simp: hex_nibble_def hex_digit_def)

lemma scan_escape: "scan_str (json_escape a c @ t) = map_option (\<lambda>(r, u). (c # r, u)) (scan_str t)"
proof -
  have "code c < 256" by simp
  then have le: "code c div 16 < 16" "code c mod 16 < 16" by (linarith, simp)
  have hex: "hex_nibble (hex_digit (code c div 16)) = Some (code c div 16)" "hex_nibble (hex_digit (code c mod 16)) = Some (code c mod 16)"
    by (rule hex_nibble_digit, rule le)+
  have zero: "hex_nibble CHR ''0'' = Some 0" by code_simp
  have "16 * (code c div 16) + code c mod 16 = code c" by simp
  then have whole: "char_of (16 * (code c div 16) + code c mod 16) = c" by simp
  have ctl: "c = char_of n" if "code c = n" for n using that by (metis char_of_char)
  show ?thesis
  proof (cases "c \<in> {CHR 0x22, CHR 0x5C, char_of (10::nat), char_of (13::nat), char_of (9::nat), char_of (12::nat), char_of (8::nat)}")
    case True
    then have "\<exists>d. json_escape a c = [CHR 0x5C, d] \<and> d \<noteq> CHR ''u'' \<and> simple_escape d = Some c"
      by (elim insertE emptyE; hypsubst) code_simp+
    then show ?thesis by (auto simp: scan_simple_escape simp del: scan_str.simps)
  next
    case False
    then have "code c \<notin> {10, 13, 9, 12, 8}" using ctl by blast
    with False have esc: "json_escape a c = (if code c < 32 \<or> (a \<and> 126 < code c)
        then CHR 0x5C # ''u00'' @ [hex_digit (code c div 16), hex_digit (code c mod 16)] else [c])"
      by (simp add: json_escape_def)
    show ?thesis using False by (simp add: esc hex zero whole)
  qed
qed

lemma scan_json_str: "scan_str (concat (map (json_escape a) s) @ CHR 0x22 # rest) = Some (s, rest)"
  by (induction s) (simp_all add: scan_escape)

subsection \<open>Numbers\<close>

lemma nat_str_digits: "\<forall>c \<in> set (nat_str n). is_digit c"
  by (induction n rule: nat_str.induct) (subst nat_str.simps, auto simp: is_digit_def)

lemma nat_str_ne: "nat_str n \<noteq> []"
  by (subst nat_str.simps) simp

lemma nat_str_hd: "0 < n \<Longrightarrow> hd (nat_str n) \<noteq> CHR ''0''"
proof (induction n rule: nat_str.induct)
  case (1 n)
  show ?case
  proof (cases "n < 10")
    case True
    have "char_of (48 + n) \<noteq> CHR ''0''"
    proof
      assume "char_of (48 + n) = CHR ''0''"
      then have "code (char_of (48 + n) :: char) = code CHR ''0''" by (rule arg_cong)
      then show False using True 1(2) by simp
    qed
    then show ?thesis using True by (subst nat_str.simps) simp
  next
    case False
    then have "hd (nat_str n) = hd (nat_str (n div 10))" by (subst nat_str.simps) (simp add: nat_str_ne)
    then show ?thesis using 1(1) False by simp
  qed
qed

lemma digits_value_nat_str: "digits_value (nat_str n) = n"
  by (induction n rule: nat_str.induct) (subst nat_str.simps, simp add: digits_value_def)

lemma stops_not_digit: "stops rest \<Longrightarrow> rest = [] \<or> \<not> is_digit (hd rest)"
  by (auto simp: stops_def is_digit_def)

lemma scan_digits_nat_str:
  assumes "stops rest"
  shows "scan_digits (nat_str n @ rest) = (nat_str n, rest)"
  using stops_not_digit [OF assms] nat_str_digits [of n]
  by (cases rest) (simp_all add: scan_digits_def takeWhile_append dropWhile_append)

lemma stops_after_number:
  assumes "stops rest"
  shows "scan_frac rest = ([], rest)" "scan_exp rest = (None, rest)"
  using assms by (auto simp: stops_def scan_frac_def scan_exp_def split: list.split)

lemma scan_nat_nat_str:
  assumes "stops rest"
  shows "scan_nat (nat_str n @ rest) = Some (nat_str n, rest)"
proof (cases "n = 0")
  case True
  have "nat_str 0 = ''0''" by code_simp
  then show ?thesis using True by (simp add: scan_nat_def)
next
  case False
  obtain c cs where s: "nat_str n = c # cs" using nat_str_ne [of n] by (cases "nat_str n") auto
  have "c \<noteq> CHR ''0''" "is_digit c" using nat_str_hd [of n] nat_str_digits [of n] False s by auto
  then show ?thesis using scan_digits_nat_str [OF assms, of n] s by (simp add: scan_nat_def)
qed

lemma scan_unsigned_nat_str:
  assumes "stops rest"
  shows "scan_unsigned neg (nat_str n @ rest) = Some (PInt (if neg then - int n else int n), rest)"
  using scan_nat_nat_str [OF assms, of n] stops_after_number [OF assms]
  by (simp add: scan_unsigned_def number_value_def digits_value_nat_str)

lemma digit_not_letter:
  "is_digit c \<Longrightarrow> c \<notin> {CHR ''n'', CHR ''t'', CHR ''f'', CHR ''N'', CHR ''I'', CHR ''-'', CHR 0x22, CHR ''['', CHR ''{'', CHR '']'', CHR ''}''}"
  by (auto simp: is_digit_def)

lemma scan_word_int_str:
  assumes "stops rest"
  shows "scan_word (int_str i @ rest) = Some (PInt i, rest)"
proof -
  obtain c cs where s: "nat_str (nat \<bar>i\<bar>) = c # cs" using nat_str_ne by (metis list.exhaust)
  have c: "is_digit c" using nat_str_digits [of "nat \<bar>i\<bar>"] s by simp
  note nl = digit_not_letter [OF c]
  show ?thesis
  proof (cases "i < 0")
    case True
    then have "int_str i @ rest = CHR ''-'' # nat_str (nat \<bar>i\<bar>) @ rest" by (simp add: int_str_def)
    then show ?thesis using nl s scan_unsigned_nat_str [OF assms, of True "nat \<bar>i\<bar>"] True
      by (simp add: scan_word_def scan_number_def eval_nat_numeral)
  next
    case False
    then have "int_str i @ rest = nat_str (nat \<bar>i\<bar>) @ rest" by (simp add: int_str_def)
    then show ?thesis using nl s scan_unsigned_nat_str [OF assms, of False "nat \<bar>i\<bar>"] False
      by (simp add: scan_word_def scan_number_def eval_nat_numeral)
  qed
qed

subsection \<open>Values\<close>

text \<open>A value starts with no white space and no closing bracket.\<close>

lemma scan_word_starts:
  assumes "scan_word (c # t) = Some x"
  shows "code c \<notin> {32, 9, 10, 13} \<and> c \<noteq> CHR '']'' \<and> c \<noteq> CHR ''}''"
proof (rule ccontr)
  assume "\<not> ?thesis"
  then have c: "code c \<in> {32, 9, 10, 13, 93, 125}" by auto
  then have "c \<notin> {CHR ''n'', CHR ''t'', CHR ''f'', CHR ''N'', CHR ''I'', CHR ''-''}" "c \<noteq> CHR ''0''" "\<not> is_digit c"
    by (auto simp: is_digit_def)
  then have "scan_word (c # t) = None"
    by (simp add: scan_word_def scan_number_def scan_unsigned_def scan_nat_def eval_nat_numeral)
  then show False using assms by simp
qed

lemma scan_value_starts:
  assumes "scan_value n s = Some x"
  shows "\<exists>c t. s = c # t \<and> json_ws s = s \<and> c \<noteq> CHR '']'' \<and> c \<noteq> CHR ''}''"
proof -
  obtain m where n: "n = Suc m" using assms by (cases n) simp_all
  obtain c t where s: "s = c # t" using assms n by (cases s) simp_all
  have "code c \<notin> {32, 9, 10, 13} \<and> c \<noteq> CHR '']'' \<and> c \<noteq> CHR ''}''"
  proof (cases "c \<in> {CHR 0x22, CHR ''['', CHR ''{''}")
    case False
    then have "scan_word (c # t) = Some x" using assms unfolding n s scan_value.simps by simp
    then show ?thesis by (rule scan_word_starts)
  qed auto
  then show ?thesis using s by (simp add: json_ws_def)
qed

definition reads :: "string \<Rightarrow> pyval \<Rightarrow> bool" where
  "reads s v \<longleftrightarrow> s \<noteq> [] \<and> (\<forall>n rest. stops rest \<longrightarrow> 2 * length s \<le> n \<longrightarrow> scan_value n (s @ rest) = Some (v, rest))"

lemma json_ws_sep: "plain_seps opts \<Longrightarrow> \<exists>t. item_sep opts @ s = CHR '','' # t \<and> json_ws t = json_ws s"
  "plain_seps opts \<Longrightarrow> \<exists>t. key_sep opts @ s = CHR '':'' # t \<and> json_ws t = json_ws s"
  by (auto simp: plain_seps_def json_ws_def)

lemma reads_starts: "reads s v \<Longrightarrow> stops rest \<Longrightarrow> json_ws (s @ rest) = s @ rest"
  unfolding reads_def using scan_value_starts by blast

lemma stops_simps [simp]: "stops []" "stops (CHR '','' # s)" "stops (CHR '']'' # s)" "stops (CHR ''}'' # s)"
  by (simp_all add: stops_def)

lemma scan_elements_reads:
  assumes "plain_seps opts" and "list_all2 reads ss vs" and "ss \<noteq> []" and "2 * length (join (item_sep opts) ss) + 1 \<le> n"
  shows "scan_elements n (join (item_sep opts) ss @ CHR '']'' # rest) = Some (vs, rest)"
  using assms(2-4)
proof (induction "item_sep opts" ss arbitrary: vs n rule: join.induct)
  case (2 s)
  obtain v where v: "vs = [v]" "reads s v" using 2(1) by (auto simp: list_all2_Cons1)
  obtain m where n: "n = Suc m" "2 * length s \<le> m" using 2(3) by (cases n) auto
  have "scan_value m (s @ CHR '']'' # rest) = Some (v, CHR '']'' # rest)" using v(2) n(2) by (simp add: reads_def)
  then show ?case by (simp add: n v json_ws_def)
next
  case (3 s s' ss)
  obtain v vs' where v: "vs = v # vs'" "reads s v" "list_all2 reads (s' # ss) vs'" using 3(2) by (auto simp: list_all2_Cons1)
  let ?tail = "join (item_sep opts) (s' # ss) @ CHR '']'' # rest"
  obtain t where t: "item_sep opts @ ?tail = CHR '','' # t" "json_ws t = json_ws ?tail" using json_ws_sep(1) [OF assms(1)] by blast
  have "item_sep opts \<noteq> []" using assms(1) by (auto simp: plain_seps_def)
  then have "1 \<le> length (item_sep opts)" by (cases "item_sep opts") simp_all
  then obtain m where n: "n = Suc m" "2 * length s \<le> m" "2 * length (join (item_sep opts) (s' # ss)) + 1 \<le> m"
    using 3(4) by (cases n) auto
  have first: "scan_value m (s @ CHR '','' # t) = Some (v, CHR '','' # t)" using v(2) n(2) by (simp add: reads_def)
  have rest: "scan_elements m ?tail = Some (vs', rest)" by (rule 3(1) [OF v(3) _ n(3)]) simp
  obtain v' where "reads s' v'" using v(3) by (auto simp: list_all2_Cons1)
  moreover have "\<exists>u. ?tail = s' @ u \<and> stops u"
    using json_ws_sep(1) [OF assms(1)] by (cases ss) (auto, metis stops_simps(2))
  ultimately have "json_ws ?tail = ?tail" using reads_starts by metis
  then show ?case using first rest t by (simp add: n v json_ws_def [of "CHR '','' # t"])
qed simp

definition member_text :: "json_opts \<Rightarrow> string \<times> string \<Rightarrow> string" where
  "member_text opts ks = json_str (ensure_ascii opts) (fst ks) @ key_sep opts @ snd ks"

lemma member_text_ws: "json_ws (member_text opts ks @ u) = member_text opts ks @ u"
  by (simp add: member_text_def json_str_def json_ws_def)

lemma scan_member_step:
  assumes "plain_seps opts" and "reads s v" and "stops (c # u)" and "2 * length s \<le> m"
  shows "scan_members (Suc m) (member_text opts (k, s) @ c # u) =
     (if c = CHR '','' then map_option (\<lambda>(xs, r). ((k, v) # xs, r)) (scan_members m (json_ws u))
      else if c = CHR ''}'' then Some ([(k, v)], u) else None)"
proof -
  have c: "code c \<notin> {32, 9, 10, 13}" using assms(3) by (auto simp: stops_def)
  obtain t where t: "key_sep opts @ s @ c # u = CHR '':'' # t" "json_ws t = json_ws (s @ c # u)"
    using json_ws_sep(2) [OF assms(1)] by blast
  have "json_ws t = s @ c # u" using t(2) reads_starts [OF assms(2,3)] by simp
  moreover have "scan_value m (s @ c # u) = Some (v, c # u)" using assms(2-4) by (simp add: reads_def)
  ultimately show ?thesis using t(1) c
    by (simp add: member_text_def json_str_def scan_json_str json_ws_def [of "CHR '':'' # t"] json_ws_def [of "c # u"])
qed

lemma scan_members_reads:
  assumes "plain_seps opts" and "\<forall>(k, s, v) \<in> set its. reads s v" and "its \<noteq> []"
    and "2 * length (join (item_sep opts) (map (\<lambda>(k, s, v). member_text opts (k, s)) its)) + 1 \<le> n"
  shows "scan_members n (join (item_sep opts) (map (\<lambda>(k, s, v). member_text opts (k, s)) its) @ CHR ''}'' # rest) =
     Some (map (\<lambda>(k, s, v). (k, v)) its, rest)"
  using assms(2-4)
proof (induction its arbitrary: n)
  case (Cons it its)
  obtain k s v where it: "it = (k, s, v)" by (cases it)
  have v: "reads s v" using Cons(2) it by simp
  have len: "length s \<le> length (member_text opts (k, s))" by (simp add: member_text_def)
  obtain m where n: "n = Suc m" using Cons(4) by (cases n) simp_all
  show ?case
  proof (cases its)
    case Nil
    have "2 * length s \<le> m" using Cons(4) len by (simp add: n Nil it)
    then show ?thesis using scan_member_step [OF assms(1) v, of "CHR ''}''" rest m k] by (simp add: n Nil it)
  next
    case (Cons it' its')
    let ?texts = "map (\<lambda>(k, s, v). member_text opts (k, s)) its"
    let ?tail = "join (item_sep opts) ?texts @ CHR ''}'' # rest"
    have ne: "item_sep opts \<noteq> []" using assms(1) by (auto simp: plain_seps_def)
    then have l1: "1 \<le> length (item_sep opts)" by (cases "item_sep opts") simp_all
    have split: "join (item_sep opts) (member_text opts (k, s) # ?texts) = member_text opts (k, s) @ item_sep opts @ join (item_sep opts) ?texts"
      using Cons by simp
    have le: "2 * length s \<le> m" "2 * length (join (item_sep opts) ?texts) + 1 \<le> m"
      using Cons.prems(3) len l1 unfolding n it list.map prod.case split by auto
    have rec: "scan_members m ?tail = Some (map (\<lambda>(k, s, v). (k, v)) its, rest)"
      by (rule Cons.IH) (use Cons.prems Cons le in auto)
    obtain t where t: "item_sep opts @ ?tail = CHR '','' # t" "json_ws t = json_ws ?tail" using json_ws_sep(1) [OF assms(1)] by blast
    have "\<exists>ks u. ?tail = member_text opts ks @ u" using Cons by (cases it'; cases its') auto
    then have "json_ws ?tail = ?tail" using member_text_ws by metis
    then show ?thesis using scan_member_step [OF assms(1) v, of "CHR '','' " t m k] le rec t
      unfolding n it list.map prod.case split by simp
  qed
qed simp

lemma dict_set_fresh: "k \<notin> fst ` set kvs \<Longrightarrow> dict_set k v kvs = kvs @ [(k, v)]"
  by (induction kvs) auto

lemma dict_of_pairs_distinct: "distinct (map fst kvs) \<Longrightarrow> dict_of_pairs kvs = kvs"
proof -
  have "fold (\<lambda>(k, v). dict_set k v) kvs acc = acc @ kvs" if "distinct (map fst (acc @ kvs))" for acc
    using that by (induction kvs arbitrary: acc) (auto simp: dict_set_fresh)
  from this [of "[]"] show "distinct (map fst kvs) \<Longrightarrow> dict_of_pairs kvs = kvs" by (simp add: dict_of_pairs_def)
qed

lemma those_map_list_all2: "those (map f xs) = Some ys \<longleftrightarrow> list_all2 (\<lambda>x y. f x = Some y) xs ys"
  by (induction xs arbitrary: ys) (auto simp: list_all2_Cons1 split: option.splits)

lemma reads_scan:
  assumes "s \<noteq> []" and "\<And>n rest. stops rest \<Longrightarrow> scan_value (Suc n) (s @ rest) = Some (v, rest)"
  shows "reads s v"
  unfolding reads_def
proof (intro conjI allI impI assms(1))
  fix n rest assume "stops rest" "2 * length s \<le> n"
  moreover then obtain m where "n = Suc m" using assms(1) by (cases n) auto
  ultimately show "scan_value n (s @ rest) = Some (v, rest)" using assms(2) by simp
qed

lemma reads_list:
  assumes "plain_seps opts" and "list_all2 reads ss vs"
  shows "reads (''['' @ join (item_sep opts) ss @ '']'') (PList vs)"
  unfolding reads_def
proof (intro conjI allI impI)
  fix n rest assume n: "2 * length (''['' @ join (item_sep opts) ss @ '']'') \<le> n" and "stops rest"
  then obtain m where m: "n = Suc m" "2 * length (join (item_sep opts) ss) + 1 \<le> m" by (cases n) auto
  show "scan_value n ((''['' @ join (item_sep opts) ss @ '']'') @ rest) = Some (PList vs, rest)"
  proof (cases ss)
    case Nil
    then show ?thesis using assms(2) by (simp add: m json_ws_def)
  next
    case (Cons s ss')
    obtain v where "reads s v" using assms(2) Cons by (auto simp: list_all2_Cons1)
    moreover obtain u where u: "join (item_sep opts) ss @ CHR '']'' # rest = s @ u" "stops u"
      using Cons json_ws_sep(1) [OF assms(1)] by (cases ss') (auto, metis stops_simps(2))
    ultimately have "\<exists>c t. s @ u = c # t \<and> json_ws (s @ u) = s @ u \<and> c \<noteq> CHR '']''" using scan_value_starts unfolding reads_def by blast
    then obtain c t where "join (item_sep opts) ss @ CHR '']'' # rest = c # t" "json_ws (c # t) = c # t" "c \<noteq> CHR '']''" using u by metis
    moreover have "scan_elements m (join (item_sep opts) ss @ CHR '']'' # rest) = Some (vs, rest)"
      by (rule scan_elements_reads [OF assms _ m(2)]) (simp add: Cons)
    ultimately show ?thesis by (simp add: m)
  qed
qed simp

lemma reads_dict:
  assumes "plain_seps opts" and "\<forall>(k, s, v) \<in> set its. reads s v" and "distinct (map fst its)"
  shows "reads (''{'' @ join (item_sep opts) (map (\<lambda>(k, s, v). member_text opts (k, s)) its) @ ''}'')
     (PDict (map (\<lambda>(k, s, v). (k, v)) its))"
  unfolding reads_def
proof (intro conjI allI impI)
  let ?text = "join (item_sep opts) (map (\<lambda>(k, s, v). member_text opts (k, s)) its)"
  fix n rest assume n: "2 * length (''{'' @ ?text @ ''}'') \<le> n"
  then obtain m where m: "n = Suc m" "2 * length ?text + 1 \<le> m" by (cases n) auto
  show "scan_value n ((''{'' @ ?text @ ''}'') @ rest) = Some (PDict (map (\<lambda>(k, s, v). (k, v)) its), rest)"
  proof (cases its)
    case Nil
    then show ?thesis by (simp add: m json_ws_def)
  next
    case (Cons it its')
    have "\<exists>ks u. ?text @ CHR ''}'' # rest = member_text opts ks @ u" using Cons by (cases it; cases its') auto
    then obtain t where t: "?text @ CHR ''}'' # rest = CHR 0x22 # t" by (auto simp: member_text_def json_str_def)
    have "distinct (map fst (map (\<lambda>(k, s, v). (k, v)) its))" using assms(3) by (simp add: o_def case_prod_beta)
    then have "dict_of_pairs (map (\<lambda>(k, s, v). (k, v)) its) = map (\<lambda>(k, s, v). (k, v)) its" by (rule dict_of_pairs_distinct)
    moreover have "scan_members m (CHR 0x22 # t) = Some (map (\<lambda>(k, s, v). (k, v)) its, rest)"
      unfolding t [symmetric] by (rule scan_members_reads [OF assms(1,2) _ m(2)]) (simp add: Cons)
    ultimately show ?thesis using t by (simp add: m json_ws_def)
  qed
qed simp

lemma int_str_starts: "\<exists>c cs. int_str i = c # cs \<and> c \<noteq> CHR 0x22 \<and> c \<noteq> CHR ''['' \<and> c \<noteq> CHR ''{''"
proof -
  obtain d ds where d: "nat_str (nat \<bar>i\<bar>) = d # ds" using nat_str_ne by (metis list.exhaust)
  then have "is_digit d" using nat_str_digits [of "nat \<bar>i\<bar>"] by simp
  then show ?thesis using d digit_not_letter [of d] by (cases "i < 0") (simp_all add: int_str_def)
qed

lemma dumps_reads:
  assumes "plain_seps opts" and "json_value fr v" and "json_dumps opts fr v = Some s"
  shows "reads s (json_canon opts v)"
  using assms(2,3)
proof (induction v arbitrary: s)
  case (PFloat r)
  then have fl: "float_reads fr r" "s = fr r" by simp_all
  have "scan_value (Suc 0) (fr r @ []) = Some (PFloat r, [])" using fl(1) unfolding float_reads_def by (metis stops_simps(1))
  then have "fr r \<noteq> []" by auto
  then show ?case using fl by (intro reads_scan) (auto simp: float_reads_def)
next
  case (PInt i)
  obtain c cs where c: "int_str i = c # cs" "c \<noteq> CHR 0x22" "c \<noteq> CHR ''[''" "c \<noteq> CHR ''{''" using int_str_starts by blast
  have "scan_value (Suc n) (int_str i @ rest) = Some (PInt i, rest)" if "stops rest" for n rest
    using scan_word_int_str [OF that, of i] c by simp
  then show ?case using PInt c(1) by (intro reads_scan) (auto simp del: scan_value.simps)
next
  case (PStr x)
  then show ?case by (intro reads_scan) (auto simp: json_str_def scan_json_str)
next
  case (PList vs)
  obtain ss where ss: "those (map (json_dumps opts fr) vs) = Some ss" "s = ''['' @ join (item_sep opts) ss @ '']''"
    using PList(3) by auto
  have "list_all2 (\<lambda>v s. json_dumps opts fr v = Some s) vs ss" using ss(1) by (simp add: those_map_list_all2)
  then have "list_all2 reads ss (map (json_canon opts) vs)"
    using PList(1,2) by (auto simp: list_all2_conv_all_nth)
  then show ?case using reads_list [OF assms(1)] ss(2) by simp
next
  case (PDict kvs)
  obtain kss where kss: "those (map (\<lambda>kv. map_option (Pair (fst kv)) (json_dumps opts fr (snd kv))) kvs) = Some kss"
    and s: "s = ''{'' @ join (item_sep opts) (map (member_text opts) (if sort_keys opts then sort_key fst kss else kss)) @ ''}''"
    using PDict(3) by (auto simp: member_text_def [abs_def])
  have pairs: "list_all2 (\<lambda>kv ks. \<exists>t. json_dumps opts fr (snd kv) = Some t \<and> ks = (fst kv, t)) kvs kss"
    using kss by (auto simp: those_map_list_all2 list_all2_conv_all_nth)
  define its where "its = map (\<lambda>(kv, ks). (fst kv, snd ks, json_canon opts (snd kv))) (zip kvs kss)"
  have len: "length kvs = length kss" using pairs by (rule list_all2_lengthD)
  have rd: "\<forall>it \<in> set its. reads (fst (snd it)) (snd (snd it))"
  proof
    fix it assume "it \<in> set its"
    then obtain i where i: "i < length kvs" "it = (fst (kvs ! i), snd (kss ! i), json_canon opts (snd (kvs ! i)))"
      using len by (auto simp: its_def set_zip)
    moreover have "json_dumps opts fr (snd (kvs ! i)) = Some (snd (kss ! i))" using pairs i(1) by (auto simp: list_all2_conv_all_nth)
    moreover have "kvs ! i \<in> set kvs" using i(1) by simp
    ultimately show "reads (fst (snd it)) (snd (snd it))" using PDict(1) [of "kvs ! i" "snd (kvs ! i)"] PDict(2) by (simp add: snds.simps)
  qed
  have texts: "map (\<lambda>it. (fst it, fst (snd it))) its = kss"
    using pairs len by (auto simp: its_def list_eq_iff_nth_eq list_all2_conv_all_nth)
  have vals: "map (\<lambda>it. (fst it, snd (snd it))) its = map (\<lambda>kv. (fst kv, json_canon opts (snd kv))) kvs"
    using len by (auto simp: its_def list_eq_iff_nth_eq)
  have "map fst its = map fst kvs" using len by (auto simp: its_def list_eq_iff_nth_eq)
  then have dist: "distinct (map fst its)" using PDict(2) by simp
  let ?its = "if sort_keys opts then sort_key fst its else its"
  have "reads (''{'' @ join (item_sep opts) (map (\<lambda>(k, s, v). member_text opts (k, s)) ?its) @ ''}'') (PDict (map (\<lambda>(k, s, v). (k, v)) ?its))"
    by (rule reads_dict [OF assms(1)]) (use rd dist distinct_map_sort_key in auto)
  moreover have "map (\<lambda>(k, s, v). member_text opts (k, s)) ?its = map (member_text opts) (if sort_keys opts then sort_key fst kss else kss)"
    unfolding texts [symmetric] by (simp add: sort_key_map o_def case_prod_beta)
  moreover have "PDict (map (\<lambda>(k, s, v). (k, v)) ?its) = json_canon opts (PDict kvs)"
    unfolding json_canon.simps vals [symmetric] by (simp add: sort_key_map o_def case_prod_beta)
  ultimately show ?case unfolding s by simp
next
  case (PNonFinite x)
  then show ?case by (intro reads_scan) (auto simp: scan_word_def eval_nat_numeral split: if_splits)
next
  case PNone
  then show ?case by (intro reads_scan) (auto simp: scan_word_def eval_nat_numeral)
next
  case (PBool b)
  then show ?case by (intro reads_scan) (auto simp: scan_word_def eval_nat_numeral split: if_splits)
qed simp

text \<open>Reading a printed document gives the printed value, its dicts in the printed order.\<close>

lemma loads_dumps:
  assumes "plain_seps opts" and "json_value fr v" and "json_dumps opts fr v = Some s"
  shows "json_loads s = Some (json_canon opts v)"
proof -
  have rd: "reads s (json_canon opts v)" by (rule dumps_reads [OF assms])
  have "2 * length s \<le> 2 * length s + 2" by simp
  then have "scan_value (2 * length s + 2) (s @ []) = Some (json_canon opts v, [])"
    using rd stops_simps(1) unfolding reads_def by blast
  moreover have "json_ws s = s" using reads_starts [OF rd, of "[]"] by simp
  moreover have "json_ws [] = []" by (simp add: json_ws_def)
  ultimately show ?thesis by (simp add: json_loads_def del: scan_value.simps)
qed

corollary dumps_inj:
  assumes "plain_seps opts" and "json_value fr v" "json_value fr w" and "json_dumps opts fr v = Some s" "json_dumps opts fr w = Some s"
  shows "json_canon opts v = json_canon opts w"
  using loads_dumps [OF assms(1,2,4)] loads_dumps [OF assms(1,3,5)] by simp

end
