(* ===== verification/Contradictions.thy ===== *)
theory Contradictions
  imports Revocations Py_Json
begin

text \<open>
  Contradictions between fact versions: \<^verbatim>\<open>services/contradictions.py\<close>. Shown: a reader sees a
  contradiction only if both versions are visible to him and then always gets its view; a
  contradiction is closed at most once and facts never change; a review by a language model,
  whatever text the model writes, stores only open contradictions between two different
  current facts of the entity that the caller may see, each pair at most once.
\<close>

section \<open>Records\<close>

definition REVIEW_PROMPT :: string where "REVIEW_PROMPT = ''contradiction-review-v1''"
definition MAX_CONTRADICTIONS :: int where "MAX_CONTRADICTIONS = 200"
definition MAX_REVIEW_FACTS :: nat where "MAX_REVIEW_FACTS = 50"
definition MAX_RENDERED_CHARS :: nat where "MAX_RENDERED_CHARS = 300"

record contradiction_side =
  sd_fact_id :: uuid
  sd_property :: string
  sd_source_id :: uuid
  sd_source_name :: string
  sd_version :: version_snapshot

record contradiction_view =
  cw_id :: uuid
  cw_entity_type :: string
  cw_external_id :: string
  cw_kind :: contradiction_kind
  cw_detector :: string
  cw_explanation :: explanation
  cw_status :: contradiction_status
  cw_preferred_version_id :: "uuid option"
  cw_privacy_scope :: privacy_scope
  cw_left :: contradiction_side
  cw_right :: contradiction_side
  cw_detected_at :: instant
  cw_resolved_at :: "instant option"
  cw_resolved_by_user_id :: "uuid option"
  cw_resolution_note :: "string option"

record review_result =
  vr_entity_type :: string
  vr_external_id :: string
  vr_facts_reviewed :: nat
  vr_created :: "contradiction_view list"
  vr_already_known :: nat
  vr_rejected_findings :: nat
  vr_prompt_version :: string
  vr_model :: "string option"

section \<open>Reading\<close>

definition visible_to :: "db \<Rightarrow> tenant_context \<Rightarrow> permission \<Rightarrow> privacy_scope list result" where
  "visible_to db ctx p = bindr (require_permission db ctx p) (\<lambda>role.
     Inr (sort_key privacy_index (visible_privacy_scopes role [ctx_max_privacy_scope ctx])))"

definition contradiction_row :: "db \<Rightarrow> tenant_context \<Rightarrow> uuid \<Rightarrow> privacy_scope list \<Rightarrow> contradiction result" where
  "contradiction_row db ctx cid visible = some_or
     (find (\<lambda>c. c_org c = ctx_org ctx \<and> c_id c = cid \<and> c_privacy_scope c \<in> set visible) (contradictions db))
     (NotFoundError ''contradiction not found'')"

definition side_rows :: "db \<Rightarrow> uuid \<Rightarrow> uuid \<Rightarrow> (fact_version \<times> fact \<times> entity \<times> fact_source) list" where
  "side_rows db org vid = [(v, f, e, s). v \<leftarrow> fact_versions db, f \<leftarrow> facts db, e \<leftarrow> entities db, s \<leftarrow> sources db,
     f_org f = fv_org v \<and> f_id f = fv_fact_id v \<and> en_org e = f_org f \<and> en_id e = f_entity_id f \<and>
     s_org s = fv_org v \<and> s_id s = fv_source_id v \<and> fv_org v = org \<and> fv_id v = vid]"

definition contradiction_side_of :: "db \<Rightarrow> uuid \<Rightarrow> uuid \<Rightarrow> (contradiction_side \<times> entity) result" where
  "contradiction_side_of db org vid = bindr (one_row (side_rows db org vid)) (\<lambda>(v, f, e, s).
     Inr (\<lparr>sd_fact_id = f_id f, sd_property = f_property f, sd_source_id = s_id s, sd_source_name = s_name s,
       sd_version = to_snapshot v\<rparr>, e))"

definition view_of :: "db \<Rightarrow> contradiction \<Rightarrow> contradiction_view result" where
  "view_of db c =
     bindr (contradiction_side_of db (c_org c) (c_left_version_id c)) (\<lambda>(left, e).
     bindr (contradiction_side_of db (c_org c) (c_right_version_id c)) (\<lambda>(right, _).
     Inr \<lparr>cw_id = c_id c, cw_entity_type = en_type e, cw_external_id = en_external_id e, cw_kind = c_kind c,
       cw_detector = c_detector c, cw_explanation = c_explanation c, cw_status = c_status c,
       cw_preferred_version_id = c_preferred_version_id c, cw_privacy_scope = c_privacy_scope c, cw_left = left,
       cw_right = right, cw_detected_at = c_detected_at c, cw_resolved_at = c_resolved_at c,
       cw_resolved_by_user_id = c_resolved_by_user_id c, cw_resolution_note = c_resolution_note c\<rparr>))"

definition list_contradictions ::
  "db \<Rightarrow> tenant_context \<Rightarrow> contradiction_status option \<Rightarrow> string option \<Rightarrow> string option \<Rightarrow> int \<Rightarrow>
   contradiction_view list result" where
  "list_contradictions db ctx status etype ext limit =
     bindr (requirer (1 \<le> limit \<and> limit \<le> MAX_CONTRADICTIONS) (ValidationFailedError ''limit must be between 1 and 200'')) (\<lambda>_.
     bindr (visible_to db ctx READ_FACTS) (\<lambda>visible.
     mapr (view_of db) (take (nat limit) (sort_key (\<lambda>c. (- c_detected_at c, c_id c))
       [c. c \<leftarrow> contradictions db, e \<leftarrow> entities db,
          en_org e = c_org c \<and> en_id e = c_entity_id c \<and> c_org c = ctx_org ctx \<and> c_privacy_scope c \<in> set visible \<and>
          (status = None \<or> status = Some (c_status c)) \<and> (etype = None \<or> etype = Some (en_type e)) \<and>
          (ext = None \<or> ext = Some (en_external_id e))]))))"

definition get_contradiction :: "db \<Rightarrow> tenant_context \<Rightarrow> uuid \<Rightarrow> contradiction_view result" where
  "get_contradiction db ctx cid =
     bindr (visible_to db ctx READ_FACTS) (\<lambda>visible.
     bindr (contradiction_row db ctx cid visible) (\<lambda>row.
     view_of db row))"

section \<open>Resolving\<close>

text \<open>
  \<open>now\<close> is the application's UTC clock. The update is refused by the column's width when the
  note has more than 2000 characters.
\<close>

definition resolve_contradiction ::
  "instant \<Rightarrow> tenant_context \<Rightarrow> uuid \<Rightarrow> contradiction_status \<Rightarrow> string option \<Rightarrow> db \<Rightarrow> (contradiction_view \<times> db) result" where
  "resolve_contradiction now ctx cid status note db =
     bindr (requirer (status \<noteq> OPEN) (ValidationFailedError ''status must be resolved or dismissed'')) (\<lambda>_.
     bindr (visible_to db ctx WRITE_FACTS) (\<lambda>visible.
     bindr (contradiction_row db ctx cid visible) (\<lambda>row.
     bindr (requirer (c_status row = OPEN) (ConflictError ''contradiction is already closed'')) (\<lambda>_.
     let row' = row\<lparr>c_status := status, c_resolution_note := note, c_resolved_by_user_id := Some (ctx_user ctx),
         c_resolved_at := Some now\<rparr> in
     bindr (requirer (case note of None \<Rightarrow> True | Some n \<Rightarrow> length n \<le> 2000) (PyError ''DataError'')) (\<lambda>_.
     bindr (requirer (contradiction_checks db row' \<and> ctx_user ctx \<in> u_id ` set (users db)) (IntegrityError ''contradictions'')) (\<lambda>_.
     let db' = db\<lparr>contradictions := map (\<lambda>c. if c_id c = c_id row then row' else c) (contradictions db)\<rparr> in
     bindr (view_of db' row') (\<lambda>view. Inr (view, db'))))))))"

section \<open>Review by a language model\<close>

definition default_opts :: json_opts where
  "default_opts = \<lparr>sort_keys = False, item_sep = '', '', key_sep = '': '', ensure_ascii = True, allow_nan = True\<rparr>"

definition label_of :: "nat \<Rightarrow> string" where
  "label_of i = CHR ''F'' # nat_str i"

definition labelled_facts :: "resolved_fact list \<Rightarrow> (string \<times> resolved_fact) list" where
  "labelled_facts fs = map (\<lambda>(i, f). (label_of i, f)) (enumerate 1 fs)"

definition render_review :: "runtime \<Rightarrow> (string \<times> resolved_fact) list \<Rightarrow> string result" where
  "render_review R labelled = bindr (mapr (\<lambda>(label, f).
       bindr (some_or (json_dumps default_opts (float_repr R) (vs_value (rf_version f))) (PyError ''TypeError'')) (\<lambda>value.
       Inr (''['' @ label @ ''] '' @ rf_property f @ '' = '' @
         (if MAX_RENDERED_CHARS < length value then take MAX_RENDERED_CHARS value @ ''...'' else value)))) labelled)
     (\<lambda>lines. Inr (join [char_of (10::nat)] lines))"

text \<open>
  \<^verbatim>\<open>_parse_findings\<close>: any text that is not a list of objects with the three keys is
  malformed. An empty dict or text in place of the list iterates as no findings.
\<close>

definition finding_of :: "runtime \<Rightarrow> pyval \<Rightarrow> (string \<times> string \<times> string) option" where
  "finding_of R item = (case item of
       PDict kvs \<Rightarrow> (case (map_of kvs ''left'', map_of kvs ''right'', map_of kvs ''explanation'') of
           (Some l, Some r, Some e) \<Rightarrow> Some (py_str R l, py_str R r, py_str R e) | _ \<Rightarrow> None)
     | _ \<Rightarrow> None)"

definition parse_findings :: "runtime \<Rightarrow> string \<Rightarrow> (string \<times> string \<times> string) list option" where
  "parse_findings R text = (case json_loads text of
       Some (PDict kvs) \<Rightarrow> (case map_of kvs ''findings'' of
           Some (PList items) \<Rightarrow> those (map (finding_of R) items)
         | Some (PDict []) \<Rightarrow> Some [] | Some (PStr []) \<Rightarrow> Some [] | _ \<Rightarrow> None)
     | _ \<Rightarrow> None)"

definition accept_finding :: "(string \<times> resolved_fact) list \<Rightarrow> string \<times> string \<times> string \<Rightarrow> (resolved_fact \<times> resolved_fact \<times> string) option" where
  "accept_finding labelled finding = (case finding of (l, r, explanation) \<Rightarrow>
     (case (map_of labelled l, map_of labelled r) of
        (Some left, Some right) \<Rightarrow> if rf_fact_id left = rf_fact_id right then None else Some (left, right, explanation)
      | _ \<Rightarrow> None))"

text \<open>The rows of one transaction: pairs already stored are counted, new ones inserted and shown.\<close>

definition semantic_row :: "txn \<Rightarrow> nat \<Rightarrow> uuid \<Rightarrow> resolved_fact \<Rightarrow> resolved_fact \<Rightarrow> string \<Rightarrow> contradiction" where
  "semantic_row t i org first second explanation =
     \<lparr>c_id = t_ids t i, c_org = org, c_entity_id = rf_entity_id first, c_left_version_id = vs_id (rf_version first),
      c_right_version_id = vs_id (rf_version second), c_kind = SEMANTIC, c_detector = ''llm:'' @ REVIEW_PROMPT,
      c_explanation = ExplanationText (take 2000 explanation), c_preferred_version_id = None,
      c_privacy_scope = max (vs_privacy_scope (rf_version first)) (vs_privacy_scope (rf_version second)), c_status = OPEN,
      c_resolution_note = None, c_resolved_by_user_id = None, c_resolved_at = None, c_detected_at = t_now t\<rparr>"

fun store_findings ::
  "txn \<Rightarrow> nat \<Rightarrow> uuid \<Rightarrow> (resolved_fact \<times> resolved_fact \<times> string) list \<Rightarrow> db \<Rightarrow> (contradiction_view list \<times> nat \<times> db) result" where
  "store_findings t i org [] db = Inr ([], 0, db)"
| "store_findings t i org ((left, right, explanation) # rest) db =
     (let (first, second) = (if vs_id (rf_version left) \<le> vs_id (rf_version right) then (left, right) else (right, left)) in
      if \<exists>c \<in> set (contradictions db). c_org c = org \<and> c_left_version_id c = vs_id (rf_version first) \<and>
           c_right_version_id c = vs_id (rf_version second)
      then bindr (store_findings t i org rest db) (\<lambda>(created, known, db'). Inr (created, known + 1, db'))
      else let row = semantic_row t i org first second explanation in
        bindr (insert_contradiction db row) (\<lambda>db1.
        bindr (view_of db1 row) (\<lambda>view.
        bindr (store_findings t (i + 1) org rest db1) (\<lambda>(created, known, db'). Inr (view # created, known, db')))))"

text \<open>
  The chain of prompt and model is a parameter: from the entity and the rendered facts it
  gives the text and the name of the model, or the class name of a GenerationError. The
  permissions, the facts and the stored rows are three transactions, on \<open>db0\<close>, \<open>db1\<close> and \<open>db\<close>.
\<close>

definition conclude_review ::
  "runtime \<Rightarrow> string \<Rightarrow> txn \<Rightarrow> tenant_context \<Rightarrow> string \<Rightarrow> string \<Rightarrow> resolved_fact list \<Rightarrow> string + (string \<times> string) \<Rightarrow>
   db \<Rightarrow> (review_result \<times> db) result" where
  "conclude_review R model_id t ctx etype ext fs message db = (case message of
       Inl cause \<Rightarrow> Inl (PyError ''AnswerGenerationError'')
     | Inr (content, model) \<Rightarrow> (case parse_findings R content of
         None \<Rightarrow> Inl (PyError ''AnswerGenerationError'')
       | Some findings \<Rightarrow> let accepted = List.map_filter (accept_finding (labelled_facts fs)) findings in
           bindr (require_permission db ctx WRITE_FACTS) (\<lambda>_.
           bindr (store_findings t 0 (ctx_org ctx) accepted db) (\<lambda>(created, known, db').
           Inr (\<lparr>vr_entity_type = etype, vr_external_id = ext, vr_facts_reviewed = length fs, vr_created = created,
             vr_already_known = known, vr_rejected_findings = length findings - length accepted,
             vr_prompt_version = REVIEW_PROMPT, vr_model = Some (if model = [] then model_id else model)\<rparr>, db')))))"

definition review_entity ::
  "runtime \<Rightarrow> (string \<Rightarrow> string \<Rightarrow> string + (string \<times> string)) \<Rightarrow> string \<Rightarrow> txn \<Rightarrow> instant \<Rightarrow> db \<Rightarrow> db \<Rightarrow>
   tenant_context \<Rightarrow> string \<Rightarrow> string \<Rightarrow> db \<Rightarrow> (review_result \<times> db) result" where
  "review_entity R chain model_id t clock db0 db1 ctx etype ext db =
     bindr (require_permission db0 ctx READ_FACTS) (\<lambda>role.
     bindr (require_permission db0 ctx WRITE_FACTS) (\<lambda>_.
     let visible = visible_privacy_scopes role [ctx_max_privacy_scope ctx] in
     bindr (facts_at db1 ctx clock etype ext None None) (\<lambda>all.
     let fs = take MAX_REVIEW_FACTS (filter (\<lambda>f. vs_privacy_scope (rf_version f) \<in> set visible) all) in
     if length fs < 2 then Inr (\<lparr>vr_entity_type = etype, vr_external_id = ext, vr_facts_reviewed = length fs, vr_created = [],
         vr_already_known = 0, vr_rejected_findings = 0, vr_prompt_version = REVIEW_PROMPT, vr_model = None\<rparr>, db)
     else
       bindr (render_review R (labelled_facts fs)) (\<lambda>rendered.
       conclude_review R model_id t ctx etype ext fs (chain (etype @ '':'' @ ext) rendered) db))))"

section \<open>The invariant\<close>

text \<open>Every row obeys its constraints and is at least as sensitive as both versions.\<close>

definition contradictions_scoped :: "db \<Rightarrow> bool" where
  "contradictions_scoped db \<longleftrightarrow> (\<forall>c \<in> set (contradictions db). contradiction_checks db c \<and>
     (\<forall>v \<in> set (fact_versions db). fv_id v \<in> {c_left_version_id c, c_right_version_id c} \<longrightarrow>
        fv_privacy_scope v \<le> c_privacy_scope c))"

lemma side_rows_single:
  assumes ok: "ledger_ok db" and v: "v \<in> set (fact_versions db)" "fv_org v = org" "fv_id v = vid"
  obtains f e s where "side_rows db org vid = [(v, f, e, s)]" "joined db v f e s"
proof -
  obtain f e s where j: "joined db v f e s" by (rule joined_exists [OF ok v(1)])
  note d = ledger_distinct [OF ok]
  have "side_rows db org vid = [(v, f, e, s)]"
    unfolding side_rows_def
  proof (rule concat_map_key [of fv_id _ v], goal_cases)
    case 4
    show ?case
    proof (rule concat_map_key [of f_id _ f], goal_cases)
      case 4
      show ?case
      proof (rule concat_map_key [of en_id _ e], goal_cases)
        case 4
        show ?case by (rule concat_map_key [of s_id _ s]) (use j v d in \<open>auto simp: joined_def\<close>)
      qed (use j d in \<open>auto simp: joined_def intro!: concat_map_Nil\<close>)
    qed (use j d in \<open>auto simp: joined_def intro!: concat_map_Nil\<close>)
  qed (use v d in \<open>auto intro!: concat_map_Nil\<close>)
  then show ?thesis using that j by blast
qed

lemma contradiction_side_Inr:
  assumes ok: "ledger_ok db" and v: "v \<in> set (fact_versions db)" "fv_org v = org" "fv_id v = vid"
  shows "\<exists>sd e. contradiction_side_of db org vid = Inr (sd, e) \<and> sd_version sd = to_snapshot v \<and> sd_fact_id sd = fv_fact_id v"
proof (rule side_rows_single [OF ok v])
  fix f e s assume "side_rows db org vid = [(v, f, e, s)]" "joined db v f e s"
  then show ?thesis by (simp add: contradiction_side_of_def joined_def)
qed

lemma view_of_Inr:
  assumes ok: "ledger_ok db" and c: "contradiction_checks db c"
  obtains w l r where "view_of db c = Inr w" "l \<in> set (fact_versions db)" "r \<in> set (fact_versions db)"
    "fv_id l = c_left_version_id c" "fv_id r = c_right_version_id c" "fv_org l = c_org c" "fv_org r = c_org c"
    "sd_version (cw_left w) = to_snapshot l" "sd_version (cw_right w) = to_snapshot r"
    "cw_id w = c_id c" "cw_status w = c_status c" "cw_privacy_scope w = c_privacy_scope c"
proof -
  obtain l r where l: "l \<in> set (fact_versions db)" "fv_org l = c_org c" "fv_id l = c_left_version_id c"
    and r: "r \<in> set (fact_versions db)" "fv_org r = c_org c" "fv_id r = c_right_version_id c"
    using c by (auto simp: contradiction_checks_def)
  obtain ls le rs re where "contradiction_side_of db (c_org c) (c_left_version_id c) = Inr (ls, le)" "sd_version ls = to_snapshot l"
    "contradiction_side_of db (c_org c) (c_right_version_id c) = Inr (rs, re)" "sd_version rs = to_snapshot r"
    using contradiction_side_Inr [OF ok l] contradiction_side_Inr [OF ok r] by blast
  then have "\<exists>w. view_of db c = Inr w \<and> sd_version (cw_left w) = to_snapshot l \<and> sd_version (cw_right w) = to_snapshot r \<and>
      cw_id w = c_id c \<and> cw_status w = c_status c \<and> cw_privacy_scope w = c_privacy_scope c"
    by (simp add: view_of_def)
  then show ?thesis using that l r by blast
qed

lemma contradiction_row_Inr:
  "contradiction_row db ctx cid visible = Inr c \<Longrightarrow>
     c \<in> set (contradictions db) \<and> c_org c = ctx_org ctx \<and> c_id c = cid \<and> c_privacy_scope c \<in> set visible"
  by (auto simp: contradiction_row_def some_or_eq_Inr dest!: find_SomeD)

lemma visible_to_Inr:
  "visible_to db ctx p = Inr visible \<longleftrightarrow> (\<exists>role. require_permission db ctx p = Inr role \<and>
     visible = sort_key privacy_index (visible_privacy_scopes role [ctx_max_privacy_scope ctx]))"
  by (auto simp: visible_to_def bindr_eq_Inr)

text \<open>What a visible row shows: both versions lie within the scopes of the reader.\<close>

lemma visible_view:
  assumes ok: "ledger_ok db" "contradictions_scoped db" and c: "c \<in> set (contradictions db)"
    and role: "c_privacy_scope c \<in> set (visible_privacy_scopes role ceilings)"
  shows "\<exists>w. view_of db c = Inr w \<and> cw_id w = c_id c \<and>
    vs_privacy_scope (sd_version (cw_left w)) \<in> set (visible_privacy_scopes role ceilings) \<and>
    vs_privacy_scope (sd_version (cw_right w)) \<in> set (visible_privacy_scopes role ceilings)"
proof -
  have ck: "contradiction_checks db c" using ok(2) c by (auto simp: contradictions_scoped_def)
  obtain w l r where w: "view_of db c = Inr w" "cw_id w = c_id c" "sd_version (cw_left w) = to_snapshot l" "sd_version (cw_right w) = to_snapshot r"
    and v: "l \<in> set (fact_versions db)" "r \<in> set (fact_versions db)" "fv_id l = c_left_version_id c" "fv_id r = c_right_version_id c"
    by (rule view_of_Inr [OF ok(1) ck]) (rule that)
  have "fv_privacy_scope l \<le> c_privacy_scope c" "fv_privacy_scope r \<le> c_privacy_scope c"
    using ok(2) c v by (auto simp: contradictions_scoped_def)
  then have "fv_privacy_scope l \<in> set (visible_privacy_scopes role ceilings)" "fv_privacy_scope r \<in> set (visible_privacy_scopes role ceilings)"
    using role by (auto simp: visible_iff intro: order_trans)
  then show ?thesis using w by (simp add: to_snapshot_def)
qed

lemma mapr_total_all: "(\<And>x. x \<in> set xs \<Longrightarrow> \<exists>y. f x = Inr y \<and> P y) \<Longrightarrow> \<exists>ys. mapr f xs = Inr ys \<and> length ys = length xs \<and> (\<forall>y \<in> set ys. P y)"
  by (induction xs) fastforce+

section \<open>Properties\<close>

text \<open>
  C20. Who sees a contradiction: on a well-formed ledger, reading a contradiction answers
  exactly when the reader may read facts, the row is of his tenant and its scope is within
  the scopes of his role and ceiling; both versions it then shows are within these scopes.
  Listing answers for every limit from 1 to 200 and shows only such contradictions.
\<close>

theorem contradictions_visibility:
  assumes ok: "ledger_ok db" "contradictions_ok db" "contradictions_scoped db"
    and role: "require_permission db ctx READ_FACTS = Inr role"
    and visible: "visible = set (visible_privacy_scopes role [ctx_max_privacy_scope ctx])"
  shows "((\<exists>w. get_contradiction db ctx cid = Inr w) \<longleftrightarrow>
      (\<exists>c \<in> set (contradictions db). c_id c = cid \<and> c_org c = ctx_org ctx \<and> c_privacy_scope c \<in> visible)) \<and>
    (\<forall>w. get_contradiction db ctx cid = Inr w \<longrightarrow> cw_id w = cid \<and>
      vs_privacy_scope (sd_version (cw_left w)) \<in> visible \<and> vs_privacy_scope (sd_version (cw_right w)) \<in> visible) \<and>
    (1 \<le> limit \<and> limit \<le> 200 \<longrightarrow> (\<exists>ws. list_contradictions db ctx status etype ext limit = Inr ws \<and> length ws \<le> nat limit \<and>
      (\<forall>w \<in> set ws. vs_privacy_scope (sd_version (cw_left w)) \<in> visible \<and> vs_privacy_scope (sd_version (cw_right w)) \<in> visible)))"
proof -
  let ?vis = "sort_key privacy_index (visible_privacy_scopes role [ctx_max_privacy_scope ctx])"
  have vis: "visible_to db ctx READ_FACTS = Inr ?vis" "set ?vis = visible" using role visible by (simp_all add: visible_to_Inr)
  note view = visible_view [OF ok(1,3), where role = role and ceilings = "[ctx_max_privacy_scope ctx]", folded visible]
  have get: "get_contradiction db ctx cid = bindr (contradiction_row db ctx cid ?vis) (view_of db)"
    by (simp add: get_contradiction_def vis)
  have row: "contradiction_row db ctx cid ?vis = Inr c"
    if "c \<in> set (contradictions db)" "c_id c = cid" "c_org c = ctx_org ctx" "c_privacy_scope c \<in> visible" for c
  proof -
    have "find (\<lambda>c. c_org c = ctx_org ctx \<and> c_id c = cid \<and> c_privacy_scope c \<in> set ?vis) (contradictions db) = Some c"
      by (rule find_unique [of c_id]) (use that ok(2) vis in \<open>auto simp: contradictions_ok_def\<close>)
    then show ?thesis by (simp add: contradiction_row_def)
  qed
  have seen: "\<exists>c \<in> set (contradictions db). c_id c = cid \<and> c_org c = ctx_org ctx \<and> c_privacy_scope c \<in> visible \<and> view_of db c = Inr w"
    if "get_contradiction db ctx cid = Inr w" for w
    using that unfolding get bindr_eq_Inr using contradiction_row_Inr [of db ctx cid ?vis] vis by blast
  have lst: "\<exists>ws. list_contradictions db ctx status etype ext limit = Inr ws \<and> length ws \<le> nat limit \<and>
      (\<forall>w \<in> set ws. vs_privacy_scope (sd_version (cw_left w)) \<in> visible \<and> vs_privacy_scope (sd_version (cw_right w)) \<in> visible)"
    if "1 \<le> limit \<and> limit \<le> 200"
  proof -
    let ?rows = "[c. c \<leftarrow> contradictions db, e \<leftarrow> entities db,
          en_org e = c_org c \<and> en_id e = c_entity_id c \<and> c_org c = ctx_org ctx \<and> c_privacy_scope c \<in> set ?vis \<and>
          (status = None \<or> status = Some (c_status c)) \<and> (etype = None \<or> etype = Some (en_type e)) \<and>
          (ext = None \<or> ext = Some (en_external_id e))]"
    let ?xs = "take (nat limit) (sort_key (\<lambda>c. (- c_detected_at c, c_id c)) ?rows)"
    have "\<exists>w. view_of db c = Inr w \<and> vs_privacy_scope (sd_version (cw_left w)) \<in> visible \<and>
        vs_privacy_scope (sd_version (cw_right w)) \<in> visible" if "c \<in> set ?xs" for c
    proof -
      have "c \<in> set ?rows" using in_set_takeD [OF that] by simp
      then have "c \<in> set (contradictions db)" "c_privacy_scope c \<in> visible"
        using vis(2) by (auto split: if_splits)
      then show ?thesis using view by blast
    qed
    then have "\<exists>ws. mapr (view_of db) ?xs = Inr ws \<and> length ws = length ?xs \<and>
      (\<forall>w \<in> set ws. vs_privacy_scope (sd_version (cw_left w)) \<in> visible \<and> vs_privacy_scope (sd_version (cw_right w)) \<in> visible)"
      by (rule mapr_total_all)
    then obtain ws where ws: "mapr (view_of db) ?xs = Inr ws" "length ws = length ?xs"
      "\<forall>w \<in> set ws. vs_privacy_scope (sd_version (cw_left w)) \<in> visible \<and> vs_privacy_scope (sd_version (cw_right w)) \<in> visible"
      by (elim exE conjE)
    have "list_contradictions db ctx status etype ext limit = mapr (view_of db) ?xs"
      using that by (simp add: list_contradictions_def MAX_CONTRADICTIONS_def vis(1))
    then show ?thesis using ws by simp
  qed
  show ?thesis
  proof (intro conjI allI impI)
    show "(\<exists>w. get_contradiction db ctx cid = Inr w) \<longleftrightarrow>
      (\<exists>c \<in> set (contradictions db). c_id c = cid \<and> c_org c = ctx_org ctx \<and> c_privacy_scope c \<in> visible)"
      using seen row view unfolding get by fastforce
  qed (use seen view lst in fastforce)+
qed

text \<open>The row an update writes, and the tables after it.\<close>

lemma resolve_contradiction_cases:
  assumes ok: "ledger_ok db" "contradictions_ok db" "contradictions_scoped db"
  obtains (refused) e where "resolve_contradiction now ctx cid status note db = Inl e" "\<forall>m. e \<noteq> IntegrityError m"
  | (closed) c w where "c \<in> set (contradictions db)" "c_id c = cid" "c_org c = ctx_org ctx" "c_status c = OPEN" "status \<noteq> OPEN"
    "resolve_contradiction now ctx cid status note db = Inr (w, db\<lparr>contradictions := map (\<lambda>x. if c_id x = cid
       then c\<lparr>c_status := status, c_resolution_note := note, c_resolved_by_user_id := Some (ctx_user ctx), c_resolved_at := Some now\<rparr>
       else x) (contradictions db)\<rparr>)" "cw_status w = status"
proof -
  let ?run = "resolve_contradiction now ctx cid status note db"
  let ?new = "\<lambda>c. c\<lparr>c_status := status, c_resolution_note := note, c_resolved_by_user_id := Some (ctx_user ctx), c_resolved_at := Some now\<rparr>"
  let ?db' = "\<lambda>c. db\<lparr>contradictions := map (\<lambda>x. if c_id x = cid then ?new c else x) (contradictions db)\<rparr>"
  show ?thesis
  proof (cases "\<exists>visible c. status \<noteq> OPEN \<and> visible_to db ctx WRITE_FACTS = Inr visible \<and> contradiction_row db ctx cid visible = Inr c \<and>
      c_status c = OPEN \<and> (case note of None \<Rightarrow> True | Some n \<Rightarrow> length n \<le> 2000)")
    case False
    have "\<exists>e. ?run = Inl e \<and> (\<forall>m. e \<noteq> IntegrityError m)"
    proof (cases "visible_to db ctx WRITE_FACTS")
      case (Inl e)
      then have "\<forall>m. e \<noteq> IntegrityError m"
        using require_permission_no_integrity by (auto simp: visible_to_def bindr_eq_Inl)
      then show ?thesis using Inl by (cases "status = OPEN") (simp_all add: resolve_contradiction_def)
    next
      case (Inr visible)
      show ?thesis
      proof (cases "contradiction_row db ctx cid visible")
        case (Inl e)
        then have "\<forall>m. e \<noteq> IntegrityError m" by (auto simp: contradiction_row_def some_or_eq_Inl)
        then show ?thesis using Inl Inr by (cases "status = OPEN") (simp_all add: resolve_contradiction_def)
      next
        case row: (Inr c)
        then have "status = OPEN \<or> c_status c \<noteq> OPEN \<or> \<not> (case note of None \<Rightarrow> True | Some n \<Rightarrow> length n \<le> 2000)"
          using False Inr by blast
        then show ?thesis using row Inr
          by (cases "status = OPEN"; cases "c_status c = OPEN") (simp_all add: resolve_contradiction_def Let_def)
      qed
    qed
    then show ?thesis using refused by blast
  next
    case True
    then obtain visible c where vis: "visible_to db ctx WRITE_FACTS = Inr visible" and row: "contradiction_row db ctx cid visible = Inr c"
      and c: "status \<noteq> OPEN" "c_status c = OPEN" "case note of None \<Rightarrow> True | Some n \<Rightarrow> length n \<le> 2000" by blast
    have mem: "c \<in> set (contradictions db)" "c_org c = ctx_org ctx" "c_id c = cid"
      using contradiction_row_Inr [OF row] by simp_all
    have "contradiction_checks db c" using ok(3) mem(1) by (simp add: contradictions_scoped_def)
    then have ck: "contradiction_checks db (?new c)" using c(1) by (simp add: contradiction_checks_def)
    obtain r where "require_permission db ctx WRITE_FACTS = Inr r" using vis by (auto simp: visible_to_Inr)
    then have user: "ctx_user ctx \<in> u_id ` set (users db)" by (rule permitted_user_exists)
    have "ledger_ok (?db' c)" using ok(1) ledger_ok_cong [of "?db' c" db] by simp
    moreover have "contradiction_checks (?db' c) (?new c)" using ck by (simp add: contradiction_checks_def)
    ultimately obtain w where "view_of (?db' c) (?new c) = Inr w" "cw_status w = status"
      by (rule view_of_Inr) (auto intro: that)
    then have "?run = Inr (w, ?db' c)"
      using vis row c mem(3) ck user by (simp add: resolve_contradiction_def Let_def)
    then show ?thesis using closed mem c \<open>cw_status w = status\<close> by blast
  qed
qed

lemma closed_tables:
  fixes c :: contradiction
  assumes ok: "contradictions_ok db" "contradictions_scoped db"
    and c: "c \<in> set (contradictions db)" "c_id c = cid" "status \<noteq> OPEN"
    and db': "db' = db\<lparr>contradictions := map (\<lambda>x. if c_id x = cid
       then c\<lparr>c_status := status, c_resolution_note := n, c_resolved_by_user_id := u, c_resolved_at := Some now\<rparr>
       else x) (contradictions db)\<rparr>"
  shows "contradictions_ok db'" "contradictions_scoped db'"
proof -
  let ?new = "c\<lparr>c_status := status, c_resolution_note := n, c_resolved_by_user_id := u, c_resolved_at := Some now\<rparr>"
  let ?f = "\<lambda>x. if c_id x = cid then ?new else x"
  have same: "c_id (?f x) = c_id x" "contradiction_key (?f x) = contradiction_key x" if "x \<in> set (contradictions db)" for x
    using distinct_map_eqD [of c_id "contradictions db" x c] ok(1) that c by (auto simp: contradictions_ok_def)
  have maps: "map c_id (map ?f (contradictions db)) = map c_id (contradictions db)"
    "map contradiction_key (map ?f (contradictions db)) = map contradiction_key (contradictions db)"
    using same(1,2) by simp_all
  have refs: "\<forall>y \<in> set (map ?f (contradictions db)). c_left_version_id y \<in> fv_id ` set (fact_versions db) \<and>
      c_right_version_id y \<in> fv_id ` set (fact_versions db) \<and> c_left_version_id y \<noteq> c_right_version_id y"
    using ok(1) c(1) by (auto simp: contradictions_ok_def)
  have tabs: "contradictions db' = map ?f (contradictions db)" "fact_versions db' = fact_versions db" by (simp_all add: db')
  show "contradictions_ok db'" unfolding contradictions_ok_def tabs maps
    by (intro conjI refs) (use ok(1) in \<open>auto simp: contradictions_ok_def\<close>)
  show "contradictions_scoped db'"
    using ok(2) c(1,3) by (auto simp: contradictions_scoped_def contradiction_checks_def db')
qed

lemma resolve_contradiction_keeps:
  assumes ok: "ledger_ok db" "contradictions_ok db" "contradictions_scoped db"
    and run: "resolve_contradiction now ctx cid status note db = Inr (w, db')"
  shows "contradictions_ok db'" "contradictions_scoped db'"
    "\<exists>cs. db' = db\<lparr>contradictions := cs\<rparr> \<and>
       (\<forall>org. org \<noteq> ctx_org ctx \<longrightarrow> filter (\<lambda>c. c_org c = org) cs = filter (\<lambda>c. c_org c = org) (contradictions db))"
proof -
  have "contradictions_ok db' \<and> contradictions_scoped db' \<and> (\<exists>cs. db' = db\<lparr>contradictions := cs\<rparr> \<and>
       (\<forall>org. org \<noteq> ctx_org ctx \<longrightarrow> filter (\<lambda>c. c_org c = org) cs = filter (\<lambda>c. c_org c = org) (contradictions db)))"
  proof (rule resolve_contradiction_cases [OF ok, of now ctx cid status "note"])
    fix c :: contradiction and w'
    assume c: "c \<in> set (contradictions db)" "c_id c = cid" "status \<noteq> OPEN" and own: "c_org c = ctx_org ctx"
      and run': "resolve_contradiction now ctx cid status note db = Inr (w', db\<lparr>contradictions := map (\<lambda>x. if c_id x = cid
         then c\<lparr>c_status := status, c_resolution_note := note, c_resolved_by_user_id := Some (ctx_user ctx), c_resolved_at := Some now\<rparr>
         else x) (contradictions db)\<rparr>)"
    let ?f = "\<lambda>x. if c_id x = cid then c\<lparr>c_status := status, c_resolution_note := note, c_resolved_by_user_id := Some (ctx_user ctx),
        c_resolved_at := Some now\<rparr> else x"
    have db': "db' = db\<lparr>contradictions := map ?f (contradictions db)\<rparr>" using run run' by simp
    have "filter (\<lambda>x. c_org x = org) (map ?f xs) = filter (\<lambda>x. c_org x = org) xs"
      if "org \<noteq> ctx_org ctx" "set xs \<subseteq> set (contradictions db)" for org xs
      using that
    proof (induction xs)
      case (Cons x xs)
      then show ?case using distinct_map_eqD [of c_id "contradictions db" x c] ok(2) c own by (auto simp: contradictions_ok_def)
    qed simp
    then show ?thesis using closed_tables [OF ok(2,3) c db'] db' by blast
  qed (use run in simp)
  then show "contradictions_ok db'" "contradictions_scoped db'"
    "\<exists>cs. db' = db\<lparr>contradictions := cs\<rparr> \<and>
       (\<forall>org. org \<noteq> ctx_org ctx \<longrightarrow> filter (\<lambda>c. c_org c = org) cs = filter (\<lambda>c. c_org c = org) (contradictions db))" by blast+
qed

text \<open>
  C21. Closing a contradiction: on a well-formed ledger the update never violates a constraint;
  when it commits, exactly the named open row of the caller's tenant gets the new status and
  nothing else changes, in particular no fact; the tables stay well formed and nobody can
  close the same contradiction again.
\<close>

theorem resolve_contradiction_once:
  assumes ok: "ledger_ok db" "contradictions_ok db" "contradictions_scoped db"
  shows "(\<forall>m. resolve_contradiction now ctx cid status note db \<noteq> Inl (IntegrityError m)) \<and>
    (\<forall>w db'. resolve_contradiction now ctx cid status note db = Inr (w, db') \<longrightarrow>
      contradictions_ok db' \<and> contradictions_scoped db' \<and>
      (\<exists>c \<in> set (contradictions db). c_id c = cid \<and> c_org c = ctx_org ctx \<and> c_status c = OPEN \<and> status \<noteq> OPEN \<and>
        db' = db\<lparr>contradictions := map (\<lambda>x. if c_id x = cid
          then c\<lparr>c_status := status, c_resolution_note := note, c_resolved_by_user_id := Some (ctx_user ctx), c_resolved_at := Some now\<rparr>
          else x) (contradictions db)\<rparr>) \<and>
      (\<forall>now2 ctx2 status2 note2 r. resolve_contradiction now2 ctx2 cid status2 note2 db' \<noteq> Inr r))"
proof (rule resolve_contradiction_cases [OF ok, of now ctx cid status "note"])
  fix c :: contradiction and w
  let ?new = "c\<lparr>c_status := status, c_resolution_note := note, c_resolved_by_user_id := Some (ctx_user ctx), c_resolved_at := Some now\<rparr>"
  let ?f = "\<lambda>x. if c_id x = cid then ?new else x"
  let ?db' = "db\<lparr>contradictions := map ?f (contradictions db)\<rparr>"
  assume c: "c \<in> set (contradictions db)" "c_id c = cid" "c_org c = ctx_org ctx" "c_status c = OPEN" "status \<noteq> OPEN"
    and run: "resolve_contradiction now ctx cid status note db = Inr (w, ?db')"
  have "contradictions_ok ?db' \<and> contradictions_scoped ?db'"
    using resolve_contradiction_keeps [OF ok run] by blast
  moreover have "\<exists>c \<in> set (contradictions db). c_id c = cid \<and> c_org c = ctx_org ctx \<and> c_status c = OPEN \<and> status \<noteq> OPEN \<and>
        ?db' = db\<lparr>contradictions := map (\<lambda>x. if c_id x = cid
          then c\<lparr>c_status := status, c_resolution_note := note, c_resolved_by_user_id := Some (ctx_user ctx), c_resolved_at := Some now\<rparr>
          else x) (contradictions db)\<rparr>"
    using c by blast
  moreover have "resolve_contradiction now2 ctx2 cid status2 note2 ?db' \<noteq> Inr r" for now2 ctx2 status2 note2 r
  proof
    assume "resolve_contradiction now2 ctx2 cid status2 note2 ?db' = Inr r"
    then obtain visible row where "contradiction_row ?db' ctx2 cid visible = Inr row" "c_status row = OPEN"
      by (auto simp: resolve_contradiction_def Let_def result_simps)
    then show False using contradiction_row_Inr [of ?db' ctx2 cid visible row] c(5) by auto
  qed
  ultimately show ?thesis unfolding run by (simp only: sum.inject prod.inject sum.distinct) blast
qed auto

section \<open>The rows a review stores\<close>

text \<open>
  Between the transactions of one review other requests may commit; they keep the rows a
  fact was read from.
\<close>

definition rows_kept :: "db \<Rightarrow> db \<Rightarrow> bool" where
  "rows_kept db1 db \<longleftrightarrow> set (entities db1) \<subseteq> set (entities db) \<and>
     (\<forall>v \<in> set (fact_versions db1). \<exists>w \<in> set (fact_versions db). fv_id w = fv_id v \<and> fv_org w = fv_org v \<and>
        fv_fact_id w = fv_fact_id v \<and> fv_privacy_scope w = fv_privacy_scope v)"

definition reviewable :: "db \<Rightarrow> uuid \<Rightarrow> resolved_fact \<Rightarrow> bool" where
  "reviewable db org f \<longleftrightarrow> (org, rf_entity_id f) \<in> (\<lambda>e. (en_org e, en_id e)) ` set (entities db) \<and>
     (\<exists>w \<in> set (fact_versions db). fv_id w = vs_id (rf_version f) \<and> fv_org w = org \<and> fv_fact_id w = rf_fact_id f \<and>
        fv_privacy_scope w = vs_privacy_scope (rf_version f))"

lemma reviewable_kept: "reviewable db1 org f \<Longrightarrow> rows_kept db1 db \<Longrightarrow> reviewable db org f"
  unfolding reviewable_def rows_kept_def by (auto, metis)

lemma reviewable_cong: "entities db' = entities db \<Longrightarrow> fact_versions db' = fact_versions db \<Longrightarrow> reviewable db' org f = reviewable db org f"
  by (simp add: reviewable_def)

text \<open>A new pair is always accepted by the constraints and keeps the tables well formed.\<close>

lemma insert_semantic_row:
  assumes ok: "ledger_ok db" "contradictions_ok db" "contradictions_scoped db"
    and f: "reviewable db org a" "reviewable db org b" "rf_fact_id a \<noteq> rf_fact_id b"
    and id: "t_ids t i \<notin> c_id ` set (contradictions db)"
    and key: "(org, vs_id (rf_version a), vs_id (rf_version b)) \<notin> contradiction_key ` set (contradictions db)"
    and row: "row = semantic_row t i org a b explanation" and db': "db' = db\<lparr>contradictions := contradictions db @ [row]\<rparr>"
  shows "insert_contradiction db row = Inr db'" "contradictions_ok db'" "contradictions_scoped db'" "ledger_ok db'" "contradiction_checks db' row"
proof -
  obtain v w where v: "v \<in> set (fact_versions db)" "fv_id v = vs_id (rf_version a)" "fv_org v = org" "fv_fact_id v = rf_fact_id a"
      "fv_privacy_scope v = vs_privacy_scope (rf_version a)"
    and w: "w \<in> set (fact_versions db)" "fv_id w = vs_id (rf_version b)" "fv_org w = org" "fv_fact_id w = rf_fact_id b"
      "fv_privacy_scope w = vs_privacy_scope (rf_version b)"
    using f(1,2) by (auto simp: reviewable_def)
  note d = ledger_distinct(1) [OF ok(1)]
  have ne: "vs_id (rf_version a) \<noteq> vs_id (rf_version b)"
    using distinct_map_eqD [OF d v(1) w(1)] v w f(3) by auto
  have keys: "(org, vs_id (rf_version a)) \<in> (\<lambda>v. (fv_org v, fv_id v)) ` set (fact_versions db)"
    "(org, vs_id (rf_version b)) \<in> (\<lambda>v. (fv_org v, fv_id v)) ` set (fact_versions db)"
    by (rule image_eqI [of _ _ v], use v in simp_all) (rule image_eqI [of _ _ w], use w in simp_all)
  have ck: "contradiction_checks db row"
    using ne keys f(1) by (simp add: contradiction_checks_def row semantic_row_def reviewable_def)
  then show "insert_contradiction db row = Inr db'"
    using id key by (simp add: insert_contradiction_def db' row semantic_row_def)
  have "fv_privacy_scope x \<le> c_privacy_scope row" if "x \<in> set (fact_versions db)" "fv_id x \<in> {c_left_version_id row, c_right_version_id row}" for x
    using distinct_map_eqD [OF d that(1) v(1)] distinct_map_eqD [OF d that(1) w(1)] that(2) v w by (auto simp: row semantic_row_def)
  then show "contradictions_scoped db'" using ok(3) ck by (auto simp: contradictions_scoped_def contradiction_checks_def db')
  show "contradictions_ok db'" using ok(2) id key ne keys by (auto simp: contradictions_ok_def db' row semantic_row_def)
  show "ledger_ok db'" using ok(1) ledger_ok_cong [of db' db] by (simp add: db')
  show "contradiction_checks db' row" using ck by (simp add: contradiction_checks_def db')
qed

definition pair_stored :: "uuid \<Rightarrow> (resolved_fact \<times> resolved_fact \<times> string) list \<Rightarrow> contradiction \<Rightarrow> bool" where
  "pair_stored org accepted c \<longleftrightarrow> c_org c = org \<and> c_kind c = SEMANTIC \<and> c_status c = OPEN \<and> c_preferred_version_id c = None \<and>
     (\<exists>(l, r, x) \<in> set accepted. {c_left_version_id c, c_right_version_id c} = {vs_id (rf_version l), vs_id (rf_version r)})"

lemma pair_stored_Cons: "pair_stored org rest c \<Longrightarrow> pair_stored org (p # rest) c"
  unfolding pair_stored_def list.set by blast

lemma store_findings_Inr:
  assumes "ledger_ok db" "contradictions_ok db" "contradictions_scoped db" "inj (t_ids t)"
    and "\<forall>(l, r, x) \<in> set accepted. reviewable db org l \<and> reviewable db org r \<and> rf_fact_id l \<noteq> rf_fact_id r"
    and "\<forall>j. i \<le> j \<longrightarrow> t_ids t j \<notin> c_id ` set (contradictions db)"
  shows "\<exists>created known new db'. store_findings t i org accepted db = Inr (created, known, db') \<and>
    db' = db\<lparr>contradictions := contradictions db @ new\<rparr> \<and> contradictions_ok db' \<and> contradictions_scoped db' \<and>
    length new = length created \<and> known + length created = length accepted \<and> (\<forall>c \<in> set new. pair_stored org accepted c)"
  using assms
proof (induction accepted arbitrary: i db)
  case Nil
  show ?case using Nil.prems(2,3) by (intro exI [of _ "[]"] exI [of _ 0] exI [of _ db]) simp
next
  case (Cons p rest)
  obtain l r x where p: "p = (l, r, x)" by (cases p)
  define a b where "a = (if vs_id (rf_version l) \<le> vs_id (rf_version r) then l else r)"
    and "b = (if vs_id (rf_version l) \<le> vs_id (rf_version r) then r else l)"
  have lr: "reviewable db org l" "reviewable db org r" "rf_fact_id l \<noteq> rf_fact_id r" using Cons.prems(5) by (simp_all add: p)
  have f: "reviewable db org a" "reviewable db org b" "rf_fact_id a \<noteq> rf_fact_id b"
    "{vs_id (rf_version a), vs_id (rf_version b)} = {vs_id (rf_version l), vs_id (rf_version r)}"
    using lr by (simp_all add: a_def b_def insert_commute)
  have order: "(if vs_id (rf_version l) \<le> vs_id (rf_version r) then (l, r) else (r, l)) = (a, b)" by (simp add: a_def b_def)
  let ?known = "\<exists>c \<in> set (contradictions db). c_org c = org \<and> c_left_version_id c = vs_id (rf_version a) \<and> c_right_version_id c = vs_id (rf_version b)"
  show ?case
  proof (cases ?known)
    case True
    have rest: "\<forall>(l, r, x) \<in> set rest. reviewable db org l \<and> reviewable db org r \<and> rf_fact_id l \<noteq> rf_fact_id r"
      using Cons.prems(5) by simp
    obtain created known new db' where IH: "store_findings t i org rest db = Inr (created, known, db')"
      "db' = db\<lparr>contradictions := contradictions db @ new\<rparr>" "contradictions_ok db'" "contradictions_scoped db'"
      "length new = length created" "known + length created = length rest" "\<forall>c \<in> set new. pair_stored org rest c"
      using Cons.IH [OF Cons.prems(1-4) rest Cons.prems(6)] by (elim exE conjE) (rule that)
    have "store_findings t i org (p # rest) db = Inr (created, known + 1, db')"
      unfolding p store_findings.simps order Let_def prod.case if_P [OF True] IH(1) bindr_simps by (rule refl)
    moreover have "\<forall>c \<in> set new. pair_stored org (p # rest) c" using IH(7) pair_stored_Cons by blast
    ultimately show ?thesis using IH(2-6)
      by (intro exI [of _ created] exI [of _ "known + 1"] exI [of _ new] exI [of _ db']) simp
  next
    case False
    define row where "row = semantic_row t i org a b x"
    define db1 where "db1 = db\<lparr>contradictions := contradictions db @ [row]\<rparr>"
    have id: "t_ids t i \<notin> c_id ` set (contradictions db)" using Cons.prems(6) by simp
    have key: "(org, vs_id (rf_version a), vs_id (rf_version b)) \<notin> contradiction_key ` set (contradictions db)" using False by auto
    note ins = insert_semantic_row [OF Cons.prems(1-3) f(1-3) id key row_def db1_def]
    obtain w where w: "view_of db1 row = Inr w" by (rule view_of_Inr [OF ins(4,5)])
    have "reviewable db1 org f = reviewable db org f" for f by (rule reviewable_cong) (simp_all add: db1_def)
    then have prem5: "\<forall>(l, r, x) \<in> set rest. reviewable db1 org l \<and> reviewable db1 org r \<and> rf_fact_id l \<noteq> rf_fact_id r"
      using Cons.prems(5) by simp
    have prem6: "\<forall>j. i + 1 \<le> j \<longrightarrow> t_ids t j \<notin> c_id ` set (contradictions db1)"
    proof (intro allI impI)
      fix j assume "i + 1 \<le> j"
      then have "t_ids t j \<noteq> t_ids t i" "t_ids t j \<notin> c_id ` set (contradictions db)" using injD [OF Cons.prems(4), of j i] Cons.prems(6) by auto
      then show "t_ids t j \<notin> c_id ` set (contradictions db1)" by (simp add: db1_def row_def semantic_row_def)
    qed
    obtain created known new db' where IH: "store_findings t (i + 1) org rest db1 = Inr (created, known, db')"
      "db' = db1\<lparr>contradictions := contradictions db1 @ new\<rparr>" "contradictions_ok db'" "contradictions_scoped db'"
      "length new = length created" "known + length created = length rest" "\<forall>c \<in> set new. pair_stored org rest c"
      using Cons.IH [OF ins(4,2,3) Cons.prems(4) prem5 prem6] by (elim exE conjE) (rule that)
    have "store_findings t i org (p # rest) db = Inr (w # created, known, db')"
      unfolding p store_findings.simps order Let_def prod.case if_not_P [OF False] row_def [symmetric] ins(1) bindr_simps w IH(1)
      by (rule refl)
    moreover have "db' = db\<lparr>contradictions := contradictions db @ row # new\<rparr>" by (simp add: IH(2) db1_def)
    moreover have "pair_stored org (p # rest) row" using f(4) by (simp add: pair_stored_def row_def semantic_row_def p)
    then have "\<forall>c \<in> set (row # new). pair_stored org (p # rest) c" using IH(7) pair_stored_Cons by auto
    ultimately show ?thesis using IH(3-6)
      by (intro exI [of _ "w # created"] exI [of _ known] exI [of _ "row # new"] exI [of _ db']) simp
  qed
qed

lemma facts_at_now:
  assumes ok: "ledger_ok db" and run: "facts_at db ctx clock etype ext None None = Inr all" and f: "f \<in> set all"
  obtains v where "v \<in> set (fact_versions db)" "fv_id v = vs_id (rf_version f)" "fv_fact_id v = rf_fact_id f"
    "fv_privacy_scope v = vs_privacy_scope (rf_version f)" "valid_at_condition db clock None v" "reviewable db (ctx_org ctx) f"
proof -
  obtain e where e: "require_entity db (ctx_org ctx) etype ext = Inr e"
    and all: "set all = (\<lambda>(v, p). resolved e p (to_snapshot v)) ` set (facts_valid_at db (ctx_org ctx) (en_id e) clock None)"
    using run by (auto simp: facts_at_def result_simps require_aware_def aware_opt_def as_known_def)
  obtain v p where v: "(v, p) \<in> set (entity_rows db (ctx_org ctx) (en_id e))" "valid_at_condition db clock None v"
    and fv: "f = resolved e p (to_snapshot v)"
    using f unfolding all facts_valid_at_set [OF ok] by auto
  have mem: "v \<in> set (fact_versions db)" "fv_org v = ctx_org ctx" using v(1) by (simp_all add: entity_rows_in)
  have "e \<in> set (entities db)" "en_org e = ctx_org ctx"
    using e by (auto simp: require_entity_def find_entity_def result_simps dest!: find_SomeD)
  then have "reviewable db (ctx_org ctx) f"
    using mem by (force simp: reviewable_def fv resolved_def to_snapshot_def)
  then show ?thesis
    by (intro that [of v]) (use mem v in \<open>simp_all add: fv resolved_def to_snapshot_def\<close>)
qed

lemma accept_finding_Some:
  assumes "accept_finding (labelled_facts fs) finding = Some (l, r, x)"
  shows "l \<in> set fs" "r \<in> set fs" "rf_fact_id l \<noteq> rf_fact_id r"
proof -
  have lab: "f \<in> set fs" if "map_of (labelled_facts fs) a = Some f" for a f
  proof -
    have "(a, f) \<in> set (labelled_facts fs)" using that by (rule map_of_SomeD)
    then show ?thesis by (auto simp: labelled_facts_def in_set_enumerate_eq)
  qed
  show "l \<in> set fs" "r \<in> set fs" "rf_fact_id l \<noteq> rf_fact_id r"
    using assms lab by (auto simp: accept_finding_def split: prod.splits option.splits if_splits)
qed

lemma accepted_in: "(l, r, x) \<in> set (List.map_filter (accept_finding (labelled_facts fs)) findings) \<Longrightarrow>
    l \<in> set fs \<and> r \<in> set fs \<and> rf_fact_id l \<noteq> rf_fact_id r"
  using accept_finding_Some by (fastforce simp: List.map_filter_def)

lemma mapr_InlD: "mapr f xs = Inl e \<Longrightarrow> \<exists>x \<in> set xs. f x = Inl e"
  by (induction xs) (auto simp: bindr_eq_Inl)

lemma render_review_no_integrity [no_integrity]: "render_review R labelled \<noteq> Inl (IntegrityError m)"
  by (auto simp: render_review_def bindr_eq_Inl some_or_eq_Inl dest!: mapr_InlD)

lemma facts_at_no_integrity [no_integrity]: "facts_at db ctx clock etype ext None None \<noteq> Inl (IntegrityError m)"
  using require_permission_no_integrity [of db ctx READ_FACTS m]
  by (auto simp: facts_at_def require_entity_def require_aware_def aware_opt_def normalizer_defs result_simps)

text \<open>What a stored finding says: two current versions of different facts, both visible.\<close>

definition sound_finding :: "db \<Rightarrow> uuid \<Rightarrow> instant \<Rightarrow> privacy_scope set \<Rightarrow> contradiction \<Rightarrow> bool" where
  "sound_finding db org clock visible c \<longleftrightarrow>
     c_org c = org \<and> c_kind c = SEMANTIC \<and> c_status c = OPEN \<and> c_preferred_version_id c = None \<and>
     (\<exists>v \<in> set (fact_versions db). \<exists>w \<in> set (fact_versions db).
        {c_left_version_id c, c_right_version_id c} = {fv_id v, fv_id w} \<and> fv_fact_id v \<noteq> fv_fact_id w \<and>
        valid_at_condition db clock None v \<and> valid_at_condition db clock None w \<and>
        fv_privacy_scope v \<in> visible \<and> fv_privacy_scope w \<in> visible)"

lemma pair_stored_sound:
  assumes c: "pair_stored org (List.map_filter (accept_finding (labelled_facts fs)) findings) c"
    and fs: "\<And>f. f \<in> set fs \<Longrightarrow> \<exists>v \<in> set (fact_versions db). fv_id v = vs_id (rf_version f) \<and> fv_fact_id v = rf_fact_id f \<and>
        valid_at_condition db clock None v \<and> fv_privacy_scope v \<in> visible"
  shows "sound_finding db org clock visible c"
proof -
  have row: "c_org c = org" "c_kind c = SEMANTIC" "c_status c = OPEN" "c_preferred_version_id c = None"
    using c by (simp_all add: pair_stored_def)
  obtain l r x where mem: "(l, r, x) \<in> set (List.map_filter (accept_finding (labelled_facts fs)) findings)"
    and ids: "{c_left_version_id c, c_right_version_id c} = {vs_id (rf_version l), vs_id (rf_version r)}"
    using c by (auto simp: pair_stored_def)
  have lr: "l \<in> set fs" "r \<in> set fs" "rf_fact_id l \<noteq> rf_fact_id r" using accepted_in [OF mem] by blast+
  obtain v w where "v \<in> set (fact_versions db)" "w \<in> set (fact_versions db)" "{c_left_version_id c, c_right_version_id c} = {fv_id v, fv_id w}"
    "fv_fact_id v \<noteq> fv_fact_id w" "valid_at_condition db clock None v" "valid_at_condition db clock None w"
    "fv_privacy_scope v \<in> visible" "fv_privacy_scope w \<in> visible"
    using fs [OF lr(1)] fs [OF lr(2)] lr(3) ids by metis
  then show ?thesis unfolding sound_finding_def using row by blast
qed

lemma reviewed_findings_stored:
  assumes ok1: "ledger_ok db1" and ok: "ledger_ok db" "contradictions_ok db" "contradictions_scoped db"
    and kept: "rows_kept db1 db" and fresh: "fresh_ids db (t_ids t)"
    and all: "facts_at db1 ctx clock etype ext None None = Inr all"
    and fs: "\<And>f. f \<in> set fs \<Longrightarrow> f \<in> set all \<and> vs_privacy_scope (rf_version f) \<in> visible"
  shows "\<exists>created known new db'. store_findings t 0 (ctx_org ctx) (List.map_filter (accept_finding (labelled_facts fs)) findings) db =
        Inr (created, known, db') \<and>
      db' = db\<lparr>contradictions := contradictions db @ new\<rparr> \<and> contradictions_ok db' \<and> contradictions_scoped db' \<and>
      length new = length created \<and> (\<forall>c \<in> set new. sound_finding db1 (ctx_org ctx) clock visible c)"
proof -
  let ?accepted = "List.map_filter (accept_finding (labelled_facts fs)) findings"
  have f: "reviewable db (ctx_org ctx) f \<and> (\<exists>v \<in> set (fact_versions db1). fv_id v = vs_id (rf_version f) \<and> fv_fact_id v = rf_fact_id f \<and>
      valid_at_condition db1 clock None v \<and> fv_privacy_scope v \<in> visible)" if "f \<in> set fs" for f
    by (rule facts_at_now [OF ok1 all, of f]) (use fs [OF that] reviewable_kept [OF _ kept] in auto)
  have acc: "\<forall>(l, r, x) \<in> set ?accepted. reviewable db (ctx_org ctx) l \<and> reviewable db (ctx_org ctx) r \<and> rf_fact_id l \<noteq> rf_fact_id r"
    using accepted_in f by blast
  have "inj (t_ids t)" "\<forall>j. 0 \<le> j \<longrightarrow> t_ids t j \<notin> c_id ` set (contradictions db)"
    using fresh fresh_idsD(10) [OF fresh] by (auto simp: fresh_ids_def)
  then obtain created known new db' where "store_findings t 0 (ctx_org ctx) ?accepted db = Inr (created, known, db')"
    "db' = db\<lparr>contradictions := contradictions db @ new\<rparr>" "contradictions_ok db'" "contradictions_scoped db'"
    "length new = length created" and new: "\<forall>c \<in> set new. pair_stored (ctx_org ctx) ?accepted c"
    using store_findings_Inr [OF ok _ acc, of t 0] by blast
  moreover have "\<forall>c \<in> set new. sound_finding db1 (ctx_org ctx) clock visible c"
    using new pair_stored_sound f by metis
  ultimately show ?thesis by blast
qed

lemma conclude_review_cases:
  assumes stored: "\<And>findings. \<exists>created known new db'.
      store_findings t 0 (ctx_org ctx) (List.map_filter (accept_finding (labelled_facts fs)) findings) db = Inr (created, known, db') \<and>
      db' = db\<lparr>contradictions := contradictions db @ new\<rparr> \<and> length new = length created \<and> P new db'"
  shows "(\<exists>e. conclude_review R model_id t ctx etype ext fs message db = Inl e \<and> (\<forall>m. e \<noteq> IntegrityError m)) \<or>
    (\<exists>r new db'. conclude_review R model_id t ctx etype ext fs message db = Inr (r, db') \<and>
      db' = db\<lparr>contradictions := contradictions db @ new\<rparr> \<and> length new = length (vr_created r) \<and> P new db')"
proof (cases message)
  case (Inr m)
  then obtain content model where m: "message = Inr (content, model)" by (cases m) simp
  show ?thesis
  proof (cases "parse_findings R content")
    case (Some findings)
    show ?thesis
    proof (cases "require_permission db ctx WRITE_FACTS")
      case (Inl e)
      then show ?thesis using m Some require_permission_no_integrity [of db ctx WRITE_FACTS] by (auto simp: conclude_review_def)
    next
      case (Inr r)
      then show ?thesis using m Some stored [of findings] by (auto simp: conclude_review_def)
    qed
  qed (use m in \<open>simp add: conclude_review_def\<close>)
qed (simp add: conclude_review_def)

text \<open>
  C22. A review by a language model is safe whatever the model writes: if the ledger is well
  formed and the rows read are kept, no constraint is violated; what a review stores are new
  open contradictions between two versions that are valid and not revoked at the time of
  the review, of two different facts, both within the scopes the caller may see, with no
  preferred side; no pair is stored twice and everything else is unchanged.
\<close>

theorem review_entity_safe:
  assumes ok1: "ledger_ok db1" and ok: "ledger_ok db" "contradictions_ok db" "contradictions_scoped db"
    and kept: "rows_kept db1 db" and fresh: "fresh_ids db (t_ids t)"
    and role: "require_permission db0 ctx READ_FACTS = Inr role"
    and visible: "visible = set (visible_privacy_scopes role [ctx_max_privacy_scope ctx])"
  shows "(\<forall>m. review_entity R chain model_id t clock db0 db1 ctx etype ext db \<noteq> Inl (IntegrityError m)) \<and>
    (\<forall>r db'. review_entity R chain model_id t clock db0 db1 ctx etype ext db = Inr (r, db') \<longrightarrow>
      contradictions_ok db' \<and> contradictions_scoped db' \<and>
      (\<exists>new. db' = db\<lparr>contradictions := contradictions db @ new\<rparr> \<and> length new = length (vr_created r) \<and>
        (\<forall>c \<in> set new. sound_finding db1 (ctx_org ctx) clock visible c)))"
proof -
  let ?run = "review_entity R chain model_id t clock db0 db1 ctx etype ext db"
  let ?P = "\<lambda>new db'. contradictions_ok db' \<and> contradictions_scoped db' \<and> (\<forall>c \<in> set new. sound_finding db1 (ctx_org ctx) clock visible c)"
  have "(\<exists>e. ?run = Inl e \<and> (\<forall>m. e \<noteq> IntegrityError m)) \<or> (\<exists>r new db'. ?run = Inr (r, db') \<and>
      db' = db\<lparr>contradictions := contradictions db @ new\<rparr> \<and> length new = length (vr_created r) \<and> ?P new db')"
  proof (cases "facts_at db1 ctx clock etype ext None None")
    case (Inl e)
    then show ?thesis
      using role facts_at_no_integrity [of db1 ctx clock etype ext] require_permission_no_integrity [of db0 ctx WRITE_FACTS]
      by (cases "require_permission db0 ctx WRITE_FACTS") (auto simp: review_entity_def)
  next
    case (Inr all)
    let ?fs = "take MAX_REVIEW_FACTS (filter (\<lambda>f. vs_privacy_scope (rf_version f) \<in> visible) all)"
    have "f \<in> set all \<and> vs_privacy_scope (rf_version f) \<in> visible" if "f \<in> set ?fs" for f
      using in_set_takeD [OF that] by auto
    note stored = reviewed_findings_stored [OF ok1 ok kept fresh Inr this]
    have concl: "(\<exists>e. conclude_review R model_id t ctx etype ext ?fs msg db = Inl e \<and> (\<forall>m. e \<noteq> IntegrityError m)) \<or>
      (\<exists>r new db'. conclude_review R model_id t ctx etype ext ?fs msg db = Inr (r, db') \<and>
        db' = db\<lparr>contradictions := contradictions db @ new\<rparr> \<and> length new = length (vr_created r) \<and> ?P new db')" for msg
      by (rule conclude_review_cases) (use stored in blast)
    show ?thesis
    proof (cases "require_permission db0 ctx WRITE_FACTS")
      case (Inl e)
      then show ?thesis using role require_permission_no_integrity [of db0 ctx WRITE_FACTS] by (auto simp: review_entity_def)
    next
      case perm: (Inr r)
      show ?thesis
      proof (cases "length ?fs < 2")
        case True
        then show ?thesis using role Inr perm ok by (auto simp: review_entity_def visible intro!: exI [of _ "[]"])
      next
        case False
        have run: "?run = bindr (render_review R (labelled_facts ?fs)) (\<lambda>rendered.
            conclude_review R model_id t ctx etype ext ?fs (chain (etype @ '':'' @ ext) rendered) db)"
          using role Inr perm False by (simp only: review_entity_def visible bindr_simps Let_def if_False)
        show ?thesis unfolding run
          using concl render_review_no_integrity [of R "labelled_facts ?fs"]
          by (cases "render_review R (labelled_facts ?fs)") (simp_all only: bindr_simps, blast)
      qed
    qed
  qed
  then show ?thesis by auto
qed

text \<open>A committed review keeps the tables well formed, whatever identifiers it drew.\<close>

lemma store_findings_keeps:
  assumes "ledger_ok db" "contradictions_ok db" "contradictions_scoped db"
    and "\<forall>(l, r, x) \<in> set accepted. reviewable db org l \<and> reviewable db org r \<and> rf_fact_id l \<noteq> rf_fact_id r"
    and "store_findings t i org accepted db = Inr (created, known, db')"
  shows "contradictions_ok db' \<and> contradictions_scoped db' \<and>
    (\<exists>cs. db' = db\<lparr>contradictions := contradictions db @ cs\<rparr> \<and> (\<forall>c \<in> set cs. c_org c = org))"
  using assms
proof (induction accepted arbitrary: i db created known)
  case Nil
  then show ?case by (auto intro!: exI [of _ "[]"])
next
  case (Cons p rest)
  obtain l r x where p: "p = (l, r, x)" by (cases p)
  define a b where "a = (if vs_id (rf_version l) \<le> vs_id (rf_version r) then l else r)"
    and "b = (if vs_id (rf_version l) \<le> vs_id (rf_version r) then r else l)"
  have order: "(if vs_id (rf_version l) \<le> vs_id (rf_version r) then (l, r) else (r, l)) = (a, b)" by (simp add: a_def b_def)
  have f: "reviewable db org a" "reviewable db org b" "rf_fact_id a \<noteq> rf_fact_id b"
    using Cons.prems(4) by (simp_all add: p a_def b_def)
  have rest: "\<forall>(l, r, x) \<in> set rest. reviewable db org l \<and> reviewable db org r \<and> rf_fact_id l \<noteq> rf_fact_id r"
    using Cons.prems(4) by simp
  note run = Cons.prems(5) [unfolded p store_findings.simps order Let_def prod.case]
  show ?case
  proof (cases "\<exists>c \<in> set (contradictions db). c_org c = org \<and> c_left_version_id c = vs_id (rf_version a) \<and> c_right_version_id c = vs_id (rf_version b)")
    case True
    then obtain n where "store_findings t i org rest db = Inr (created, n, db')"
      using run [unfolded if_P [OF True]] by (auto simp: bindr_eq_Inr)
    then show ?thesis using Cons.IH [OF Cons.prems(1-3) rest] by blast
  next
    case False
    define row where "row = semantic_row t i org a b x"
    obtain db1 cs where ins: "insert_contradiction db row = Inr db1" and more: "store_findings t (i + 1) org rest db1 = Inr (cs, known, db')"
      using run [unfolded if_not_P [OF False]] by (auto simp: row_def bindr_eq_Inr)
    have db1: "db1 = db\<lparr>contradictions := contradictions db @ [row]\<rparr>" by (rule insert_contradiction_Inr(1) [OF ins])
    have "t_ids t i \<notin> c_id ` set (contradictions db)"
      "(org, vs_id (rf_version a), vs_id (rf_version b)) \<notin> contradiction_key ` set (contradictions db)"
      using ins by (auto simp: insert_contradiction_def result_simps row_def semantic_row_def)
    note new = insert_semantic_row [OF Cons.prems(1-3) f this row_def db1]
    have "reviewable db1 org f = reviewable db org f" for f by (rule reviewable_cong) (simp_all add: db1)
    then have IH: "contradictions_ok db' \<and> contradictions_scoped db' \<and>
        (\<exists>cs. db' = db1\<lparr>contradictions := contradictions db1 @ cs\<rparr> \<and> (\<forall>c \<in> set cs. c_org c = org))"
      using Cons.IH [OF new(4,2,3) _ more] rest by simp
    then obtain cs' where "db' = db1\<lparr>contradictions := contradictions db1 @ cs'\<rparr>" "\<forall>c \<in> set cs'. c_org c = org" by blast
    then have "db' = db\<lparr>contradictions := contradictions db @ row # cs'\<rparr>" "\<forall>c \<in> set (row # cs'). c_org c = org"
      by (simp_all add: db1 row_def semantic_row_def)
    then show ?thesis using IH by blast
  qed
qed

lemma review_entity_keeps:
  assumes ok1: "ledger_ok db1" and ok: "ledger_ok db" "contradictions_ok db" "contradictions_scoped db" and kept: "rows_kept db1 db"
    and run: "review_entity R chain model_id t clock db0 db1 ctx etype ext db = Inr (r, db')"
  shows "contradictions_ok db'" "contradictions_scoped db'"
    "\<exists>cs. db' = db\<lparr>contradictions := contradictions db @ cs\<rparr> \<and> (\<forall>c \<in> set cs. c_org c = ctx_org ctx)"
proof -
  obtain role all where all: "facts_at db1 ctx clock etype ext None None = Inr all"
    and res': "db' = db \<or> (\<exists>msg. conclude_review R model_id t ctx etype ext (take MAX_REVIEW_FACTS (filter (\<lambda>f. vs_privacy_scope (rf_version f)
        \<in> set (visible_privacy_scopes role [ctx_max_privacy_scope ctx])) all)) msg db = Inr (r, db'))"
    using run by (auto simp: review_entity_def result_simps Let_def split: if_splits)
  then obtain fs where fs: "set fs \<subseteq> set all" and res: "db' = db \<or> (\<exists>msg. conclude_review R model_id t ctx etype ext fs msg db = Inr (r, db'))"
    using set_take_subset filter_is_subset by (meson subset_trans)
  have rev: "reviewable db (ctx_org ctx) f" if "f \<in> set fs" for f
    by (rule facts_at_now [OF ok1 all, of f]) (use fs that reviewable_kept [OF _ kept] in auto)
  have "contradictions_ok db' \<and> contradictions_scoped db' \<and>
      (\<exists>cs. db' = db\<lparr>contradictions := contradictions db @ cs\<rparr> \<and> (\<forall>c \<in> set cs. c_org c = ctx_org ctx))"
    using res
  proof (elim disjE exE)
    fix msg assume "conclude_review R model_id t ctx etype ext fs msg db = Inr (r, db')"
    then obtain findings created known where "store_findings t 0 (ctx_org ctx)
        (List.map_filter (accept_finding (labelled_facts fs)) findings) db = Inr (created, known, db')"
      by (auto simp: conclude_review_def result_simps Let_def split: sum.splits option.splits prod.splits)
    then show ?thesis using store_findings_keeps [OF ok] accepted_in rev by blast
  qed (use ok in \<open>auto intro!: exI [of _ "[]"]\<close>)
  then show "contradictions_ok db'" "contradictions_scoped db'"
    "\<exists>cs. db' = db\<lparr>contradictions := contradictions db @ cs\<rparr> \<and> (\<forall>c \<in> set cs. c_org c = ctx_org ctx)" by blast+
qed

section \<open>Samples\<close>

text \<open>The credit limit and the account status of one customer, and a contradiction between them.\<close>

definition status_version :: fact_version where
  "status_version = first_version\<lparr>fv_id := 712, fv_fact_id := 711, fv_value := PStr ''CLOSED''\<rparr>"

definition two_facts_db :: db where
  "two_facts_db = one_version_db\<lparr>facts := facts one_version_db @ [\<lparr>f_id = 711, f_org = 200, f_entity_id = 700, f_property = ''status'', f_created_at = 20, f_updated_at = 20\<rparr>],
     fact_versions := [first_version, status_version]\<rparr>"

definition sample_contradiction :: contradiction where
  "sample_contradiction = \<lparr>c_id = 720, c_org = 200, c_entity_id = 700, c_left_version_id = 702, c_right_version_id = 712, c_kind = SEMANTIC,
     c_detector = ''llm:contradiction-review-v1'', c_explanation = ExplanationText ''a closed account has no limit'',
     c_preferred_version_id = None, c_privacy_scope = INTERNAL, c_status = OPEN, c_resolution_note = None,
     c_resolved_by_user_id = None, c_resolved_at = None, c_detected_at = 30\<rparr>"

definition contradiction_db :: db where
  "contradiction_db = two_facts_db\<lparr>contradictions := [sample_contradiction]\<rparr>"

lemma two_facts_db_ok: "ledger_ok two_facts_db" "contradictions_ok two_facts_db" "contradictions_scoped two_facts_db"
  by code_simp+

lemma contradiction_db_ok: "ledger_ok contradiction_db" "contradictions_ok contradiction_db" "contradictions_scoped contradiction_db"
proof -
  show "ledger_ok contradiction_db"
    using two_facts_db_ok(1) ledger_ok_cong [of contradiction_db two_facts_db] by (simp add: contradiction_db_def)
  show "contradictions_ok contradiction_db" "contradictions_scoped contradiction_db" by code_simp+
qed

text \<open>Witness: the administrator reads the sample contradiction.\<close>

theorem contradictions_visibility_witness:
  "(\<exists>w. get_contradiction contradiction_db admin_ctx 720 = Inr w \<and> cw_id w = 720 \<and>
      vs_privacy_scope (sd_version (cw_right w)) \<in> set (visible_privacy_scopes ADMIN [ctx_max_privacy_scope admin_ctx])) \<and>
   (\<exists>ws. list_contradictions contradiction_db admin_ctx None None None 10 = Inr ws \<and> length ws \<le> 10)"
proof -
  have role: "require_permission contradiction_db admin_ctx READ_FACTS = Inr ADMIN" by code_simp
  have "\<exists>c \<in> set (contradictions contradiction_db). c_id c = 720 \<and> c_org c = ctx_org admin_ctx \<and>
      c_privacy_scope c \<in> set (visible_privacy_scopes ADMIN [ctx_max_privacy_scope admin_ctx])"
    by code_simp
  then show ?thesis
    using contradictions_visibility [OF contradiction_db_ok role refl, of 720 10 None None None] by fastforce
qed

text \<open>Witness: the sample contradiction is dismissed, once.\<close>

theorem resolve_contradiction_once_witness:
  "\<exists>w db'. resolve_contradiction 60 admin_ctx 720 DISMISSED None contradiction_db = Inr (w, db') \<and> contradictions_ok db' \<and>
     (\<forall>now ctx status n r. resolve_contradiction now ctx 720 status n db' \<noteq> Inr r)"
proof -
  have "\<not> Sum_Type.isl (resolve_contradiction 60 admin_ctx 720 DISMISSED None contradiction_db)" by code_simp
  then obtain w db' where "resolve_contradiction 60 admin_ctx 720 DISMISSED None contradiction_db = Inr (w, db')"
    by (cases "resolve_contradiction 60 admin_ctx 720 DISMISSED None contradiction_db") auto
  then show ?thesis using resolve_contradiction_once [OF contradiction_db_ok, of 60 admin_ctx 720 DISMISSED None] by blast
qed

text \<open>A model that names the two facts, and one that answers with other text.\<close>

definition quoted :: "string \<Rightarrow> string" where
  "quoted s = [CHR 0x22] @ s @ [CHR 0x22]"

definition finding_chain :: "string \<Rightarrow> string \<Rightarrow> string + (string \<times> string)" where
  "finding_chain e fs = Inr (''{'' @ quoted ''findings'' @ '':[{'' @ quoted ''left'' @ '':'' @ quoted ''F1'' @ '','' @ quoted ''right'' @ '':'' @
     quoted ''F2'' @ '','' @ quoted ''explanation'' @ '':'' @ quoted ''closed'' @ ''}]}'', ''toy'')"

lemma two_facts_fresh: "fresh_ids two_facts_db (t_ids (sample_txn 800 50))"
proof -
  have "used_ids two_facts_db = {100, 200, 201, 600, 601, 700, 701, 702, 711, 712}"
    by (auto simp: used_ids_def two_facts_db_def status_version_def sample_defs)
  then show ?thesis by (auto simp: fresh_ids_def sample_txn_def inj_def)
qed

definition sample_facts :: "resolved_fact list" where
  "sample_facts = [resolved (hd (entities one_version_db)) ''credit_limit'' (to_snapshot first_version),
      resolved (hd (entities one_version_db)) ''status'' (to_snapshot status_version)]"

lemma sample_review_facts: "facts_at two_facts_db admin_ctx 50 ''customer'' ''customer-991'' None None = Inr sample_facts"
  by code_simp

lemma sample_review_stored:
  obtains created known db' where "store_findings (sample_txn 800 50) 0 (ctx_org admin_ctx)
      (List.map_filter (accept_finding (labelled_facts sample_facts)) [(''F1'', ''F2'', ''closed'')]) two_facts_db = Inr (created, known, db')"
    "length created = 1"
proof -
  have "case store_findings (sample_txn 800 50) 0 (ctx_org admin_ctx)
      (List.map_filter (accept_finding (labelled_facts sample_facts)) [(''F1'', ''F2'', ''closed'')]) two_facts_db of
     Inl e \<Rightarrow> False | Inr (created, known, db') \<Rightarrow> length created = 1" by code_simp
  then show ?thesis using that by (auto split: sum.splits)
qed

lemma sample_review_findings:
  "parse_findings R (''{'' @ quoted ''findings'' @ '':[{'' @ quoted ''left'' @ '':'' @ quoted ''F1'' @ '','' @ quoted ''right'' @ '':'' @
     quoted ''F2'' @ '','' @ quoted ''explanation'' @ '':'' @ quoted ''closed'' @ ''}]}'') = Some [(''F1'', ''F2'', ''closed'')]"
proof -
  have "json_loads (''{'' @ quoted ''findings'' @ '':[{'' @ quoted ''left'' @ '':'' @ quoted ''F1'' @ '','' @ quoted ''right'' @ '':'' @
     quoted ''F2'' @ '','' @ quoted ''explanation'' @ '':'' @ quoted ''closed'' @ ''}]}'') =
     Some (PDict [(''findings'', PList [PDict [(''left'', PStr ''F1''), (''right'', PStr ''F2''), (''explanation'', PStr ''closed'')]])])"
    by code_simp
  then show ?thesis by (simp only: parse_findings_def) (simp add: finding_of_def py_str_def)
qed

text \<open>Witness: the review of the sample customer stores the one finding of the model.\<close>

theorem review_entity_safe_witness:
  "\<exists>r db' new. review_entity toy_runtime finding_chain ''toy'' (sample_txn 800 50) 50 two_facts_db two_facts_db admin_ctx
      ''customer'' ''customer-991'' two_facts_db = Inr (r, db') \<and> contradictions_ok db' \<and>
     contradictions db' = new \<and> length new = 1 \<and>
     (\<forall>c \<in> set new. sound_finding two_facts_db 200 50 (set (visible_privacy_scopes ADMIN [ctx_max_privacy_scope admin_ctx])) c)"
proof -
  let ?run = "review_entity toy_runtime finding_chain ''toy'' (sample_txn 800 50) 50 two_facts_db two_facts_db admin_ctx
      ''customer'' ''customer-991'' two_facts_db"
  have role: "require_permission two_facts_db admin_ctx READ_FACTS = Inr ADMIN" by code_simp
  have kept: "rows_kept two_facts_db two_facts_db" by (auto simp: rows_kept_def)
  obtain created known db' where stored: "store_findings (sample_txn 800 50) 0 (ctx_org admin_ctx)
      (List.map_filter (accept_finding (labelled_facts sample_facts)) [(''F1'', ''F2'', ''closed'')]) two_facts_db = Inr (created, known, db')"
    "length created = 1"
    by (rule sample_review_stored) (rule that)
  have visible: "filter (\<lambda>f. vs_privacy_scope (rf_version f) \<in> set (visible_privacy_scopes ADMIN [ctx_max_privacy_scope admin_ctx])) sample_facts =
      sample_facts" "length sample_facts = 2"
    by code_simp+
  have perm: "require_permission two_facts_db admin_ctx WRITE_FACTS = Inr ADMIN" by code_simp
  have "\<exists>rendered. render_review toy_runtime (labelled_facts sample_facts) = Inr rendered"
    by (simp add: render_review_def sample_facts_def labelled_facts_def resolved_def to_snapshot_def first_version_def status_version_def)
  then have "\<exists>r. ?run = Inr (r, db') \<and> length (vr_created r) = 1"
    using role perm stored visible sample_review_findings
    by (auto simp: review_entity_def sample_review_facts MAX_REVIEW_FACTS_def conclude_review_def finding_chain_def)
  then obtain r where run: "?run = Inr (r, db')" "length (vr_created r) = 1" by blast
  have "ctx_org admin_ctx = 200" "contradictions two_facts_db = []" by code_simp+
  then show ?thesis
    using review_entity_safe [OF two_facts_db_ok(1) two_facts_db_ok kept two_facts_fresh role refl, of toy_runtime finding_chain "''toy''" 50
        "''customer''" "''customer-991''"] run
    by auto
qed

end
