(* ===== verification/Ledger_Trace.thy ===== *)
theory Ledger_Trace
  imports Contradictions "HOL-Library.Sublist"
begin

text \<open>
  The services together: any sequence of their write requests, each committed or rolled
  back, in any order and by any tenants. One invariant covers all tables; the tables of
  the audit record only grow; what was known at an instant stays known as it was, whatever
  is recorded or revoked later; and every decision stays sealed, so its receipt verifies
  for ever. The contracts are those of \<^verbatim>\<open>Transactions\<close>, interpreted on the requests.
\<close>

section \<open>Requests\<close>

text \<open>
  The requests of the write services with the transaction each runs in. A capture carries
  the earlier states its read transactions saw, which may be any; a review runs its three
  transactions with no other request between them.
\<close>

datatype ledger_op =
    Tenancy tenancy_op
  | RegisterSource txn tenant_context string source_type "string option" pyint
  | RecordVersion txn tenant_context record_command
  | CaptureEvidence txn tenant_context uuid evidence_type string pydatetime "string option" "pyval option" privacy_scope
  | AttachEvidence txn tenant_context uuid uuid evidence_relation
  | CaptureContext engine provider search_index txn txn instant db db db tenant_context retrieval_query
  | RecordDecision txn tenant_context record_decision_command
  | Revoke txn tenant_context uuid string "uuid option"
  | ResolveContradiction instant tenant_context uuid contradiction_status "string option"
  | ReviewEntity "string \<Rightarrow> string \<Rightarrow> string + (string \<times> string)" string txn instant tenant_context string string

fun ledger_exec :: "runtime \<Rightarrow> ledger_op \<Rightarrow> db \<Rightarrow> db result" where
  "ledger_exec R (Tenancy op) db = tenancy_exec op db"
| "ledger_exec R (RegisterSource t ctx n st uri a) db = bindr (register_source t ctx n st uri a db) (\<lambda>r. Inr (snd r))"
| "ledger_exec R (RecordVersion t ctx cmd) db = bindr (record_version R t ctx cmd db) (\<lambda>r. Inr (snd r))"
| "ledger_exec R (CaptureEvidence t ctx sid et ex ca uri md sc) db =
     bindr (capture_evidence R t ctx sid et ex ca uri md sc db) (\<lambda>r. Inr (snd r))"
| "ledger_exec R (AttachEvidence t ctx vid eid rel) db = bindr (attach t ctx vid eid rel db) (\<lambda>r. Inr (snd r))"
| "ledger_exec R (CaptureContext eg pr ix t t' clock db0 db1 db2 ctx rq) db =
     bindr (capture_context R eg pr ix t t' clock db0 db1 db2 ctx rq db) (\<lambda>r. Inr (snd r))"
| "ledger_exec R (RecordDecision t ctx cmd) db = bindr (store_decision R t ctx cmd db) (\<lambda>r. Inr (snd r))"
| "ledger_exec R (Revoke t ctx fid reason vid) db = bindr (revoke t ctx fid reason vid db) (\<lambda>r. Inr (snd r))"
| "ledger_exec R (ResolveContradiction now ctx cid st n) db = bindr (resolve_contradiction now ctx cid st n db) (\<lambda>r. Inr (snd r))"
| "ledger_exec R (ReviewEntity chain m t clock ctx et ext) db =
     bindr (review_entity R chain m t clock db db ctx et ext db) (\<lambda>r. Inr (snd r))"

text \<open>The instant after which a request writes, where it writes something dated.\<close>

fun writes_after :: "instant \<Rightarrow> ledger_op \<Rightarrow> bool" where
  "writes_after k (RecordVersion t ctx cmd) = (k < t_clock t)"
| "writes_after k (Revoke t ctx fid reason vid) = (k < t_now t)"
| "writes_after k _ = True"

section \<open>What a request leaves as it was\<close>

text \<open>A version row keeps everything but its end, which closing it sets once.\<close>

definition version_kept :: "fact_version \<Rightarrow> fact_version \<Rightarrow> bool" where
  "version_kept v w \<longleftrightarrow> w = v\<lparr>fv_valid_until := fv_valid_until w, fv_valid_until_recorded_at := fv_valid_until_recorded_at w\<rparr>"

definition versions_kept :: "db \<Rightarrow> db \<Rightarrow> bool" where
  "versions_kept db db' \<longleftrightarrow> list_all2 version_kept (fact_versions db) (take (length (fact_versions db)) (fact_versions db'))"

text \<open>A context keeps its facts and a decision the facts it cites.\<close>

definition contexts_frozen :: "db \<Rightarrow> db \<Rightarrow> bool" where
  "contexts_frozen db db' \<longleftrightarrow>
     (\<forall>s \<in> set (snapshots db). filter (\<lambda>x. sf_snapshot_id x = cs_id s) (snapshot_facts db') =
        filter (\<lambda>x. sf_snapshot_id x = cs_id s) (snapshot_facts db)) \<and>
     (\<forall>d \<in> set (decisions db). filter (\<lambda>x. df_decision_id x = d_id d) (decision_facts db') =
        filter (\<lambda>x. df_decision_id x = d_id d) (decision_facts db))"

definition audit_kept :: "unit \<Rightarrow> db \<Rightarrow> db \<Rightarrow> bool" where
  "audit_kept _ db db' \<longleftrightarrow> prefix (entities db) (entities db') \<and> prefix (facts db) (facts db') \<and> prefix (sources db) (sources db') \<and>
     versions_kept db db' \<and> prefix (evidence_rows db) (evidence_rows db') \<and> prefix (evidence_links db) (evidence_links db') \<and>
     prefix (snapshots db) (snapshots db') \<and> prefix (snapshot_facts db) (snapshot_facts db') \<and>
     prefix (decisions db) (decisions db') \<and> prefix (decision_facts db) (decision_facts db') \<and>
     prefix (revocations db) (revocations db') \<and> prefix (impacts db) (impacts db') \<and> contexts_frozen db db'"

lemma contexts_frozen_same: "snapshot_facts db' = snapshot_facts db \<Longrightarrow> decision_facts db' = decision_facts db \<Longrightarrow> contexts_frozen db db'"
  by (simp add: contexts_frozen_def)

lemma contexts_frozen_trans:
  "contexts_frozen a b \<Longrightarrow> contexts_frozen b c \<Longrightarrow> set (snapshots a) \<subseteq> set (snapshots b) \<Longrightarrow> set (decisions a) \<subseteq> set (decisions b) \<Longrightarrow>
     contexts_frozen a c"
  unfolding contexts_frozen_def by (simp add: subset_iff)

lemma version_kept_refl: "version_kept v v"
  by (simp add: version_kept_def)

lemma version_kept_trans: "version_kept u v \<Longrightarrow> version_kept v w \<Longrightarrow> version_kept u w"
  by (cases u; cases v; cases w) (simp add: version_kept_def)

lemma version_kept_close: "version_kept v (close_row u r v)"
  by (simp add: version_kept_def close_row_def)

lemma version_kept_fields:
  assumes "version_kept v w"
  shows "fv_id w = fv_id v" "fv_org w = fv_org v" "fv_fact_id w = fv_fact_id v" "fv_value w = fv_value v"
    "fv_privacy_scope w = fv_privacy_scope v"
  using assms by (cases v; cases w; simp add: version_kept_def)+

lemma versions_kept_same: "fact_versions db' = fact_versions db \<Longrightarrow> versions_kept db db'"
  by (simp add: versions_kept_def list.rel_refl version_kept_refl)

lemma list_all2_take_trans:
  assumes "list_all2 P xs (take (length xs) ys)" "list_all2 P ys (take (length ys) zs)"
    and "\<And>x y z. P x y \<Longrightarrow> P y z \<Longrightarrow> P x z"
  shows "list_all2 P xs (take (length xs) zs)"
proof -
  have len: "length xs \<le> length ys" using list_all2_lengthD [OF assms(1)] by simp
  have "list_all2 P (take (length xs) ys) (take (length xs) (take (length ys) zs))"
    using assms(2) by (rule list_all2_takeI)
  then have "list_all2 P (take (length xs) ys) (take (length xs) zs)" using len by (simp add: min_def)
  then show ?thesis using assms(1,3) list_all2_trans [of P P P] by blast
qed

lemma audit_kept_refl: "audit_kept x db db"
  by (simp add: audit_kept_def versions_kept_same contexts_frozen_same)

lemma audit_kept_trans: "audit_kept x a b \<Longrightarrow> audit_kept x b c \<Longrightarrow> audit_kept x a c"
  unfolding audit_kept_def versions_kept_def
  using list_all2_take_trans [where P = version_kept] version_kept_trans contexts_frozen_trans set_mono_prefix
  by (meson prefix_order.trans)

lemma versions_keptD:
  assumes "versions_kept db db'" and "v \<in> set (fact_versions db)"
  shows "\<exists>w \<in> set (fact_versions db'). version_kept v w"
proof -
  obtain i where i: "i < length (fact_versions db)" "v = fact_versions db ! i" using assms(2) by (auto simp: in_set_conv_nth)
  then have "version_kept v (take (length (fact_versions db)) (fact_versions db') ! i)"
    using list_all2_nthD [OF assms(1) [unfolded versions_kept_def]] by blast
  moreover have "i < length (take (length (fact_versions db)) (fact_versions db'))"
    using i list_all2_lengthD [OF assms(1) [unfolded versions_kept_def]] by simp
  ultimately show ?thesis using nth_mem in_set_takeD by fast
qed

lemma audit_kept_rows:
  assumes "audit_kept x db db'"
  shows "rows_kept db db'"
proof -
  have "\<exists>w \<in> set (fact_versions db'). fv_id w = fv_id v \<and> fv_org w = fv_org v \<and> fv_fact_id w = fv_fact_id v \<and>
      fv_privacy_scope w = fv_privacy_scope v" if v: "v \<in> set (fact_versions db)" for v
  proof -
    obtain w where w: "w \<in> set (fact_versions db')" "version_kept v w"
      using versions_keptD [OF _ v] assms by (auto simp: audit_kept_def)
    then show ?thesis using version_kept_fields [OF w(2)] by blast
  qed
  then show ?thesis using assms by (simp add: rows_kept_def audit_kept_def set_mono_prefix)
qed

text \<open>How the version rows of a committed \<^verbatim>\<open>record_version\<close> relate to those before.\<close>

lemma record_version_kept:
  assumes inv: "ledger_inv db" and run: "record_version R t ctx cmd db = Inr (v, db')"
  shows "versions_kept db db'"
proof -
  obtain latest plan db1 where "ledger_inv db'" and rows: "fact_versions db' = fact_versions db1 @ [v]"
    and db1: "db1 = planned_db latest plan (fv_recorded_at v) db"
    by (rule record_version_rows [OF inv run]) (rule that)
  have "list_all2 version_kept (fact_versions db) (fact_versions db1)"
    by (auto simp: db1 planned_db_def closed_db_def list_all2_map2 list.rel_refl version_kept_refl version_kept_close
        intro!: list_all2_refl split: option.split)
  moreover have "length (fact_versions db1) = length (fact_versions db)" using list_all2_lengthD [OF calculation] by simp
  ultimately show ?thesis by (simp add: versions_kept_def rows)
qed

lemma record_version_audit:
  assumes inv: "ledger_inv db" and run: "record_version R t ctx cmd db = Inr (v, db')"
  shows "audit_kept x db db'"
  using record_version_frame [OF inv run] record_version_kept [OF inv run] by (auto simp: audit_kept_def prefix_def contexts_frozen_same)

lemma versions_kept_keys:
  assumes "versions_kept db db'"
  shows "(\<lambda>v. (fv_org v, fv_id v)) ` set (fact_versions db) \<subseteq> (\<lambda>v. (fv_org v, fv_id v)) ` set (fact_versions db')"
proof
  fix k assume "k \<in> (\<lambda>v. (fv_org v, fv_id v)) ` set (fact_versions db)"
  then obtain v where v: "v \<in> set (fact_versions db)" "k = (fv_org v, fv_id v)" by blast
  then obtain w where "w \<in> set (fact_versions db')" "version_kept v w" using versions_keptD [OF assms] by blast
  then show "k \<in> (\<lambda>v. (fv_org v, fv_id v)) ` set (fact_versions db')"
    by (intro image_eqI [of _ _ w]) (simp_all add: v(2) version_kept_fields)
qed

section \<open>The invariant of all tables\<close>

definition ledger_state_ok :: "runtime \<Rightarrow> db \<Rightarrow> bool" where
  "ledger_state_ok R db \<longleftrightarrow> store_ok db \<and> decision_store_ok db \<and> sealed R db \<and> revocations_ok db \<and> contradictions_scoped db"

text \<open>When the tables of versions grow, everything that refers to them stays well formed.\<close>

lemma decision_store_extend:
  assumes "decision_store_ok db" and "versions_kept db db'"
    and "snapshots db' = snapshots db" "snapshot_facts db' = snapshot_facts db" "decisions db' = decisions db"
      "decision_facts db' = decision_facts db"
  shows "decision_store_ok db'"
proof -
  have "snapshot_fact_refs db x \<longrightarrow> snapshot_fact_refs db' x" for x
    using versions_kept_keys [OF assms(2)] assms(3) by (auto simp: snapshot_fact_refs_def)
  moreover have "decision_fact_refs db' = decision_fact_refs db" by (rule ext) (simp add: decision_fact_refs_def assms)
  ultimately show ?thesis using assms(1) by (auto simp: decision_store_ok_def assms(3-) list_all_iff)
qed

lemma snapshot_rows_hashed:
  assumes ok: "ledger_ok db" "ledger_ok db'" and st: "decision_store_ok db" "decision_store_ok db'"
    and kept: "versions_kept db db'" and same: "snapshot_facts db' = snapshot_facts db"
  shows "map hashed_part (snapshot_rows db' org sid) = map hashed_part (snapshot_rows db org sid)"
proof -
  let ?rows = "snapshot_rows db org sid" and ?rows' = "snapshot_rows db' org sid"
  note r = snapshot_rows_facts [OF ok(1) st(1), where org = org and sid = sid]
  note r' = snapshot_rows_facts [OF ok(2) st(2), where org = org and sid = sid]
  have sf: "map sw_snapshot_fact ?rows' = map sw_snapshot_fact ?rows" using r(1) r'(1) by (simp add: same)
  then have len: "length ?rows' = length ?rows" by (metis length_map)
  show ?thesis
  proof (rule nth_equalityI)
    fix i assume "i < length (map hashed_part ?rows')"
    then have i: "i < length ?rows'" "i < length ?rows" using len by simp_all
    then have sfi: "sw_snapshot_fact (?rows' ! i) = sw_snapshot_fact (?rows ! i)" using sf by (metis nth_map)
    have m: "?rows ! i \<in> set ?rows" "?rows' ! i \<in> set ?rows'" using i by simp_all
    obtain w where w: "w \<in> set (fact_versions db')" "version_kept (sw_version (?rows ! i)) w"
      using versions_keptD [OF kept] r(3) [OF m(1)] by blast
    have "fv_id w = fv_id (sw_version (?rows' ! i))"
      using version_kept_fields(1) [OF w(2)] r(2) [OF m(1)] r'(2) [OF m(2)] sfi by simp
    then have "w = sw_version (?rows' ! i)"
      using distinct_map_eqD [OF ledger_distinct(1) [OF ok(2)] w(1)] r'(3) [OF m(2)] by blast
    then show "map hashed_part ?rows' ! i = map hashed_part ?rows ! i"
      using i version_kept_fields [OF w(2)] sfi by (simp add: hashed_part_def)
  qed (simp add: len)
qed

lemma sealed_extend:
  assumes ok: "ledger_ok db" "ledger_ok db'" and st: "decision_store_ok db" "decision_store_ok db'"
    and kept: "versions_kept db db'" and sl: "sealed R db"
    and same: "snapshots db' = snapshots db" "snapshot_facts db' = snapshot_facts db" "decisions db' = decisions db"
      "decision_facts db' = decision_facts db"
  shows "sealed R db'"
proof -
  have "recomputed_hash R db' d = recomputed_hash R db d" for d
  proof -
    have "decision_seal R d s (snapshot_rows db' (d_org d) (cs_id s)) (relied_on_rows db' (d_org d) (d_id d)) =
        decision_seal R d s (snapshot_rows db (d_org d) (cs_id s)) (relied_on_rows db (d_org d) (d_id d))" for s
      by (rule decision_seal_cong [OF snapshot_rows_hashed [OF ok st kept same(2)]]) (simp add: relied_on_rows_def same)
    moreover have "get_snapshot db' org sid = get_snapshot db org sid" for org sid by (simp add: get_snapshot_def same)
    ultimately show ?thesis by (simp add: recomputed_hash_def)
  qed
  then show ?thesis using sl by (simp add: sealed_def same)
qed

lemma revocations_extend:
  assumes "revocations_ok db" and "versions_kept db db'"
    and "revocations db' = revocations db" "impacts db' = impacts db"
    and "set (decisions db) \<subseteq> set (decisions db')" "set (snapshot_facts db) \<subseteq> set (snapshot_facts db')"
  shows "revocations_ok db'"
proof -
  have "impact_refs db i \<longrightarrow> impact_refs db' i" for i
    using assms(3,5,6) by (auto simp: impact_refs_def)
  then show ?thesis using assms(1) versions_kept_keys [OF assms(2)] by (auto simp: revocations_ok_def assms(3,4) list_all_iff)
qed

lemma contradictions_extend:
  assumes ok: "ledger_ok db" "ledger_ok db'" and sc: "contradictions_scoped db" and kept: "versions_kept db db'"
    and e: "set (entities db) \<subseteq> set (entities db')" and c: "c \<in> set (contradictions db)"
  shows "contradiction_checks db' c"
    "\<forall>w \<in> set (fact_versions db'). fv_id w \<in> {c_left_version_id c, c_right_version_id c} \<longrightarrow> fv_privacy_scope w \<le> c_privacy_scope c"
proof -
  have ck: "contradiction_checks db c" using sc c by (simp add: contradictions_scoped_def)
  then show "contradiction_checks db' c"
    using versions_kept_keys [OF kept] e unfolding contradiction_checks_def by blast
  show "\<forall>w \<in> set (fact_versions db'). fv_id w \<in> {c_left_version_id c, c_right_version_id c} \<longrightarrow> fv_privacy_scope w \<le> c_privacy_scope c"
  proof (intro ballI impI)
    fix w assume w: "w \<in> set (fact_versions db')" "fv_id w \<in> {c_left_version_id c, c_right_version_id c}"
    obtain v where v: "v \<in> set (fact_versions db)" "fv_id v = fv_id w"
      using ck w(2) by (auto simp: contradiction_checks_def)
    obtain x where x: "x \<in> set (fact_versions db')" "version_kept v x" using versions_keptD [OF kept v(1)] by blast
    have "x = w" using distinct_map_eqD [OF ledger_distinct(1) [OF ok(2)] x(1) w(1)] version_kept_fields(1) [OF x(2)] v(2) by simp
    then show "fv_privacy_scope w \<le> c_privacy_scope c"
      using sc c v w(2) version_kept_fields(5) [OF x(2)] by (auto simp: contradictions_scoped_def)
  qed
qed

lemma store_ok_cong:
  assumes "users db' = users db" "organizations db' = organizations db" "memberships db' = memberships db" "facts db' = facts db"
    "entities db' = entities db" "sources db' = sources db" "fact_versions db' = fact_versions db" "contradictions db' = contradictions db"
  shows "store_ok db' = store_ok db"
  unfolding store_ok_def tenancy_ok_def ledger_inv_def ledger_ok_cong [OF assms(4-7)] fact_rows_def contradictions_ok_def assms by (rule refl)

section \<open>Every request keeps the invariant\<close>

lemma ledger_state_ledger: "ledger_state_ok R db \<Longrightarrow> ledger_ok db" "ledger_state_ok R db \<Longrightarrow> ledger_inv db"
  by (simp_all add: ledger_state_ok_def store_ok_def ledger_inv_ok)

lemma tenancy_exec_tables:
  assumes "tenancy_exec op db = Inr db'"
  shows "db' = db\<lparr>users := users db', organizations := organizations db', memberships := memberships db'\<rparr>"
proof (cases op)
  case (ChangeRole t ctx uid r)
  then have "change_role t ctx uid r db = Inr db'" using assms by simp
  then show ?thesis by (rule change_role_cases) (simp_all add: set_role_def)
next
  case (RemoveMember ctx uid)
  then have "remove_member ctx uid db = Inr db'" using assms by simp
  then show ?thesis by (rule remove_member_cases) (auto simp: delete_membership_def result_simps)
qed (use assms in \<open>auto simp: register_user_def create_organization_def add_member_def insert_user_def insert_organization_def
      insert_membership_def Let_def result_simps\<close>)

lemma same_versions_state:
  assumes st: "ledger_state_ok R db" and "store_ok db'"
    and tabs: "fact_versions db' = fact_versions db" "set (entities db) \<subseteq> set (entities db')" "contradictions db' = contradictions db"
      "snapshots db' = snapshots db" "snapshot_facts db' = snapshot_facts db" "decisions db' = decisions db"
      "decision_facts db' = decision_facts db" "revocations db' = revocations db" "impacts db' = impacts db"
  shows "ledger_state_ok R db'"
proof -
  have kept: "versions_kept db db'" by (rule versions_kept_same [OF tabs(1)])
  have ok: "ledger_ok db" "ledger_ok db'" using st assms(2) by (simp_all add: ledger_state_ok_def store_ok_def ledger_inv_ok)
  have d: "decision_store_ok db" "sealed R db" "revocations_ok db" "contradictions_scoped db"
    using st by (simp_all add: ledger_state_ok_def)
  have d': "decision_store_ok db'" by (rule decision_store_extend [OF d(1) kept tabs(4-7)])
  moreover have "sealed R db'" by (rule sealed_extend [OF ok d(1) d' kept d(2) tabs(4-7)])
  moreover have "revocations_ok db'" by (rule revocations_extend [OF d(3) kept tabs(8,9)]) (simp_all add: tabs)
  moreover have "contradictions_scoped db'"
    using contradictions_extend [OF ok d(4) kept tabs(2)] by (simp add: contradictions_scoped_def tabs(3))
  ultimately show ?thesis using assms(2) by (simp add: ledger_state_ok_def)
qed

lemma tenancy_keeps:
  assumes st: "ledger_state_ok R db" and run: "tenancy_exec op db = Inr db'"
  shows "ledger_state_ok R db'" "audit_kept x db db'" "knowledge_kept k db db'"
proof -
  obtain us os ms where db': "db' = db\<lparr>users := us, organizations := os, memberships := ms\<rparr>"
    by (rule that [OF tenancy_exec_tables [OF run]])
  have "tenancy_ok db'" using tenancy_exec_ok [OF _ run] st by (simp add: ledger_state_ok_def store_ok_def)
  moreover have "ledger_inv db'"
    by (rule ledger_inv_cong [OF _ _ ledger_state_ledger(2) [OF st]])
      (use ledger_state_ledger(1) [OF st] ledger_ok_cong [of db' db] in \<open>simp_all add: db'\<close>)
  moreover have "contradictions_ok db'" using st by (simp add: ledger_state_ok_def store_ok_def contradictions_ok_def db')
  ultimately have "store_ok db'" by (simp add: store_ok_def)
  then show "ledger_state_ok R db'" by (rule same_versions_state [OF st]) (simp_all add: db')
  show "audit_kept x db db'" by (simp add: audit_kept_def versions_kept_same contexts_frozen_same db')
  show "knowledge_kept k db db'" by (simp add: knowledge_kept_def known_versions_def known_revocations_def db')
qed

lemma register_source_keeps:
  assumes st: "ledger_state_ok R db" and run: "register_source t ctx n ty uri a db = Inr (s, db')"
  shows "ledger_state_ok R db'" "audit_kept x db db'" "knowledge_kept k db db'"
proof -
  have ins: "insert_source db s = Inr db'"
    using run by (auto simp: register_source_def Let_def result_simps)
  then have db': "db' = db\<lparr>sources := sources db @ [s]\<rparr>" by (auto simp: insert_source_def result_simps)
  have "ledger_inv db'"
    by (rule ledger_inv_cong [OF insert_source_ok [OF ledger_state_ledger(1) [OF st] ins] _ ledger_state_ledger(2) [OF st]]) (simp add: db')
  then have "store_ok db'" using st by (simp add: ledger_state_ok_def store_ok_def contradictions_ok_def tenancy_ok_def db')
  then show "ledger_state_ok R db'" by (rule same_versions_state [OF st]) (simp_all add: db')
  show "audit_kept x db db'" by (simp add: audit_kept_def versions_kept_same contexts_frozen_same db')
  show "knowledge_kept k db db'" by (simp add: knowledge_kept_def known_versions_def known_revocations_def db')
qed

lemma evidence_keeps:
  assumes st: "ledger_state_ok R db" and db': "db' = db\<lparr>evidence_rows := evidence_rows db @ es, evidence_links := evidence_links db @ ls\<rparr>"
  shows "ledger_state_ok R db'" "audit_kept x db db'" "knowledge_kept k db db'"
proof -
  have "store_ok db'" using st store_ok_cong [of db' db] by (simp add: ledger_state_ok_def db')
  then show "ledger_state_ok R db'" by (rule same_versions_state [OF st]) (simp_all add: db')
  show "audit_kept x db db'" by (simp add: audit_kept_def versions_kept_same contexts_frozen_same db')
  show "knowledge_kept k db db'" by (simp add: knowledge_kept_def known_versions_def known_revocations_def db')
qed

lemma capture_evidence_tables:
  assumes "capture_evidence R t ctx sid et ex ca uri md sc db = Inr (r, db')"
  shows "\<exists>es. db' = db\<lparr>evidence_rows := evidence_rows db @ es, evidence_links := evidence_links db @ []\<rparr>"
proof -
  obtain e where "capture e db = Inr (r, db')" using assms by (auto simp: capture_evidence_def Let_def result_simps)
  then show ?thesis by (cases r) (auto elim!: capture_cases intro: exI [of _ "[]"])
qed

lemma attach_tables:
  assumes "attach t ctx vid eid rel db = Inr (r, db')"
  shows "\<exists>ls. db' = db\<lparr>evidence_rows := evidence_rows db @ [], evidence_links := evidence_links db @ ls\<rparr>"
  using assms link_evidence_Inr by (fastforce simp: attach_def result_simps)

lemma record_version_scoped:
  assumes st: "ledger_state_ok R0 db" and run: "record_version R t ctx cmd db = Inr (v, db')"
  shows "contradictions_scoped db'"
proof -
  have sc: "contradictions_scoped db" and inv: "ledger_inv db" and store: "store_ok db"
    using st ledger_state_ledger(2) by (auto simp: ledger_state_ok_def)
  have ok: "ledger_ok db" "ledger_ok db'"
    using ledger_inv_ok [OF inv] record_version_store_ok [OF store run] by (simp_all add: store_ok_def ledger_inv_ok)
  have kept: "versions_kept db db'" by (rule record_version_kept [OF inv run])
  obtain es where "entities db' = entities db @ es" using record_version_frame(15) [OF inv run] by blast
  then have ents: "set (entities db) \<subseteq> set (entities db')" by simp
  obtain ck s a e f db2 where inp: "append_inputs R ctx cmd ck s a f db2" and ap: "append_version t ctx cmd ck s a e f db2 = Inr (v, db')"
    and e: "e \<in> set (entities db2)" "en_org e = ctx_org ctx"
    and db2: "db2 = db\<lparr>entities := entities db2, facts := facts db2\<rparr>" and fv2: "fact_versions db2 = fact_versions db"
    by (rule record_version_steps [OF inv run]) (rule that)
  obtain latest plan db1 cs ls where l: "latest = latest_version_row db2 (ctx_org ctx) (f_id f)"
    and v: "v = new_version t (ctx_org ctx) (f_id f) cmd ck s a latest plan"
    and db': "db' = db1\<lparr>fact_versions := fact_versions db1 @ [v], contradictions := contradictions db2 @ cs, evidence_links := evidence_links db2 @ ls\<rparr>"
    and db1: "db1 = planned_db latest plan (next_transaction_time t latest) db2"
    and cs: "\<forall>c \<in> set cs. contradiction_of latest v c \<and> c_org c = ctx_org ctx" "\<forall>c \<in> set cs. c_entity_id c = en_id e \<and> c_resolved_at c = None"
    by (rule append_version_Inr [OF inp ap]) (rule that)
  have tabs: "contradictions db2 = contradictions db" by (subst db2) simp
  have new: "v \<in> set (fact_versions db')" "fv_org v = ctx_org ctx" "entities db' = entities db2" by (simp_all add: db' db1 v new_version_def Let_def)
  have "contradiction_checks db' c \<and> (\<forall>w \<in> set (fact_versions db'). fv_id w \<in> {c_left_version_id c, c_right_version_id c} \<longrightarrow>
      fv_privacy_scope w \<le> c_privacy_scope c)" if c: "c \<in> set cs" for c
  proof -
    have "contradiction_of latest v c" using cs(1) c by blast
    then obtain x where x: "latest = Some x" by (cases latest) (auto simp: contradiction_of_def)
    have co: "contradiction_of (Some x) v c" "c_org c = ctx_org ctx" "c_entity_id c = en_id e" "c_resolved_at c = None"
      using cs c x by auto
    have "x \<in> set (versions_of db2 (ctx_org ctx) (f_id f))"
      using l x by (auto simp: latest_version_row_def split: list.splits dest!: arg_cong [of "sort_key _ _" _ set])
    then have xm: "x \<in> set (fact_versions db)" "fv_org x = ctx_org ctx" by (auto simp: versions_of_def fv2)
    obtain y where y: "y \<in> set (fact_versions db')" "version_kept x y" using versions_keptD [OF kept xm(1)] by blast
    note yf = version_kept_fields [OF y(2)]
    have ids: "fv_id y = c_left_version_id c" "fv_id v = c_right_version_id c" "fv_id x \<noteq> fv_id v"
      "c_privacy_scope c = max (fv_privacy_scope x) (fv_privacy_scope v)" "c_status c = OPEN"
      using co(1) yf(1) by (auto simp: contradiction_of_def)
    have keys: "(c_org c, c_left_version_id c) \<in> (\<lambda>v. (fv_org v, fv_id v)) ` set (fact_versions db')"
      "(c_org c, c_right_version_id c) \<in> (\<lambda>v. (fv_org v, fv_id v)) ` set (fact_versions db')"
      "(c_org c, c_entity_id c) \<in> (\<lambda>e. (en_org e, en_id e)) ` set (entities db')"
      using image_eqI [OF _ y(1), of "(c_org c, c_left_version_id c)" "\<lambda>v. (fv_org v, fv_id v)"]
        image_eqI [OF _ new(1), of "(c_org c, c_right_version_id c)" "\<lambda>v. (fv_org v, fv_id v)"]
        image_eqI [OF _ e(1), of "(c_org c, c_entity_id c)" "\<lambda>e. (en_org e, en_id e)"]
        ids yf(2) xm(2) new co e(2) by simp_all
    have "w = y \<or> w = v" if "w \<in> set (fact_versions db')" "fv_id w \<in> {c_left_version_id c, c_right_version_id c}" for w
      using distinct_map_eqD [OF ledger_distinct(1) [OF ok(2)] that(1) y(1)] distinct_map_eqD [OF ledger_distinct(1) [OF ok(2)] that(1) new(1)]
        that(2) ids by auto
    then have "\<forall>w \<in> set (fact_versions db'). fv_id w \<in> {c_left_version_id c, c_right_version_id c} \<longrightarrow> fv_privacy_scope w \<le> c_privacy_scope c"
      using ids(4) yf(5) by (metis max.cobounded1 max.cobounded2)
    then show ?thesis using keys ids co yf(1) by (auto simp: contradiction_checks_def)
  qed
  then show ?thesis
    using contradictions_extend [OF ok sc kept ents] by (auto simp: contradictions_scoped_def db' tabs)
qed

lemma record_version_keeps:
  assumes st: "ledger_state_ok R0 db" and run: "record_version R t ctx cmd db = Inr (v, db')"
  shows "ledger_state_ok R0 db'" "audit_kept x db db'" "k < t_clock t \<longrightarrow> knowledge_kept k db db'"
proof -
  have d: "store_ok db" "decision_store_ok db" "sealed R0 db" "revocations_ok db" using st by (simp_all add: ledger_state_ok_def)
  have inv: "ledger_inv db" by (rule ledger_state_ledger(2) [OF st])
  have store: "store_ok db'" by (rule record_version_store_ok [OF d(1) run])
  have ok: "ledger_ok db" "ledger_ok db'" using inv store by (simp_all add: store_ok_def ledger_inv_ok)
  note frame = record_version_frame [OF inv run] and kept = record_version_kept [OF inv run]
  have d': "decision_store_ok db'" by (rule decision_store_extend [OF d(2) kept frame(2-5)])
  moreover have "sealed R0 db'" by (rule sealed_extend [OF ok d(2) d' kept d(3) frame(2-5)])
  moreover have "revocations_ok db'" by (rule revocations_extend [OF d(4) kept frame(1,6)]) (simp_all add: frame)
  ultimately show "ledger_state_ok R0 db'" using store record_version_scoped [OF st run] by (simp add: ledger_state_ok_def)
  show "audit_kept x db db'" by (rule record_version_audit [OF inv run])
  show "k < t_clock t \<longrightarrow> knowledge_kept k db db'" using record_version_knowledge [OF inv run] by blast
qed

lemma capture_context_keeps:
  assumes st: "ledger_state_ok R db" and run: "capture_context R eg pr ix t t' clock db0 db1 db2 ctx rq db = Inr (c, db')"
  shows "ledger_state_ok R db'" "audit_kept x db db'" "knowledge_kept k db db'"
proof -
  obtain s fs where add: "add_snapshot s fs db = Inr db'" "cs_id s = cc_snapshot_id c"
    and fs: "fs = map (\<lambda>(position, result). \<lparr>sf_org = ctx_org ctx, sf_snapshot_id = cs_id s,
           sf_fact_version_id = vs_id (rt_version result), sf_position = position,
           sf_ranking = ranking_object (rt_ranking result)\<rparr>) (enumerate 1 (rr_results (cc_retrieval c)))"
    by (rule capture_context_Inr [OF run]) (rule that)
  have db': "db' = db\<lparr>snapshots := snapshots db @ [s], snapshot_facts := snapshot_facts db @ fs\<rparr>" by (rule add_snapshot_Inr(1) [OF add(1)])
  have d: "decision_store_ok db" "sealed R db" "revocations_ok db" "contradictions_scoped db" using st by (simp_all add: ledger_state_ok_def)
  have "sealed R db'" by (rule add_snapshot_sealed [OF d(1,2) add(1)]) (auto simp: fs)
  moreover have "store_ok db'" using st store_ok_cong [of db' db] by (simp add: ledger_state_ok_def db')
  moreover have "revocations_ok db'" by (rule revocations_extend [OF d(3)]) (simp_all add: versions_kept_same db')
  moreover have "contradictions_scoped db'" using d(4) by (simp add: contradictions_scoped_def contradiction_checks_def db')
  ultimately show "ledger_state_ok R db'" using add_snapshot_ok [OF d(1) add(1)] by (simp add: ledger_state_ok_def)
  have "\<forall>o1 \<in> set (snapshots db). cs_id o1 \<noteq> cs_id s" using add_snapshot_Inr(2) [OF add(1)] by (metis image_eqI)
  then have "filter (\<lambda>x. sf_snapshot_id x = cs_id o1) fs = []" if "o1 \<in> set (snapshots db)" for o1
    using that by (auto simp: fs filter_empty_conv)
  then have "contexts_frozen db db'" by (simp add: contexts_frozen_def db')
  then show "audit_kept x db db'" by (simp add: audit_kept_def versions_kept_same db')
  show "knowledge_kept k db db'" by (simp add: knowledge_kept_def known_versions_def known_revocations_def db')
qed

lemma store_decision_keeps:
  assumes st: "ledger_state_ok R db" and run: "store_decision R t ctx cmd db = Inr (did, db')"
  shows "ledger_state_ok R db'" "audit_kept x db db'" "knowledge_kept k db db'"
proof -
  obtain d s relied where "get_snapshot db (ctx_org ctx) (rd_snapshot_id cmd) = Some s" and new: "did \<notin> d_id ` set (decisions db)"
    and db': "db' = db\<lparr>decisions := decisions db @ [d], decision_facts := decision_facts db @
        map (\<lambda>v. \<lparr>df_org = ctx_org ctx, df_decision_id = did, df_snapshot_id = cs_id s, df_fact_version_id = v\<rparr>) relied\<rparr>"
    by (rule store_decision_Inr [OF run]) (rule that)
  have d: "decision_store_ok db" "sealed R db" "revocations_ok db" "contradictions_scoped db" using st by (simp_all add: ledger_state_ok_def)
  have "store_ok db'" using st store_ok_cong [of db' db] by (simp add: ledger_state_ok_def db')
  moreover have "revocations_ok db'" by (rule revocations_extend [OF d(3)]) (auto simp: versions_kept_same db')
  moreover have "contradictions_scoped db'" using d(4) by (simp add: contradictions_scoped_def contradiction_checks_def db')
  ultimately show "ledger_state_ok R db'"
    using store_decision_ok [OF d(1) run] store_decision_sealed [OF d(1,2) run] by (simp add: ledger_state_ok_def)
  have "contexts_frozen db db'" using new by (auto simp: contexts_frozen_def db' filter_empty_conv)
  then show "audit_kept x db db'" by (simp add: audit_kept_def versions_kept_same db')
  show "knowledge_kept k db db'" by (simp add: knowledge_kept_def known_versions_def known_revocations_def db')
qed

lemma revoke_keeps:
  assumes st: "ledger_state_ok R db" and run: "revoke t ctx fid reason vid db = Inr (rep, db')"
  shows "ledger_state_ok R db'" "audit_kept x db db'" "k < t_now t \<longrightarrow> knowledge_kept k db db'"
proof -
  obtain r "is" where r: "rv_revoked_at r = t_now t" and db': "db' = db\<lparr>revocations := revocations db @ [r], impacts := impacts db @ is\<rparr>"
    using revoke_frame [OF run] by blast
  have d: "decision_store_ok db" "sealed R db" "revocations_ok db" "contradictions_scoped db" using st by (simp_all add: ledger_state_ok_def)
  have "store_ok db'" using st store_ok_cong [of db' db] by (simp add: ledger_state_ok_def db')
  moreover have "contradictions_scoped db'" using d(4) by (simp add: contradictions_scoped_def contradiction_checks_def db')
  ultimately show "ledger_state_ok R db'"
    using revoke_keeps_decisions [OF run d(1,2)] revoke_revocations_ok [OF d(3) run] by (simp add: ledger_state_ok_def)
  show "audit_kept x db db'" by (simp add: audit_kept_def versions_kept_same contexts_frozen_same db')
  show "k < t_now t \<longrightarrow> knowledge_kept k db db'" by (simp add: knowledge_kept_def known_versions_def known_revocations_def db' r)
qed

lemma contradictions_keep:
  assumes st: "ledger_state_ok R db" and db': "db' = db\<lparr>contradictions := cs\<rparr>" and c: "contradictions_ok db'" "contradictions_scoped db'"
  shows "ledger_state_ok R db'" "audit_kept x db db'" "knowledge_kept k db db'"
proof -
  have d: "decision_store_ok db" "sealed R db" "revocations_ok db" using st by (simp_all add: ledger_state_ok_def)
  have kept: "versions_kept db db'" by (rule versions_kept_same) (simp add: db')
  have "ledger_ok db'" using ledger_state_ledger(1) [OF st] ledger_ok_cong [of db' db] by (simp add: db')
  then have inv: "ledger_inv db'" by (rule ledger_inv_cong [OF _ _ ledger_state_ledger(2) [OF st]]) (simp add: db')
  then have store: "store_ok db'" using st c by (simp add: ledger_state_ok_def store_ok_def tenancy_ok_def db')
  have d': "decision_store_ok db'" by (rule decision_store_extend [OF d(1) kept]) (simp_all add: db')
  moreover have "sealed R db'"
    by (rule sealed_extend [OF ledger_state_ledger(1) [OF st] ledger_inv_ok [OF inv] d(1) d' kept d(2)]) (simp_all add: db')
  moreover have "revocations_ok db'" by (rule revocations_extend [OF d(3) kept]) (simp_all add: db')
  ultimately show "ledger_state_ok R db'" using store c(2) by (simp add: ledger_state_ok_def)
  show "audit_kept x db db'" using kept by (simp add: audit_kept_def contexts_frozen_same db')
  show "knowledge_kept k db db'" by (simp add: knowledge_kept_def known_versions_def known_revocations_def db')
qed

lemma ledger_exec_keeps:
  assumes st: "ledger_state_ok R db" and run: "ledger_exec R op db = Inr db'"
  shows "ledger_state_ok R db' \<and> audit_kept x db db' \<and> (writes_after k op \<longrightarrow> knowledge_kept k db db')"
proof (cases op)
  case (Tenancy op')
  then show ?thesis using tenancy_keeps [OF st, of op' db'] run by simp
next
  case (RegisterSource t ctx n ty uri a)
  then show ?thesis using register_source_keeps [OF st, of t ctx n ty uri a] run by (auto simp: result_simps)
next
  case (RecordVersion t ctx cmd)
  then show ?thesis using record_version_keeps [OF st, of R t ctx cmd] run by (auto simp: result_simps)
next
  case (CaptureEvidence t ctx sid et ex ca uri md sc)
  then obtain r where r: "capture_evidence R t ctx sid et ex ca uri md sc db = Inr (r, db')" using run by (auto simp: result_simps)
  obtain es where es: "db' = db\<lparr>evidence_rows := evidence_rows db @ es, evidence_links := evidence_links db @ []\<rparr>"
    using capture_evidence_tables [OF r] by blast
  show ?thesis using evidence_keeps [OF st es] by blast
next
  case (AttachEvidence t ctx vid eid rel)
  then obtain r where r: "attach t ctx vid eid rel db = Inr (r, db')" using run by (auto simp: result_simps)
  obtain ls where ls: "db' = db\<lparr>evidence_rows := evidence_rows db @ [], evidence_links := evidence_links db @ ls\<rparr>"
    using attach_tables [OF r] by blast
  show ?thesis using evidence_keeps [OF st ls] by blast
next
  case (CaptureContext eg pr ix t t' clock db0 db1 db2 ctx rq)
  then show ?thesis using capture_context_keeps [OF st, of eg pr ix t t' clock db0 db1 db2 ctx rq] run by (auto simp: result_simps)
next
  case (RecordDecision t ctx cmd)
  then show ?thesis using store_decision_keeps [OF st, of t ctx cmd] run by (auto simp: result_simps)
next
  case (Revoke t ctx fid reason vid)
  then show ?thesis using revoke_keeps [OF st, of t ctx fid reason vid] run by (auto simp: result_simps)
next
  case (ResolveContradiction now ctx cid s n)
  then obtain w where w: "resolve_contradiction now ctx cid s n db = Inr (w, db')" using run by (auto simp: result_simps)
  have "contradictions_ok db" "contradictions_scoped db" using st by (simp_all add: ledger_state_ok_def store_ok_def)
  note keeps = resolve_contradiction_keeps [OF ledger_state_ledger(1) [OF st] this w]
  obtain cs where cs: "db' = db\<lparr>contradictions := cs\<rparr>" using keeps(3) by blast
  show ?thesis using contradictions_keep [OF st cs keeps(1,2)] by blast
next
  case (ReviewEntity chain m t clock ctx et ext)
  then obtain r where r: "review_entity R chain m t clock db db ctx et ext db = Inr (r, db')" using run by (auto simp: result_simps)
  have c: "contradictions_ok db" "contradictions_scoped db" using st by (simp_all add: ledger_state_ok_def store_ok_def)
  note lok = ledger_state_ledger(1) [OF st]
  note keeps = review_entity_keeps [OF lok lok c audit_kept_rows [OF audit_kept_refl] r]
  obtain cs where cs: "db' = db\<lparr>contradictions := contradictions db @ cs\<rparr>" using keeps(3) by blast
  show ?thesis using contradictions_keep [OF st cs keeps(1,2)] by blast
qed

interpretation ledger: transactional "ledger_exec R" "ledger_state_ok R" for R
  by unfold_locales (use ledger_exec_keeps in blast)

interpretation audit: evolving "ledger_exec R" "ledger_state_ok R" audit_kept "\<lambda>_ _. True" for R
  by unfold_locales (use ledger_exec_keeps audit_kept_refl audit_kept_trans in blast)+

interpretation knowledge: evolving "ledger_exec R" "ledger_state_ok R" knowledge_kept writes_after for R
  by unfold_locales (use ledger_exec_keeps knowledge_kept_refl knowledge_kept_trans in blast)+

section \<open>Requests of other tenants\<close>

text \<open>Everything a tenant owns: the rows of every table that carry its identifier. Users belong to no tenant.\<close>

definition tenant_view :: "uuid \<Rightarrow> db \<Rightarrow> db" where
  "tenant_view org db = db\<lparr>organizations := filter (\<lambda>x. o_id x = org) (organizations db), users := [],
     memberships := filter (\<lambda>x. m_org x = org) (memberships db), entities := filter (\<lambda>x. en_org x = org) (entities db),
     sources := filter (\<lambda>x. s_org x = org) (sources db), facts := filter (\<lambda>x. f_org x = org) (facts db),
     fact_versions := filter (\<lambda>x. fv_org x = org) (fact_versions db), revocations := filter (\<lambda>x. rv_org x = org) (revocations db),
     impacts := filter (\<lambda>x. ri_org x = org) (impacts db), evidence_rows := filter (\<lambda>x. ev_org x = org) (evidence_rows db),
     evidence_links := filter (\<lambda>x. fe_org x = org) (evidence_links db), contradictions := filter (\<lambda>x. c_org x = org) (contradictions db),
     snapshots := filter (\<lambda>x. cs_org x = org) (snapshots db), snapshot_facts := filter (\<lambda>x. sf_org x = org) (snapshot_facts db),
     decisions := filter (\<lambda>x. d_org x = org) (decisions db), decision_facts := filter (\<lambda>x. df_org x = org) (decision_facts db),
     agent_clients := filter (\<lambda>x. ac_org x = org) (agent_clients db)\<rparr>"

fun ledger_actor :: "ledger_op \<Rightarrow> uuid option" where
  "ledger_actor (Tenancy op) = tenancy_actor op"
| "ledger_actor (RegisterSource t ctx n st uri a) = Some (ctx_org ctx)"
| "ledger_actor (RecordVersion t ctx cmd) = Some (ctx_org ctx)"
| "ledger_actor (CaptureEvidence t ctx sid et ex ca uri md sc) = Some (ctx_org ctx)"
| "ledger_actor (AttachEvidence t ctx vid eid rel) = Some (ctx_org ctx)"
| "ledger_actor (CaptureContext eg pr ix t t' clock db0 db1 db2 ctx rq) = Some (ctx_org ctx)"
| "ledger_actor (RecordDecision t ctx cmd) = Some (ctx_org ctx)"
| "ledger_actor (Revoke t ctx fid reason vid) = Some (ctx_org ctx)"
| "ledger_actor (ResolveContradiction now ctx cid st n) = Some (ctx_org ctx)"
| "ledger_actor (ReviewEntity chain m t clock ctx et ext) = Some (ctx_org ctx)"

lemma filter_other: "(\<And>x. x \<in> set xs \<Longrightarrow> k x = org') \<Longrightarrow> org' \<noteq> org \<Longrightarrow> filter (\<lambda>x. k x = org) xs = []"
  by (auto simp: filter_empty_conv)

lemma filter_update_other:
  "(\<And>w. w \<in> set xs \<Longrightarrow> Q w \<Longrightarrow> \<not> P w \<and> \<not> P (g w)) \<Longrightarrow> filter P (map (\<lambda>w. if Q w then g w else w) xs) = filter P xs"
  by (induction xs) auto

lemma filter_via_other:
  assumes "filter (\<lambda>x. k x \<noteq> org') xs = filter (\<lambda>x. k x \<noteq> org') ys" and "org \<noteq> org'"
  shows "filter (\<lambda>x. k x = org) xs = filter (\<lambda>x. k x = org) ys"
proof -
  have "filter (\<lambda>x. k x = org) zs = filter (\<lambda>x. k x = org) (filter (\<lambda>x. k x \<noteq> org') zs)" for zs
    using assms(2) by (auto intro!: filter_cong)
  then show ?thesis using assms(1) by metis
qed

lemma tenancy_view:
  assumes st: "ledger_state_ok R db" and run: "tenancy_exec op db = Inr db'" and act: "tenancy_actor op \<noteq> Some org"
  shows "tenant_view org db' = tenant_view org db"
proof -
  obtain us os ms where db': "db' = db\<lparr>users := us, organizations := os, memberships := ms\<rparr>"
    by (rule that [OF tenancy_exec_tables [OF run]])
  have "tenancy_ok db" using st by (simp add: ledger_state_ok_def store_ok_def)
  then have "members_of db' org = members_of db org" by (rule tenancy_exec_frame [OF _ run act])
  moreover have "filter (\<lambda>x. o_id x = org) (organizations db') = filter (\<lambda>x. o_id x = org) (organizations db)"
  proof (cases op)
    case (ChangeRole t ctx uid r)
    then have "change_role t ctx uid r db = Inr db'" using run by simp
    then show ?thesis by (rule change_role_cases) (simp_all add: set_role_def)
  next
    case (RemoveMember ctx uid)
    then have "remove_member ctx uid db = Inr db'" using run by simp
    then show ?thesis by (rule remove_member_cases) (auto simp: delete_membership_def result_simps)
  qed (use run act in \<open>auto simp: register_user_def create_organization_def add_member_def insert_user_def insert_organization_def
      insert_membership_def Let_def result_simps\<close>)
  ultimately show ?thesis by (simp add: tenant_view_def members_of_def db')
qed

lemma record_version_view:
  assumes st: "ledger_state_ok R0 db" and run: "record_version R t ctx cmd db = Inr (v, db')" and org: "org \<noteq> ctx_org ctx"
  shows "tenant_view org db' = tenant_view org db"
proof -
  have inv: "ledger_inv db" by (rule ledger_state_ledger(2) [OF st])
  obtain ck s a e f db2 where inp: "append_inputs R ctx cmd ck s a f db2" and ap: "append_version t ctx cmd ck s a e f db2 = Inr (v, db')"
    and db2: "db2 = db\<lparr>entities := entities db2, facts := facts db2\<rparr>" and fv2: "fact_versions db2 = fact_versions db"
    and own: "filter (\<lambda>x. en_org x \<noteq> ctx_org ctx) (entities db2) = filter (\<lambda>x. en_org x \<noteq> ctx_org ctx) (entities db)"
      "filter (\<lambda>x. f_org x \<noteq> ctx_org ctx) (facts db2) = filter (\<lambda>x. f_org x \<noteq> ctx_org ctx) (facts db)"
    by (rule record_version_steps [OF inv run]) (rule that)
  obtain latest plan db1 cs ls where l: "latest = latest_version_row db2 (ctx_org ctx) (f_id f)"
    and v: "v = new_version t (ctx_org ctx) (f_id f) cmd ck s a latest plan"
    and db': "db' = db1\<lparr>fact_versions := fact_versions db1 @ [v], contradictions := contradictions db2 @ cs, evidence_links := evidence_links db2 @ ls\<rparr>"
    and db1: "db1 = planned_db latest plan (next_transaction_time t latest) db2"
    and cs: "\<forall>c \<in> set cs. contradiction_of latest v c \<and> c_org c = ctx_org ctx"
    and ls: "list_all (link_of_call ctx (fv_id v) SUPPORTS (cmd_evidence_ids cmd)) ls"
    by (rule append_version_Inr [OF inp ap]) (rule that)
  have mine: "fv_org w = ctx_org ctx" if "w \<in> set (fact_versions db)" "latest = Some x" "fv_id w = fv_id x" for w x
  proof -
    have "x \<in> set (versions_of db2 (ctx_org ctx) (f_id f))"
      using l that(2) by (auto simp: latest_version_row_def split: list.splits dest!: arg_cong [of "sort_key _ _" _ set])
    then have "x \<in> set (fact_versions db)" "fv_org x = ctx_org ctx" by (auto simp: versions_of_def fv2)
    then show ?thesis using distinct_map_eqD [OF ledger_distinct(1) [OF ledger_inv_ok [OF inv]] that(1)] that(3) by metis
  qed
  have "filter (\<lambda>w. fv_org w = org) (map (\<lambda>w. if fv_id w = fv_id x then close_row i r w else w) (fact_versions db)) =
      filter (\<lambda>w. fv_org w = org) (fact_versions db)" if "latest = Some x" for x i r
    by (rule filter_update_other) (use mine [OF _ that] org in \<open>auto simp: close_row_def\<close>)
  then have "filter (\<lambda>w. fv_org w = org) (fact_versions db1) = filter (\<lambda>w. fv_org w = org) (fact_versions db)"
    by (auto simp: db1 planned_db_def closed_db_def fv2 split: option.split)
  moreover have "fv_org v = ctx_org ctx" by (simp add: v new_version_def Let_def)
  moreover have "filter (\<lambda>c. c_org c = org) cs = []" "filter (\<lambda>l. fe_org l = org) ls = []"
    using cs ls org by (auto simp: filter_empty_conv list_all_iff link_of_call_def)
  moreover note filter_via_other [OF own(1) org] filter_via_other [OF own(2) org]
  moreover have "contradictions db2 = contradictions db" "evidence_links db2 = evidence_links db" by (subst db2, simp)+
  moreover have "entities db' = entities db2" "facts db' = facts db2" "fact_versions db' = fact_versions db1 @ [v]"
    "contradictions db' = contradictions db2 @ cs" "evidence_links db' = evidence_links db2 @ ls" by (simp_all add: db' db1)
  ultimately show ?thesis
    using org record_version_frame [OF inv run] by (intro db.equality) (simp_all add: tenant_view_def)
qed

text \<open>Rows of another tenant appended to a table do not show in a tenant's view, table by table.\<close>
lemma appended_view [simp]:
  "\<lbrakk>sources db = ys0; \<forall>x \<in> set xs0. s_org x \<noteq> org\<rbrakk> \<Longrightarrow> tenant_view org (db\<lparr>sources := ys0 @ xs0\<rparr>) = tenant_view org db"
  "\<lbrakk>evidence_rows db = ys1; \<forall>x \<in> set xs1. ev_org x \<noteq> org\<rbrakk> \<Longrightarrow> tenant_view org (db\<lparr>evidence_rows := ys1 @ xs1\<rparr>) = tenant_view org db"
  "\<lbrakk>evidence_links db = ys2; \<forall>x \<in> set xs2. fe_org x \<noteq> org\<rbrakk> \<Longrightarrow> tenant_view org (db\<lparr>evidence_links := ys2 @ xs2\<rparr>) = tenant_view org db"
  "\<lbrakk>snapshots db = ys3; \<forall>x \<in> set xs3. cs_org x \<noteq> org\<rbrakk> \<Longrightarrow> tenant_view org (db\<lparr>snapshots := ys3 @ xs3\<rparr>) = tenant_view org db"
  "\<lbrakk>snapshot_facts db = ys4; \<forall>x \<in> set xs4. sf_org x \<noteq> org\<rbrakk> \<Longrightarrow> tenant_view org (db\<lparr>snapshot_facts := ys4 @ xs4\<rparr>) = tenant_view org db"
  "\<lbrakk>decisions db = ys5; \<forall>x \<in> set xs5. d_org x \<noteq> org\<rbrakk> \<Longrightarrow> tenant_view org (db\<lparr>decisions := ys5 @ xs5\<rparr>) = tenant_view org db"
  "\<lbrakk>decision_facts db = ys6; \<forall>x \<in> set xs6. df_org x \<noteq> org\<rbrakk> \<Longrightarrow> tenant_view org (db\<lparr>decision_facts := ys6 @ xs6\<rparr>) = tenant_view org db"
  "\<lbrakk>revocations db = ys7; \<forall>x \<in> set xs7. rv_org x \<noteq> org\<rbrakk> \<Longrightarrow> tenant_view org (db\<lparr>revocations := ys7 @ xs7\<rparr>) = tenant_view org db"
  "\<lbrakk>impacts db = ys8; \<forall>x \<in> set xs8. ri_org x \<noteq> org\<rbrakk> \<Longrightarrow> tenant_view org (db\<lparr>impacts := ys8 @ xs8\<rparr>) = tenant_view org db"
  "\<lbrakk>contradictions db = ys9; \<forall>x \<in> set xs9. c_org x \<noteq> org\<rbrakk> \<Longrightarrow> tenant_view org (db\<lparr>contradictions := ys9 @ xs9\<rparr>) = tenant_view org db"
  by (intro db.equality; simp add: tenant_view_def filter_empty_conv)+

lemma capture_context_rows:
  assumes run: "capture_context R eg pr ix t t' clock db0 db1 db2 ctx rq db = Inr (c, db')"
  shows "\<exists>s fs. db' = db\<lparr>snapshots := snapshots db @ [s], snapshot_facts := snapshot_facts db @ fs\<rparr> \<and> cs_org s = ctx_org ctx \<and>
     (\<forall>x \<in> set fs. sf_org x = ctx_org ctx)"
proof -
  obtain s fs where add: "add_snapshot s fs db = Inr db'" "cs_id s = cc_snapshot_id c" "cs_org s = ctx_org ctx"
    and fs: "fs = map (\<lambda>(position, result). \<lparr>sf_org = ctx_org ctx, sf_snapshot_id = cs_id s,
           sf_fact_version_id = vs_id (rt_version result), sf_position = position,
           sf_ranking = ranking_object (rt_ranking result)\<rparr>) (enumerate 1 (rr_results (cc_retrieval c)))"
    by (rule capture_context_Inr [OF run]) (rule that)
  have "\<forall>x \<in> set fs. sf_org x = ctx_org ctx" by (auto simp: fs)
  then show ?thesis using add_snapshot_Inr(1) [OF add(1)] add(3) by blast
qed

lemma ledger_exec_frame:
  assumes st: "ledger_state_ok R db" and run: "ledger_exec R op db = Inr db'" and act: "ledger_actor op \<noteq> Some org"
  shows "tenant_view org db' = tenant_view org db"
proof (cases op)
  case (Tenancy op')
  then show ?thesis using tenancy_view [OF st, of op' db' org] run act by simp
next
  case (RegisterSource t ctx n ty uri a)
  then obtain s where "insert_source db s = Inr db'" "s_org s = ctx_org ctx" using run by (auto simp: register_source_def Let_def result_simps)
  then have "db' = db\<lparr>sources := sources db @ [s]\<rparr>" "s_org s \<noteq> org" using act RegisterSource by (auto simp: insert_source_def result_simps)
  then show ?thesis by simp
next
  case (RecordVersion t ctx cmd)
  then show ?thesis using record_version_view [OF st, of R t ctx cmd] run act by (auto simp: result_simps)
next
  case (CaptureEvidence t ctx sid et ex ca uri md sc)
  then obtain e r where cap: "capture e db = Inr (r, db')" "ev_org e \<noteq> org"
    using run act by (auto simp: capture_evidence_def Let_def result_simps)
  obtain e' created where "r = (e', created)" by (cases r)
  then have "db' = db \<or> db' = db\<lparr>evidence_rows := evidence_rows db @ [e]\<rparr>" using cap(1) by (auto elim!: capture_cases)
  then show ?thesis using cap(2) by auto
next
  case (AttachEvidence t ctx vid eid rel)
  then obtain n where "link_evidence t ctx vid [eid] rel db = Inr (n, db')" using run by (auto simp: attach_def result_simps)
  then obtain ls where "db' = db\<lparr>evidence_links := evidence_links db @ ls\<rparr>" "list_all (link_of_call ctx vid rel [eid]) ls"
    using link_evidence_Inr by blast
  then show ?thesis using act AttachEvidence
    by (auto simp: list_all_iff link_of_call_def)
next
  case (CaptureContext eg pr ix t t' clock db0 db1 db2 ctx rq)
  then obtain c where c: "capture_context R eg pr ix t t' clock db0 db1 db2 ctx rq db = Inr (c, db')" using run by (auto simp: result_simps)
  obtain s fs where "db' = db\<lparr>snapshots := snapshots db @ [s], snapshot_facts := snapshot_facts db @ fs\<rparr>" "cs_org s = ctx_org ctx"
    "\<forall>x \<in> set fs. sf_org x = ctx_org ctx" using capture_context_rows [OF c] by blast
  then show ?thesis using act CaptureContext by auto
next
  case (RecordDecision t ctx cmd)
  then obtain did where did: "store_decision R t ctx cmd db = Inr (did, db')" using run by (auto simp: result_simps)
  obtain d s relied where "get_snapshot db (ctx_org ctx) (rd_snapshot_id cmd) = Some s"
    and db': "db' = db\<lparr>decisions := decisions db @ [d], decision_facts := decision_facts db @
        map (\<lambda>v. \<lparr>df_org = ctx_org ctx, df_decision_id = did, df_snapshot_id = cs_id s, df_fact_version_id = v\<rparr>) relied\<rparr>" "d_org d = ctx_org ctx"
    by (rule store_decision_Inr [OF did]) (rule that)
  show ?thesis using act RecordDecision db'(2)
    by (auto simp: db'(1))
next
  case (Revoke t ctx fid reason vid)
  then obtain rep where rep: "revoke t ctx fid reason vid db = Inr (rep, db')" using run by (auto simp: result_simps)
  obtain v r where "v \<in> set (fact_versions db)"
    and db': "db' = db\<lparr>revocations := revocations db @ [r], impacts := impacts db @ impact_rows db (ctx_org ctx) (rv_id r) (fv_id v)\<rparr>"
    and r: "r = \<lparr>rv_id = t_ids t 0, rv_org = ctx_org ctx, rv_fact_version_id = fv_id v, rv_reason = strip reason,
         rv_revoked_by_user_id = ctx_user ctx, rv_agent_client_id = ctx_agent_client_id ctx, rv_revoked_at = t_now t\<rparr>"
    by (rule revoke_Inr [OF rep]) (rule that)
  have "\<forall>x \<in> set (impact_rows db (ctx_org ctx) (rv_id r) (fv_id v)). ri_org x = ctx_org ctx" by (auto simp: impact_rows_def)
  then show ?thesis using act Revoke by (simp add: db' r)
next
  case (ResolveContradiction now ctx cid s n)
  then obtain w where w: "resolve_contradiction now ctx cid s n db = Inr (w, db')" using run by (auto simp: result_simps)
  have "contradictions_ok db" "contradictions_scoped db" using st by (simp_all add: ledger_state_ok_def store_ok_def)
  then obtain cs where cs: "db' = db\<lparr>contradictions := cs\<rparr>" "filter (\<lambda>c. c_org c = org) cs = filter (\<lambda>c. c_org c = org) (contradictions db)"
    using resolve_contradiction_keeps(3) [OF ledger_state_ledger(1) [OF st] _ _ w] act ResolveContradiction by auto
  then show ?thesis by (intro db.equality) (simp_all add: tenant_view_def)
next
  case (ReviewEntity chain m t clock ctx et ext)
  then obtain r where r: "review_entity R chain m t clock db db ctx et ext db = Inr (r, db')" using run by (auto simp: result_simps)
  have c: "contradictions_ok db" "contradictions_scoped db" using st by (simp_all add: ledger_state_ok_def store_ok_def)
  note lok = ledger_state_ledger(1) [OF st]
  obtain cs where "db' = db\<lparr>contradictions := contradictions db @ cs\<rparr>" "\<forall>c \<in> set cs. c_org c = ctx_org ctx"
    using review_entity_keeps(3) [OF lok lok c audit_kept_rows [OF audit_kept_refl] r] by blast
  then show ?thesis using act ReviewEntity by auto
qed

interpretation ledger_scope: tenant_scoped "ledger_exec R" "ledger_state_ok R" ledger_actor tenant_view for R
  by unfold_locales (rule ledger_exec_frame)

section \<open>Properties\<close>

lemma ledger_state_empty: "ledger_state_ok R empty_db"
proof -
  have "store_ok empty_db" "decision_store_ok empty_db" "revocations_ok empty_db" by code_simp+
  moreover have "sealed R empty_db" "contradictions_scoped empty_db" by (simp_all add: sealed_def contradictions_scoped_def empty_db_def)
  ultimately show ?thesis by (simp add: ledger_state_ok_def)
qed


text \<open>
  C4. Tenants are isolated: starting from any well-formed state, any sequence of requests that act for other
  tenants, whatever identifiers they name, leaves every row of a tenant in every table exactly
  as it was, and adds none.
\<close>

theorem tenants_isolated:
  assumes "ledger_state_ok R db" and "\<forall>op \<in> set ops. ledger_actor op \<noteq> Some org"
  shows "tenant_view org (run_txns (ledger_exec R) ops db) = tenant_view org db"
  by (rule ledger_scope.run_other_tenants [OF assms])

lemma require_entity_kept:
  assumes ok: "ledger_ok db'" and kept: "audit_kept x db db'" and e: "require_entity db org etype ext = Inr e"
  shows "require_entity db' org etype ext = Inr e"
proof -
  obtain t u where n: "normalize_identifier etype ''entity_type'' = Inr t" "normalize_external_id ext = Inr u"
    and f: "find_entity db org t u = Some e" using e by (auto simp: require_entity_def result_simps)
  have "find (\<lambda>e. en_org e = org \<and> en_type e = t \<and> en_external_id e = u) (entities db) = Some e"
    using f by (simp add: find_entity_def)
  moreover obtain es where "entities db' = entities db @ es" using kept by (auto simp: audit_kept_def prefix_def)
  ultimately have "find_entity db' org t u = Some e" by (simp add: find_entity_def find_append)
  then show ?thesis using n by (simp add: require_entity_def)
qed

text \<open>
  C1. What was known stays known: the answer to what was true at any instant, as known at
  \<open>k\<close>, is the same after any sequence of requests that write after \<open>k\<close>, recordings and
  revocations included, for every reader still permitted.
\<close>

theorem as_known_answers_stable:
  assumes st: "ledger_state_ok R db" and later: "\<forall>op \<in> set ops. writes_after k op"
    and reader: "require_permission db ctx READ_FACTS = Inr r" "require_permission (run_txns (ledger_exec R) ops db) ctx READ_FACTS = Inr r'"
    and entity: "require_entity db (ctx_org ctx) etype ext = Inr e"
  shows "facts_at (run_txns (ledger_exec R) ops db) ctx clock' etype ext (Some (Aware t)) (Some (Aware k)) =
     facts_at db ctx clock etype ext (Some (Aware t)) (Some (Aware k))"
proof -
  let ?db' = "run_txns (ledger_exec R) ops db"
  have ok: "ledger_ok db" "ledger_ok ?db'"
    by (rule ledger_state_ledger(1) [OF st], rule ledger_state_ledger(1) [OF ledger.run_preserves [OF st]])
  have "require_entity ?db' (ctx_org ctx) etype ext = Inr e"
    by (rule require_entity_kept [OF ok(2) audit.run_rel [OF st] entity]) simp
  moreover have "reference_facts ?db' e t (Some k) = reference_facts db e t (Some k)"
    by (rule reference_facts_known [OF ok knowledge.run_rel [OF st later]])
  ultimately show ?thesis
    using facts_at_reference [OF ok(1), of ctx clock etype ext t "Some k"] facts_at_reference [OF ok(2), of ctx clock' etype ext t "Some k"]
      reader entity by simp
qed


text \<open>Revoking and recording leave the permissions alone.\<close>

lemma require_permission_cong:
  assumes "users db' = users db" "memberships db' = memberships db"
  shows "require_permission db' ctx p = require_permission db ctx p"
  unfolding require_permission_def active_membership_def get_membership_def get_user_def assms by (rule refl)

lemma revoke_permissions:
  "require_permission (commit (ledger_exec R (Revoke t ctx fid reason vid)) db) reader p = require_permission db reader p"
proof (cases "revoke t ctx fid reason vid db")
  case (Inr x)
  then obtain rep db' where run: "revoke t ctx fid reason vid db = Inr (rep, db')" by (cases x) auto
  obtain r "is" where "db' = db\<lparr>revocations := revocations db @ [r], impacts := impacts db @ is\<rparr>"
    using revoke_frame [OF run] by blast
  then have "require_permission db' reader p = require_permission db reader p" by (intro require_permission_cong) simp_all
  then show ?thesis by (simp add: commit_def run)
qed (simp add: commit_def)

lemma one_version_state: "ledger_state_ok toy_runtime one_version_db"
proof -
  have "decision_store_ok one_version_db" "revocations_ok one_version_db" by code_simp+
  moreover have "sealed toy_runtime one_version_db" "contradictions_scoped one_version_db"
    by (simp_all add: sealed_def contradictions_scoped_def sample_defs)
  ultimately show ?thesis using one_version_db_ok by (simp add: ledger_state_ok_def)
qed

text \<open>Witness: another tenant names the facts of the sample tenant.\<close>

theorem tenants_isolated_witness:
  "tenant_view 200 (run_txns (ledger_exec toy_runtime) [Revoke (sample_txn 830 60) (admin_ctx\<lparr>ctx_org := 400\<rparr>) 701 ''wrong'' None,
      RecordVersion (sample_txn 840 70) (admin_ctx\<lparr>ctx_org := 400\<rparr>) second_command] one_version_db) =
    tenant_view 200 one_version_db \<and> fact_versions (tenant_view 200 one_version_db) = [first_version]"
proof -
  have "\<forall>op \<in> set [Revoke (sample_txn 830 60) (admin_ctx\<lparr>ctx_org := 400\<rparr>) 701 ''wrong'' None,
      RecordVersion (sample_txn 840 70) (admin_ctx\<lparr>ctx_org := 400\<rparr>) second_command]. ledger_actor op \<noteq> Some 200"
    by simp
  note iso = tenants_isolated [OF one_version_state this]
  have "fact_versions (tenant_view 200 one_version_db) = [first_version]" by (simp add: tenant_view_def sample_defs)
  with iso show ?thesis by (rule conjI)
qed

text \<open>Witness: a new credit limit is recorded at 50 and the fact is revoked at 60; as known at 25 nothing changed.\<close>

theorem as_known_answers_stable_witness:
  "facts_at (run_txns (ledger_exec toy_runtime) [RecordVersion (sample_txn 800 50) admin_ctx second_command,
      Revoke (sample_txn 830 60) admin_ctx 701 ''wrong'' None] one_version_db) admin_ctx 90 ''customer'' ''customer-991''
      (Some (Aware 15)) (Some (Aware 25)) =
   facts_at one_version_db admin_ctx 90 ''customer'' ''customer-991'' (Some (Aware 15)) (Some (Aware 25))"
proof -
  let ?ops = "[RecordVersion (sample_txn 800 50) admin_ctx second_command, Revoke (sample_txn 830 60) admin_ctx 701 ''wrong'' None]"
  obtain v db' where run: "record_version toy_runtime (sample_txn 800 50) admin_ctx second_command one_version_db = Inr (v, db')"
    by (rule second_run_ok [unfolded second_run_def]) blast
  note frame = record_version_frame [OF ledger_state_ledger(2) [OF one_version_state] run]
  have "require_permission (run_txns (ledger_exec toy_runtime) ?ops one_version_db) admin_ctx READ_FACTS = require_permission db' admin_ctx READ_FACTS"
    by (simp add: commit_def [of "ledger_exec toy_runtime (RecordVersion _ _ _)"] run revoke_permissions del: ledger_exec.simps(8))
  also have "\<dots> = Inr ADMIN"
    using require_permission_cong [OF frame(8,7)] sample_reader by simp
  finally have reader: "require_permission (run_txns (ledger_exec toy_runtime) ?ops one_version_db) admin_ctx READ_FACTS = Inr ADMIN" .
  have later: "\<forall>op \<in> set ?ops. writes_after 25 op" by (simp add: sample_txn_def)
  obtain e where e: "require_entity one_version_db (ctx_org admin_ctx) ''customer'' ''customer-991'' = Inr e"
    by (rule that [of "hd (entities one_version_db)"]) code_simp
  show ?thesis by (rule as_known_answers_stable [OF one_version_state later sample_reader reader e])
qed


end
