(* ===== verification/Py_Dates.thy ===== *)
theory Py_Dates
  imports Py_Json
begin

text \<open>
  The text \<^verbatim>\<open>isoformat()\<close> prints for a UTC datetime determines the datetime: the proleptic
  Gregorian date of a day determines the day, and every field is printed at a fixed width.
\<close>

section \<open>The date of a day\<close>

text \<open>A day of a 400-year era has its year in the era and its day in the year, from March on.\<close>

lemma era_day_in_year:
  fixes doe :: int
  defines "yoe \<equiv> (doe - doe div 1460 + doe div 36524 - doe div 146096) div 365"
  assumes doe: "0 \<le> doe" "doe \<le> 146096"
  shows "0 \<le> yoe \<and> yoe \<le> 399 \<and> 0 \<le> doe - (365 * yoe + yoe div 4 - yoe div 100) \<and> doe - (365 * yoe + yoe div 4 - yoe div 100) \<le> 365"
proof (cases "doe = 146096")
  case True
  then show ?thesis by (simp add: yoe_def)
next
  case False
  define b where "b = doe div 36524"
  define e where "e = doe mod 36524"
  define a where "a = (24 * b + e) div 1460"
  define k where "k = (e - a) div 365"
  define r where "r = (e - a) mod 365"
  define j where "j = k div 4"
  have b: "0 \<le> b" "b \<le> 3" and e: "0 \<le> e" "e < 36524" and doe_be: "doe = 36524 * b + e"
    using doe False by (simp_all add: b_def e_def)
  have a: "1460 * a \<le> 24 * b + e" "24 * b + e < 1460 * a + 1460"
    unfolding a_def by linarith+
  have "doe div 146096 = 0" using doe False by simp
  moreover have "doe div 1460 = 25 * b + a"
  proof -
    have "doe = 1460 * (25 * b) + (24 * b + e)" by (simp add: doe_be)
    then show ?thesis unfolding a_def by simp
  qed
  moreover have "doe div 36524 = b" by (simp add: b_def)
  ultimately have "doe - doe div 1460 + doe div 36524 - doe div 146096 = 36500 * b + (e - a)" using doe_be by linarith
  then have "yoe = (36500 * b + (e - a)) div 365" unfolding yoe_def by (rule arg_cong)
  then have yoe: "yoe = 100 * b + k" unfolding k_def by simp
  have kr: "e - a = 365 * k + r" "0 \<le> r" "r < 365" unfolding k_def r_def by simp_all
  have j: "4 * j \<le> k" "k \<le> 4 * j + 3" unfolding j_def by linarith+
  have a0: "0 \<le> a" "a \<le> 25" using a b e by linarith+
  have ea: "0 \<le> e - a" using a a0 b e by linarith
  have k: "0 \<le> k" "k \<le> 99" using kr ea a b e a0 by linarith+
  have q: "yoe div 100 = b" "yoe div 4 = 25 * b + j"
    using k unfolding yoe j_def by (simp_all add: div_add1_eq)
  have doy: "doe - (365 * yoe + yoe div 4 - yoe div 100) = r + a - j"
    unfolding q by (simp add: yoe doe_be) (use kr in linarith)
  have "j \<le> a" "a \<le> j + 1" using a a0 b kr j k by linarith+
  then have "0 \<le> r + a - j \<and> r + a - j \<le> 365" using kr by linarith
  then show ?thesis unfolding doy using b k by (simp add: yoe)
qed

text \<open>The day of a date, counted from 1970-01-01.\<close>

definition days_from_civil :: "int \<times> int \<times> int \<Rightarrow> int" where
  "days_from_civil ymd = (let (y0, m, d) = ymd;
      y = (if m \<le> 2 then y0 - 1 else y0); era = y div 400; yoe = y mod 400;
      mp = (if m \<le> 2 then m + 9 else m - 3);
      doy = (153 * mp + 2) div 5 + d - 1; doe = 365 * yoe + yoe div 4 - yoe div 100 + doy in
     era * 146097 + doe - 719468)"

lemma civil_from_days_parts:
  obtains era yoe doy mp where "civil_from_days z = (yoe + era * 400 + (if 10 \<le> mp then 1 else 0), if mp < 10 then mp + 3 else mp - 9, doy - (153 * mp + 2) div 5 + 1)"
    and "z = era * 146097 + (365 * yoe + yoe div 4 - yoe div 100) + doy - 719468"
    and "0 \<le> yoe" "yoe \<le> 399" "0 \<le> doy" "doy \<le> 365" "mp = (5 * doy + 2) div 153"
proof -
  define era where "era = (z + 719468) div 146097"
  define doe where "doe = (z + 719468) mod 146097"
  define yoe where "yoe = (doe - doe div 1460 + doe div 36524 - doe div 146096) div 365"
  define doy where "doy = doe - (365 * yoe + yoe div 4 - yoe div 100)"
  define mp where "mp = (5 * doy + 2) div 153"
  have "0 \<le> doe" "doe \<le> 146096" unfolding doe_def by simp_all
  then have yd: "0 \<le> yoe" "yoe \<le> 399" "0 \<le> doy" "doy \<le> 365"
    using era_day_in_year [of doe] unfolding yoe_def doy_def by blast+
  then have "0 \<le> mp" "mp \<le> 11" unfolding mp_def by linarith+
  then have m2: "((if mp < 10 then mp + 3 else mp - 9) \<le> 2) = (10 \<le> mp)" by auto
  have "civil_from_days z = (yoe + era * 400 + (if (if mp < 10 then mp + 3 else mp - 9) \<le> 2 then 1 else 0),
      if mp < 10 then mp + 3 else mp - 9, doy - (153 * mp + 2) div 5 + 1)"
    unfolding civil_from_days_def Let_def era_def doe_def yoe_def doy_def mp_def by (rule refl)
  moreover have "z = era * 146097 + doe - 719468" unfolding era_def doe_def by simp
  then have "z = era * 146097 + (365 * yoe + yoe div 4 - yoe div 100) + doy - 719468" by (simp add: doy_def)
  ultimately show thesis using that [of yoe era mp doy] yd mp_def unfolding m2 by blast
qed

lemma days_from_civil_from_days: "days_from_civil (civil_from_days z) = z"
proof -
  obtain era yoe doy mp where civil: "civil_from_days z = (yoe + era * 400 + (if 10 \<le> mp then 1 else 0),
      if mp < 10 then mp + 3 else mp - 9, doy - (153 * mp + 2) div 5 + 1)"
    and z: "z = era * 146097 + (365 * yoe + yoe div 4 - yoe div 100) + doy - 719468"
    and r: "0 \<le> yoe" "yoe \<le> 399" "0 \<le> doy" "doy \<le> 365" "mp = (5 * doy + 2) div 153"
    by (rule civil_from_days_parts)
  have mp: "0 \<le> mp" "mp \<le> 11" using r by linarith+
  have era': "(yoe + era * 400) div 400 = era" "(yoe + era * 400) mod 400 = yoe" using r by simp_all
  show ?thesis
  proof (cases "mp < 10")
    case True
    then have "days_from_civil (civil_from_days z) = era * 146097 + (365 * yoe + yoe div 4 - yoe div 100 + doy) - 719468"
      using mp era' by (simp add: civil days_from_civil_def Let_def)
    then show ?thesis using z by linarith
  next
    case False
    then have "days_from_civil (civil_from_days z) = era * 146097 + (365 * yoe + yoe div 4 - yoe div 100 + doy) - 719468"
      using mp era' by (simp add: civil days_from_civil_def Let_def)
    then show ?thesis using z by linarith
  qed
qed

lemma civil_ranges:
  assumes "civil_from_days z = (y, m, d)"
  shows "0 \<le> m" "m < 100" "0 \<le> d" "d < 100"
    and "- 719162 \<le> z \<Longrightarrow> z < 2932897 \<Longrightarrow> 0 \<le> y \<and> y < 10000"
proof -
  obtain era yoe doy mp where civil: "civil_from_days z = (yoe + era * 400 + (if 10 \<le> mp then 1 else 0),
      if mp < 10 then mp + 3 else mp - 9, doy - (153 * mp + 2) div 5 + 1)"
    and z: "z = era * 146097 + (365 * yoe + yoe div 4 - yoe div 100) + doy - 719468"
    and r: "0 \<le> yoe" "yoe \<le> 399" "0 \<le> doy" "doy \<le> 365" "mp = (5 * doy + 2) div 153"
    by (rule civil_from_days_parts)
  have mp: "0 \<le> mp" "mp \<le> 11" using r by linarith+
  have ymd: "y = yoe + era * 400 + (if 10 \<le> mp then 1 else 0)" "m = (if mp < 10 then mp + 3 else mp - 9)" "d = doy - (153 * mp + 2) div 5 + 1"
    using assms civil by simp_all
  show "0 \<le> m" "m < 100" using mp by (auto simp: ymd)
  have "153 * mp \<le> 5 * doy + 2" "5 * doy + 2 < 153 * mp + 153" using r(5) by linarith+
  then show "0 \<le> d" "d < 100" unfolding ymd by linarith+
  assume "- 719162 \<le> z" "z < 2932897"
  then have era: "0 \<le> era" "era \<le> 24" using z r by linarith+
  have "yoe < 399 \<or> era < 24 \<or> mp < 10"
  proof (rule ccontr)
    assume "\<not> ?thesis"
    then have "yoe = 399" "era = 24" "10 \<le> mp" using r era by auto
    moreover have "306 \<le> doy" using \<open>10 \<le> mp\<close> r(5) by linarith
    ultimately show False using z \<open>z < 2932897\<close> by simp
  qed
  then show "0 \<le> y \<and> y < 10000" using r era by (auto simp: ymd)
qed

section \<open>Fixed-width numbers\<close>

lemma digits_value_append: "digits_value (xs @ ys) = foldl (\<lambda>n c. 10 * n + (code c - 48)) (digits_value xs) ys"
  by (simp add: digits_value_def)

lemma digits_value_zeros: "digits_value (replicate k CHR ''0'') = 0"
  by (induction k) (simp_all add: digits_value_def)

lemma zero_padded_value: "0 \<le> n \<Longrightarrow> digits_value (zero_padded w n) = nat n"
  using digits_value_nat_str [of "nat n"]
  by (simp add: zero_padded_def Let_def digits_value_append digits_value_zeros int_str_def) (simp add: digits_value_def)

lemma length_nat_str: "n < 10 ^ w \<Longrightarrow> 0 < w \<Longrightarrow> length (nat_str n) \<le> w"
proof (induction w arbitrary: n)
  case (Suc w)
  show ?case
  proof (cases "n < 10")
    case False
    then have "0 < w" using Suc(2) by (cases w) simp_all
    moreover have "n div 10 < 10 ^ w" using Suc(2) by (simp add: less_mult_imp_div_less mult.commute)
    ultimately have "length (nat_str (n div 10)) \<le> w" using Suc(1) by simp
    then show ?thesis using False by (subst nat_str.simps) simp
  qed (subst nat_str.simps, simp)
qed simp

lemma length_zero_padded:
  assumes "0 \<le> n" "n < 10 ^ w" "0 < w"
  shows "length (zero_padded w n) = w"
proof -
  have "nat n < 10 ^ w" using assms by (simp add: nat_less_iff)
  then have "length (nat_str (nat n)) \<le> w" using assms(3) by (rule length_nat_str)
  then show ?thesis using assms(1) by (simp add: zero_padded_def Let_def int_str_def)
qed

lemma zero_padded_inj: "zero_padded w m = zero_padded w n \<Longrightarrow> 0 \<le> m \<Longrightarrow> 0 \<le> n \<Longrightarrow> m = n"
  by (metis zero_padded_value eq_nat_nat_iff)

section \<open>The text of a datetime\<close>

text \<open>The datetimes Python has: years 1 to 9999.\<close>

definition datetime_range :: "instant \<Rightarrow> bool" where
  "datetime_range i \<longleftrightarrow> - 62135596800000000 \<le> i \<and> i < 253402300800000000"

text \<open>The fields of the printed text.\<close>

definition date_text :: "int \<times> int \<times> int \<Rightarrow> string" where
  "date_text ymd = (let (y, m, d) = ymd in zero_padded 4 y @ ''-'' @ zero_padded 2 m @ ''-'' @ zero_padded 2 d)"

definition clock_text :: "int \<Rightarrow> string" where
  "clock_text s = zero_padded 2 (s div 3600) @ '':'' @ zero_padded 2 (s div 60 mod 60) @ '':'' @ zero_padded 2 (s mod 60)"

definition micro_text :: "int \<Rightarrow> string" where
  "micro_text us = (if us = 0 then [] else ''.'' @ zero_padded 6 us)"

lemma iso_utc_fields:
  "iso_utc i = date_text (civil_from_days (i div 86400000000)) @ ''T'' @ clock_text (i mod 86400000000 div 1000000) @
     micro_text (i mod 86400000000 mod 1000000) @ ''+00:00''"
  by (simp add: iso_utc_def date_text_def clock_text_def micro_text_def Let_def case_prod_beta)

lemma date_text_fields:
  assumes "datetime_range i"
  obtains y m d where "civil_from_days (i div 86400000000) = (y, m, d)" "0 \<le> y" "0 \<le> m" "0 \<le> d"
    "length (zero_padded 4 y) = 4" "length (zero_padded 2 m) = 2" "length (zero_padded 2 d) = 2"
proof -
  obtain y m d where c: "civil_from_days (i div 86400000000) = (y, m, d)" by (cases "civil_from_days (i div 86400000000)")
  have "- 719162 \<le> i div 86400000000" "i div 86400000000 < 2932897" using assms unfolding datetime_range_def by linarith+
  then have "0 \<le> y" "y < 10000" "0 \<le> m" "m < 100" "0 \<le> d" "d < 100" using civil_ranges [OF c] by blast+
  then show thesis using that [OF c] by (simp add: length_zero_padded)
qed

lemma date_text_inj:
  assumes "datetime_range i" "datetime_range j"
    and "date_text (civil_from_days (i div 86400000000)) @ u = date_text (civil_from_days (j div 86400000000)) @ v"
  shows "i div 86400000000 = j div 86400000000 \<and> u = v"
proof -
  obtain y m d where i: "civil_from_days (i div 86400000000) = (y, m, d)" "0 \<le> y" "0 \<le> m" "0 \<le> d"
    "length (zero_padded 4 y) = 4" "length (zero_padded 2 m) = 2" "length (zero_padded 2 d) = 2" by (rule date_text_fields [OF assms(1)])
  obtain y' m' d' where j: "civil_from_days (j div 86400000000) = (y', m', d')" "0 \<le> y'" "0 \<le> m'" "0 \<le> d'"
    "length (zero_padded 4 y') = 4" "length (zero_padded 2 m') = 2" "length (zero_padded 2 d') = 2" by (rule date_text_fields [OF assms(2)])
  have "zero_padded 4 y = zero_padded 4 y'" "zero_padded 2 m = zero_padded 2 m'" "zero_padded 2 d = zero_padded 2 d'" and uv: "u = v"
    using assms(3) i j by (simp_all add: date_text_def)
  then have "civil_from_days (i div 86400000000) = civil_from_days (j div 86400000000)"
    using i j by (auto dest: zero_padded_inj)
  then show ?thesis using uv days_from_civil_from_days by metis
qed

lemma clock_text_inj:
  assumes "0 \<le> s" "s < 86400" "0 \<le> t" "t < 86400" and "clock_text s @ u = clock_text t @ v"
  shows "s = t \<and> u = v"
proof -
  have "0 \<le> s div 3600" "s div 3600 < 100" "0 \<le> t div 3600" "t div 3600 < 100" using assms by simp_all
  then have len: "length (zero_padded 2 (x div 3600)) = 2" if "x = s \<or> x = t" for x using that by (auto simp: length_zero_padded)
  have len60: "length (zero_padded 2 (x mod 60)) = 2" for x 
  proof (rule length_zero_padded)
    have "x mod 60 < 60" "(10::int) ^ 2 = 100" by simp_all
    then show "x mod 60 < 10 ^ 2" by linarith
  qed simp_all
  have z: "zero_padded 2 (s div 3600) = zero_padded 2 (t div 3600)" "zero_padded 2 (s div 60 mod 60) = zero_padded 2 (t div 60 mod 60)"
    "zero_padded 2 (s mod 60) = zero_padded 2 (t mod 60)" and uv: "u = v"
    using assms(5) len len60 by (simp_all add: clock_text_def)
  have "s div 3600 = t div 3600" by (rule zero_padded_inj [OF z(1)]) (use assms in \<open>simp_all add: pos_imp_zdiv_nonneg_iff\<close>)
  moreover have "s div 60 mod 60 = t div 60 mod 60" by (rule zero_padded_inj [OF z(2)]) simp_all
  moreover have "s mod 60 = t mod 60" by (rule zero_padded_inj [OF z(3)]) simp_all
  moreover have "x = 3600 * (x div 3600) + 60 * (x div 60 mod 60) + x mod 60" for x :: int
  proof -
    have "x div 3600 = x div 60 div 60" using zdiv_zmult2_eq [of 60 x 60] by simp
    then show ?thesis using mult_div_mod_eq [of 60 x] mult_div_mod_eq [of 60 "x div 60"] by linarith
  qed
  ultimately have "s = t" by metis
  then show ?thesis using uv by blast
qed

lemma micro_text_inj:
  assumes "0 \<le> s" "s < 1000000" "0 \<le> t" "t < 1000000" and "micro_text s @ ''+00:00'' = micro_text t @ ''+00:00''"
  shows "s = t"
  using assms by (auto simp: micro_text_def dest: zero_padded_inj split: if_splits)

lemma iso_utc_inj:
  assumes "datetime_range i" "datetime_range j" and "iso_utc i = iso_utc j"
  shows "i = j"
proof -
  have d: "i div 86400000000 = j div 86400000000" and rest: "''T'' @ clock_text (i mod 86400000000 div 1000000) @ micro_text (i mod 86400000000 mod 1000000) @ ''+00:00'' =
      ''T'' @ clock_text (j mod 86400000000 div 1000000) @ micro_text (j mod 86400000000 mod 1000000) @ ''+00:00''"
    using date_text_inj [OF assms(1,2)] assms(3) unfolding iso_utc_fields by blast+
  have r: "0 \<le> i mod 86400000000 div 1000000" "i mod 86400000000 div 1000000 < 86400" "0 \<le> j mod 86400000000 div 1000000" "j mod 86400000000 div 1000000 < 86400"
    by (simp_all add: pos_imp_zdiv_nonneg_iff)
  have s: "i mod 86400000000 div 1000000 = j mod 86400000000 div 1000000"
    and m: "micro_text (i mod 86400000000 mod 1000000) @ ''+00:00'' = micro_text (j mod 86400000000 mod 1000000) @ ''+00:00''"
    using clock_text_inj [OF r rest [unfolded append_Cons append_Nil list.inject, THEN conjunct2]] by blast+
  have "i mod 86400000000 mod 1000000 = j mod 86400000000 mod 1000000" by (rule micro_text_inj [OF _ _ _ _ m]) simp_all
  then have "i mod 86400000000 = j mod 86400000000" using s by (metis div_mult_mod_eq)
  then show ?thesis using d by (metis div_mult_mod_eq)
qed

end
