(* ===== verification/Receipt_Integrity.thy ===== *)
theory Receipt_Integrity
  imports Decisions Py_Dates
begin

text \<open>
  The hash of a decision receipt as evidence: two receipts that verify under the same hash
  show the same decision, context and facts. The receipt text is read back by the JSON
  reader, so the texts of different receipts differ; the hash function must not collide on
  the texts that were hashed.
\<close>

section \<open>Documents\<close>

lemma json_canon_dict_at:
  assumes "json_canon opts (PDict kvs) = json_canon opts (PDict kws)" and "distinct (map fst kvs)" "distinct (map fst kws)"
    and "(k, v) \<in> set kvs" "(k, w) \<in> set kws"
  shows "json_canon opts v = json_canon opts w"
proof -
  let ?f = "\<lambda>kv. (fst kv, json_canon opts (snd kv))"
  have "set (map ?f kvs) = set (map ?f kws)"
  proof (cases "sort_keys opts")
    case True
    then have "set (sort_key fst (map ?f kvs)) = set (sort_key fst (map ?f kws))" using assms(1) by simp
    then show ?thesis by simp
  qed (use assms(1) in simp)
  moreover have "(k, json_canon opts v) \<in> set (map ?f kvs)" using assms(4) by force
  ultimately have "(k, json_canon opts v) \<in> set (map ?f kws)" by simp
  then obtain w' where "(k, w') \<in> set kws" "json_canon opts w' = json_canon opts v" by auto
  then show ?thesis using assms(3,5) by (metis eq_key_imp_eq_value)
qed

lemma map_eq_transfer:
  assumes "map f xs = map g ys" and "\<And>x y. x \<in> set xs \<Longrightarrow> y \<in> set ys \<Longrightarrow> f x = g y \<Longrightarrow> h x = k y"
  shows "map h xs = map k ys"
  using assms by (induction xs arbitrary: ys) (auto simp: Cons_eq_map_conv)

lemma canonical_plain: "plain_seps canonical_opts"
  by (simp add: plain_seps_def canonical_opts_def)

lemma canonical_json_Inr: "canonical_json R v = Inr t \<longleftrightarrow> json_dumps canonical_opts (float_repr R) v = Some t"
  by (simp add: canonical_json_def result_simps)

lemma str_or_none_inj: "str_or_none x = str_or_none y \<longleftrightarrow> x = y"
  by (auto simp: str_or_none_def split: option.splits)

lemma json_canon_str_or_none [simp]: "json_canon opts (str_or_none x) = str_or_none x"
  by (simp add: str_or_none_def split: option.split)

lemma json_value_str_or_none [simp]: "json_value fr (str_or_none x)"
  by (simp add: str_or_none_def split: option.split)

lemma scope_str_inj: "scope_str p = scope_str q \<longleftrightarrow> p = q"
  by (cases p; cases q) simp_all

text \<open>What the columns of the receipt can hold: 128-bit ids, datetimes of Python's range, JSON values.\<close>

definition content_ok :: "runtime \<Rightarrow> receipt_content \<Rightarrow> bool" where
  "content_ok R c \<longleftrightarrow> ct_organization_id c < 2 ^ 128 \<and> ct_decision_id c < 2 ^ 128 \<and> ct_snapshot_id c < 2 ^ 128 \<and>
     ct_decided_by_user_id c < 2 ^ 128 \<and> (\<forall>f \<in> set (ct_facts c). fst f < 2 ^ 128) \<and> datetime_range (ct_decided_at c) \<and>
     datetime_range (ct_valid_at c) \<and> datetime_range (ct_known_at c) \<and> json_value (float_repr R) (ct_outcome c)"

text \<open>Everything the document says.\<close>

definition same_content :: "receipt_content \<Rightarrow> receipt_content \<Rightarrow> bool" where
  "same_content c c' \<longleftrightarrow> ct_organization_id c = ct_organization_id c' \<and> ct_decision_id c = ct_decision_id c' \<and>
     ct_snapshot_id c = ct_snapshot_id c' \<and> ct_decided_at c = ct_decided_at c' \<and> ct_decided_by_user_id c = ct_decided_by_user_id c' \<and>
     ct_agent c = ct_agent c' \<and> ct_action c = ct_action c' \<and> json_canon canonical_opts (ct_outcome c) = json_canon canonical_opts (ct_outcome c') \<and>
     ct_rationale c = ct_rationale c' \<and> ct_query c = ct_query c' \<and> ct_valid_at c = ct_valid_at c' \<and> ct_known_at c = ct_known_at c' \<and>
     ct_embedding_model c = ct_embedding_model c' \<and> ct_vector_search c = ct_vector_search c' \<and>
     set (ct_privacy_scopes c) = set (ct_privacy_scopes c') \<and>
     map (\<lambda>f. (f, fst f \<in> set (ct_relied_on c))) (sort_key (\<lambda>(_, position, _). position) (ct_facts c)) =
       map (\<lambda>f. (f, fst f \<in> set (ct_relied_on c'))) (sort_key (\<lambda>(_, position, _). position) (ct_facts c'))"

definition decision_part :: "receipt_content \<Rightarrow> (string \<times> pyval) list" where
  "decision_part c = [
        (''id'', PStr (uuid_str (ct_decision_id c))),
        (''decided_at'', PStr (iso_utc (ct_decided_at c))),
        (''decided_by_user_id'', PStr (uuid_str (ct_decided_by_user_id c))),
        (''agent'', str_or_none (ct_agent c)),
        (''action'', PStr (ct_action c)),
        (''outcome'', ct_outcome c),
        (''rationale'', str_or_none (ct_rationale c))]"

definition context_part :: "receipt_content \<Rightarrow> (string \<times> pyval) list" where
  "context_part c = [
        (''snapshot_id'', PStr (uuid_str (ct_snapshot_id c))),
        (''query'', PStr (ct_query c)),
        (''valid_at'', PStr (iso_utc (ct_valid_at c))),
        (''known_at'', PStr (iso_utc (ct_known_at c))),
        (''embedding_model'', PStr (ct_embedding_model c)),
        (''vector_search'', PStr (ct_vector_search c)),
        (''privacy_scopes'', PList (map PStr (sort (map scope_str (ct_privacy_scopes c)))))]"

definition fact_part :: "receipt_content \<Rightarrow> uuid \<times> nat \<times> string \<Rightarrow> (string \<times> pyval) list" where
  "fact_part c = (\<lambda>(version_id, position, digest). [
          (''fact_version_id'', PStr (uuid_str version_id)),
          (''position'', PInt (int position)),
          (''value_sha256'', PStr digest),
          (''relied_on'', PBool (version_id \<in> set (ct_relied_on c)))])"

definition document_part :: "receipt_content \<Rightarrow> (string \<times> pyval) list" where
  "document_part c = [
     (''schema'', PStr RECEIPT_SCHEMA),
     (''organization_id'', PStr (uuid_str (ct_organization_id c))),
     (''decision'', PDict (decision_part c)),
     (''context'', PDict (context_part c)),
     (''facts'', PList (map (\<lambda>f. PDict (fact_part c f)) (sort_key (\<lambda>(version_id, position, digest). position) (ct_facts c))))]"

lemma receipt_document_parts: "receipt_document c = PDict (document_part c)"
  by (simp add: receipt_document_def document_part_def decision_part_def context_part_def fact_part_def case_prod_beta)

lemma part_keys:
  "distinct (map fst (decision_part c))" "distinct (map fst (context_part c))" "distinct (map fst (fact_part c f))" "distinct (map fst (document_part c))"
  by (simp_all add: decision_part_def context_part_def fact_part_def document_part_def case_prod_beta)

lemma document_json_value:
  assumes "json_value (float_repr R) (ct_outcome c)"
  shows "json_value (float_repr R) (receipt_document c)"
proof -
  have "\<forall>kv \<in> set (decision_part c). json_value (float_repr R) (snd kv)" using assms by (simp add: decision_part_def)
  moreover have "\<forall>kv \<in> set (context_part c). json_value (float_repr R) (snd kv)" by (simp add: context_part_def)
  moreover have "\<forall>kv \<in> set (fact_part c f). json_value (float_repr R) (snd kv)" for f by (simp add: fact_part_def case_prod_beta)
  ultimately have "\<forall>kv \<in> set (document_part c). json_value (float_repr R) (snd kv)"
    using part_keys(1-3) by (simp add: document_part_def)
  then show ?thesis using part_keys(4) by (simp add: receipt_document_parts)
qed

lemmas dict_at = json_canon_dict_at [OF _ part_keys(1) part_keys(1)] json_canon_dict_at [OF _ part_keys(2) part_keys(2)]
  json_canon_dict_at [OF _ part_keys(3) part_keys(3)] json_canon_dict_at [OF _ part_keys(4) part_keys(4)]

lemma decision_part_same:
  assumes "json_canon opts (PDict (decision_part c)) = json_canon opts (PDict (decision_part c'))"
  shows "uuid_str (ct_decision_id c) = uuid_str (ct_decision_id c')" "iso_utc (ct_decided_at c) = iso_utc (ct_decided_at c')"
    "uuid_str (ct_decided_by_user_id c) = uuid_str (ct_decided_by_user_id c')" "ct_agent c = ct_agent c'" "ct_action c = ct_action c'"
    "json_canon opts (ct_outcome c) = json_canon opts (ct_outcome c')" "ct_rationale c = ct_rationale c'"
proof -
  note eq = dict_at(1) [OF assms]
  show "uuid_str (ct_decision_id c) = uuid_str (ct_decision_id c')" using eq [of "''id''"] by (simp add: decision_part_def)
  show "iso_utc (ct_decided_at c) = iso_utc (ct_decided_at c')" using eq [of "''decided_at''"] by (simp add: decision_part_def)
  show "uuid_str (ct_decided_by_user_id c) = uuid_str (ct_decided_by_user_id c')" using eq [of "''decided_by_user_id''"] by (simp add: decision_part_def)
  show "ct_agent c = ct_agent c'" using eq [of "''agent''"] by (simp add: decision_part_def str_or_none_inj)
  show "ct_action c = ct_action c'" using eq [of "''action''"] by (simp add: decision_part_def)
  show "json_canon opts (ct_outcome c) = json_canon opts (ct_outcome c')" using eq [of "''outcome''"] by (simp add: decision_part_def)
  show "ct_rationale c = ct_rationale c'" using eq [of "''rationale''"] by (simp add: decision_part_def str_or_none_inj)
qed

lemma context_part_same:
  assumes "json_canon opts (PDict (context_part c)) = json_canon opts (PDict (context_part c'))"
  shows "uuid_str (ct_snapshot_id c) = uuid_str (ct_snapshot_id c')" "ct_query c = ct_query c'" "iso_utc (ct_valid_at c) = iso_utc (ct_valid_at c')"
    "iso_utc (ct_known_at c) = iso_utc (ct_known_at c')" "ct_embedding_model c = ct_embedding_model c'" "ct_vector_search c = ct_vector_search c'"
    "set (ct_privacy_scopes c) = set (ct_privacy_scopes c')"
proof -
  note eq = dict_at(2) [OF assms]
  show "uuid_str (ct_snapshot_id c) = uuid_str (ct_snapshot_id c')" using eq [of "''snapshot_id''"] by (simp add: context_part_def)
  show "ct_query c = ct_query c'" using eq [of "''query''"] by (simp add: context_part_def)
  show "iso_utc (ct_valid_at c) = iso_utc (ct_valid_at c')" using eq [of "''valid_at''"] by (simp add: context_part_def)
  show "iso_utc (ct_known_at c) = iso_utc (ct_known_at c')" using eq [of "''known_at''"] by (simp add: context_part_def)
  show "ct_embedding_model c = ct_embedding_model c'" using eq [of "''embedding_model''"] by (simp add: context_part_def)
  show "ct_vector_search c = ct_vector_search c'" using eq [of "''vector_search''"] by (simp add: context_part_def)
  have "map PStr (sort (map scope_str (ct_privacy_scopes c))) = map PStr (sort (map scope_str (ct_privacy_scopes c')))"
    using eq [of "''privacy_scopes''"] by (simp add: context_part_def o_def)
  then have "sort (map scope_str (ct_privacy_scopes c)) = sort (map scope_str (ct_privacy_scopes c'))"
    by (rule map_injective) (simp add: inj_def)
  then have "set (sort (map scope_str (ct_privacy_scopes c))) = set (sort (map scope_str (ct_privacy_scopes c')))" by simp
  then have "scope_str ` set (ct_privacy_scopes c) = scope_str ` set (ct_privacy_scopes c')" by simp
  then show "set (ct_privacy_scopes c) = set (ct_privacy_scopes c')" by (simp add: inj_image_eq_iff inj_def scope_str_inj)
qed

lemma fact_part_same:
  assumes "json_canon opts (PDict (fact_part c f)) = json_canon opts (PDict (fact_part c' f'))" and "fst f < 2 ^ 128" "fst f' < 2 ^ 128"
  shows "f = f' \<and> (fst f \<in> set (ct_relied_on c)) = (fst f' \<in> set (ct_relied_on c'))"
proof -
  obtain v p d v' p' d' where f: "f = (v, p, d)" "f' = (v', p', d')" by (cases f; cases f')
  note eq = dict_at(3) [OF assms(1)]
  have "uuid_str v = uuid_str v'" using eq [of "''fact_version_id''"] by (simp add: fact_part_def f)
  then have "v = v'" using uuid_str_inj assms(2,3) f by simp
  moreover have "p = p'" using eq [of "''position''"] by (simp add: fact_part_def f)
  moreover have "d = d'" using eq [of "''value_sha256''"] by (simp add: fact_part_def f)
  moreover have "(v \<in> set (ct_relied_on c)) = (v' \<in> set (ct_relied_on c'))" using eq [of "''relied_on''"] by (simp add: fact_part_def f)
  ultimately show ?thesis by (simp add: f)
qed

lemma same_document:
  assumes eq: "json_canon opts (receipt_document c) = json_canon opts (receipt_document c')" and ok: "content_ok R c" "content_ok R c'"
    and opts: "opts = canonical_opts"
  shows "same_content c c'"
proof -
  note at = dict_at(4) [OF eq [unfolded receipt_document_parts]]
  have d: "json_canon opts (PDict (decision_part c)) = json_canon opts (PDict (decision_part c'))" using at [of "''decision''"] by (simp add: document_part_def)
  have x: "json_canon opts (PDict (context_part c)) = json_canon opts (PDict (context_part c'))" using at [of "''context''"] by (simp add: document_part_def)
  have org: "uuid_str (ct_organization_id c) = uuid_str (ct_organization_id c')" using at [of "''organization_id''"] by (simp add: document_part_def)
  let ?fs = "sort_key (\<lambda>(_, position, _). position) (ct_facts c)" and ?fs' = "sort_key (\<lambda>(_, position, _). position) (ct_facts c')"
  have fs: "map (\<lambda>f. json_canon opts (PDict (fact_part c f))) ?fs = map (\<lambda>f. json_canon opts (PDict (fact_part c' f))) ?fs'"
    using at [of "''facts''"] by (simp add: document_part_def o_def del: json_canon.simps(2))
  have "\<forall>f \<in> set ?fs. fst f < 2 ^ 128" "\<forall>f \<in> set ?fs'. fst f < 2 ^ 128" using ok by (simp_all add: content_ok_def)
  then have "map (\<lambda>f. (f, fst f \<in> set (ct_relied_on c))) ?fs = map (\<lambda>f. (f, fst f \<in> set (ct_relied_on c'))) ?fs'"
    using fact_part_same by (intro map_eq_transfer [OF fs]) blast
  then show ?thesis
    using decision_part_same [OF d] context_part_same [OF x] org ok uuid_str_inj iso_utc_inj
    unfolding same_content_def content_ok_def opts by blast
qed

section \<open>Receipts\<close>

text \<open>
  The texts hashed for the receipt of a decision, which are its document and the values of
  its facts, and the ranges of the columns they are printed from.
\<close>

definition texts_of :: "string result \<Rightarrow> string list" where
  "texts_of r = (case r of Inl _ \<Rightarrow> [] | Inr t \<Rightarrow> [t])"

definition receipt_texts :: "runtime \<Rightarrow> db \<Rightarrow> uuid \<Rightarrow> uuid \<Rightarrow> string list" where
  "receipt_texts R db org did = [t. d \<leftarrow> decisions db, s \<leftarrow> snapshots db, d_org d = org \<and> d_id d = did \<and> cs_org s = org \<and> cs_id s = d_snapshot_id d,
      t \<leftarrow> concat (map (\<lambda>row. texts_of (canonical_json R (fv_value (sw_version row)))) (snapshot_rows db org (cs_id s))) @
        texts_of (bindr (decision_content R d s (snapshot_rows db org (cs_id s)) (relied_on_rows db org did))
          (\<lambda>c. canonical_json R (receipt_document c)))]"

definition receipt_data_ok :: "runtime \<Rightarrow> db \<Rightarrow> uuid \<Rightarrow> bool" where
  "receipt_data_ok R db org \<longleftrightarrow> org < 2 ^ 128 \<and>
     (\<forall>d \<in> set (decisions db). d_id d < 2 ^ 128 \<and> d_org d < 2 ^ 128 \<and> d_decided_by_user_id d < 2 ^ 128 \<and> datetime_range (d_decided_at d) \<and>
        json_value (float_repr R) (d_outcome d)) \<and>
     (\<forall>s \<in> set (snapshots db). cs_id s < 2 ^ 128 \<and> datetime_range (cs_valid_at s) \<and> datetime_range (cs_known_at s)) \<and>
     (\<forall>v \<in> set (fact_versions db). fv_id v < 2 ^ 128 \<and> json_value (float_repr R) (fv_value v))"

lemma receipt_contents:
  assumes "receipt R db ctx did = Inr r" and "dr_integrity_verified r"
  obtains d s c where "d \<in> set (decisions db)" "d_org d = ctx_org ctx" "d_id d = did" "s \<in> set (snapshots db)" "cs_org s = ctx_org ctx" "cs_id s = d_snapshot_id d"
    and "decision_content R d s (snapshot_rows db (ctx_org ctx) (cs_id s)) (relied_on_rows db (ctx_org ctx) did) = Inr c"
    and "receipt_hash R c = Inr (dr_receipt_sha256 r)"
    and "dr_decision_id r = d_id d" "dr_organization_id r = d_org d" "dr_action r = d_action d" "dr_outcome r = d_outcome d"
      "dr_rationale r = d_rationale d" "dr_agent r = d_agent d" "dr_decided_by_user_id r = d_decided_by_user_id d" "dr_decided_at r = d_decided_at d"
    and "rcx_snapshot_id (dr_context r) = cs_id s" "rcx_query (dr_context r) = cs_query s" "rcx_valid_at (dr_context r) = cs_valid_at s"
      "rcx_known_at (dr_context r) = cs_known_at s" "rcx_embedding_model (dr_context r) = cs_embedding_model s"
      "rcx_vector_search (dr_context r) = cs_vector_search s" "rcx_privacy_scopes (dr_context r) = cs_privacy_scopes s"
    and "map (\<lambda>x. (rx_fact_version_id x, rx_position x, rx_relied_on x)) (dr_facts r) =
      map (\<lambda>row. (fv_id (sw_version row), sf_position (sw_snapshot_fact row), fv_id (sw_version row) \<in> set (relied_on_rows db (ctx_org ctx) did)))
        (snapshot_rows db (ctx_org ctx) (cs_id s))"
proof -
  obtain role d s h where d: "get_decision db (ctx_org ctx) did = Some d" and s: "get_snapshot db (ctx_org ctx) (d_snapshot_id d) = Some s"
    and h: "decision_seal R d s (snapshot_rows db (ctx_org ctx) (cs_id s)) (relied_on_rows db (ctx_org ctx) (d_id d)) = Inr h"
    and r: "r = \<lparr>dr_decision_id = d_id d, dr_organization_id = d_org d, dr_action = d_action d, dr_outcome = d_outcome d,
       dr_rationale = d_rationale d, dr_agent = d_agent d, dr_decided_by_user_id = d_decided_by_user_id d,
       dr_decided_at = d_decided_at d,
       dr_context = \<lparr>rcx_snapshot_id = cs_id s, rcx_query = cs_query s, rcx_valid_at = cs_valid_at s, rcx_known_at = cs_known_at s,
         rcx_embedding_model = cs_embedding_model s, rcx_vector_search = cs_vector_search s,
         rcx_privacy_scopes = cs_privacy_scopes s, rcx_parameters = cs_parameters s,
         rcx_captured_by_user_id = cs_captured_by_user_id s\<rparr>,
       dr_facts = map (receipt_fact_of db (ctx_org ctx) (visible_privacy_scopes role [ctx_max_privacy_scope ctx]) (cs_known_at s)
          (relied_on_rows db (ctx_org ctx) (d_id d))
          (revocation_times db (ctx_org ctx) (map (\<lambda>r. fv_id (sw_version r)) (snapshot_rows db (ctx_org ctx) (cs_id s)))))
          (snapshot_rows db (ctx_org ctx) (cs_id s)),
       dr_receipt_sha256 = d_receipt_sha256 d, dr_integrity_verified = (h = d_receipt_sha256 d)\<rparr>"
    using assms(1) by (auto simp: receipt_def Let_def result_simps)
  obtain c where c: "decision_content R d s (snapshot_rows db (ctx_org ctx) (cs_id s)) (relied_on_rows db (ctx_org ctx) (d_id d)) = Inr c" "receipt_hash R c = Inr h"
    using h by (auto simp: decision_seal_def result_simps)
  have hd: "h = d_receipt_sha256 d" using assms(2) r by simp
  note dD = get_decision_SomeD [OF d] and sD = get_snapshot_SomeD [OF s]
  show thesis
    by (rule that [of d s c]) (use dD sD c hd in \<open>simp_all add: r receipt_fact_of_def redacted_fact_def Let_def\<close>)
qed

lemma snapshot_row_version: "row \<in> set (snapshot_rows db org sid) \<Longrightarrow> sw_version row \<in> set (fact_versions db)"
  by (auto simp: snapshot_rows_def split: if_splits)

lemma fact_digest_Inr:
  "fact_digest R row = Inr x \<longleftrightarrow> (\<exists>t. canonical_json R (fv_value (sw_version row)) = Inr t \<and>
     x = (fv_id (sw_version row), sf_position (sw_snapshot_fact row), sha256 R t))"
  by (auto simp: fact_digest_def value_sha256_def result_simps)

lemma mapr_list_all2: "mapr f xs = Inr ys \<longleftrightarrow> list_all2 (\<lambda>x y. f x = Inr y) xs ys"
  by (induction xs arbitrary: ys) (auto simp: list_all2_Cons1 result_simps)

lemma content_digests:
  assumes "decision_content R d s rows relied = Inr c"
  shows "list_all2 (\<lambda>row x. fact_digest R row = Inr x) rows (ct_facts c)"
  using assms by (auto simp: decision_content_def result_simps mapr_list_all2)

lemma digests_sorted:
  assumes "list_all2 (\<lambda>row x. fact_digest R row = Inr x) rows fs" and "sorted (map (\<lambda>row. sf_position (sw_snapshot_fact row)) rows)"
  shows "sort_key (\<lambda>(_, position, _). position) fs = fs"
proof -
  have "map (\<lambda>(_, position, _). position) fs = map (\<lambda>row. sf_position (sw_snapshot_fact row)) rows"
    using assms(1) by (induction rule: list_all2_induct) (auto simp: fact_digest_Inr)
  then have "sorted (map (\<lambda>(_, position, _). position) fs)" using assms(2) by simp
  then show ?thesis by (rule sort_key_id_if_sorted)
qed

lemma snapshot_rows_sorted: "sorted (map (\<lambda>row. sf_position (sw_snapshot_fact row)) (snapshot_rows db org sid))"
  unfolding snapshot_rows_def by (rule sorted_sort_key)

text \<open>Two receipts say the same.\<close>

definition same_receipt :: "decision_receipt \<Rightarrow> decision_receipt \<Rightarrow> bool" where
  "same_receipt r r' \<longleftrightarrow> dr_organization_id r = dr_organization_id r' \<and> dr_decision_id r = dr_decision_id r' \<and> dr_action r = dr_action r' \<and>
     json_canon canonical_opts (dr_outcome r) = json_canon canonical_opts (dr_outcome r') \<and> dr_rationale r = dr_rationale r' \<and>
     dr_agent r = dr_agent r' \<and> dr_decided_by_user_id r = dr_decided_by_user_id r' \<and> dr_decided_at r = dr_decided_at r' \<and>
     rcx_snapshot_id (dr_context r) = rcx_snapshot_id (dr_context r') \<and> rcx_query (dr_context r) = rcx_query (dr_context r') \<and>
     rcx_valid_at (dr_context r) = rcx_valid_at (dr_context r') \<and> rcx_known_at (dr_context r) = rcx_known_at (dr_context r') \<and>
     rcx_embedding_model (dr_context r) = rcx_embedding_model (dr_context r') \<and> rcx_vector_search (dr_context r) = rcx_vector_search (dr_context r') \<and>
     set (rcx_privacy_scopes (dr_context r)) = set (rcx_privacy_scopes (dr_context r')) \<and>
     map (\<lambda>x. (rx_fact_version_id x, rx_position x, rx_relied_on x)) (dr_facts r) =
       map (\<lambda>x. (rx_fact_version_id x, rx_position x, rx_relied_on x)) (dr_facts r')"

definition receipt_values :: "db \<Rightarrow> decision_receipt \<Rightarrow> pyval list" where
  "receipt_values db r = map (\<lambda>row. json_canon canonical_opts (fv_value (sw_version row)))
     (snapshot_rows db (dr_organization_id r) (rcx_snapshot_id (dr_context r)))"

lemma facts_of_digests:
  assumes "list_all2 (\<lambda>row x. fact_digest R row = Inr x) rows fs"
  shows "map (\<lambda>row. (fv_id (sw_version row), sf_position (sw_snapshot_fact row), fv_id (sw_version row) \<in> A)) rows =
     map (\<lambda>(f, b). (fst f, fst (snd f), b)) (map (\<lambda>f. (f, fst f \<in> A)) fs)"
  using assms by (induction rule: list_all2_induct) (auto simp: fact_digest_Inr)

lemma values_of_digests:
  assumes "list_all2 (\<lambda>row x. fact_digest R row = Inr x) rows fs" "list_all2 (\<lambda>row x. fact_digest R row = Inr x) rows' fs"
    and "\<forall>row \<in> set rows \<union> set rows'. json_value (float_repr R) (fv_value (sw_version row))"
    and "inj_on (sha256 R) {t. \<exists>row \<in> set rows \<union> set rows'. canonical_json R (fv_value (sw_version row)) = Inr t}"
  shows "map (\<lambda>row. json_canon canonical_opts (fv_value (sw_version row))) rows = map (\<lambda>row. json_canon canonical_opts (fv_value (sw_version row))) rows'"
proof (rule nth_equalityI)
  show len: "length (map (\<lambda>row. json_canon canonical_opts (fv_value (sw_version row))) rows) = length (map (\<lambda>row. json_canon canonical_opts (fv_value (sw_version row))) rows')"
    using assms(1,2) by (simp add: list_all2_conv_all_nth)
  fix i assume "i < length (map (\<lambda>row. json_canon canonical_opts (fv_value (sw_version row))) rows)"
  then have i: "i < length rows" "i < length rows'" using len by simp_all
  let ?v = "fv_value (sw_version (rows ! i))" and ?w = "fv_value (sw_version (rows' ! i))"
  have mem: "rows ! i \<in> set rows" "rows' ! i \<in> set rows'" using i by simp_all
  obtain t where t: "canonical_json R ?v = Inr t" "snd (snd (fs ! i)) = sha256 R t" using assms(1) i(1) by (auto simp: list_all2_conv_all_nth fact_digest_Inr)
  obtain u where u: "canonical_json R ?w = Inr u" "snd (snd (fs ! i)) = sha256 R u" using assms(2) i(2) by (auto simp: list_all2_conv_all_nth fact_digest_Inr)
  have "t = u" by (rule inj_onD [OF assms(4)]) (use t u mem in auto)
  then have "json_canon canonical_opts ?v = json_canon canonical_opts ?w"
    using dumps_inj [OF canonical_plain, of "float_repr R" ?v ?w t] t(1) u(1) assms(3) mem by (simp add: canonical_json_Inr)
  then show "map (\<lambda>row. json_canon canonical_opts (fv_value (sw_version row))) rows ! i = map (\<lambda>row. json_canon canonical_opts (fv_value (sw_version row))) rows' ! i"
    using i by simp
qed

lemma receipt_texts_in:
  assumes "d \<in> set (decisions db)" "d_org d = org" "d_id d = did" "s \<in> set (snapshots db)" "cs_org s = org" "cs_id s = d_snapshot_id d"
    and "decision_content R d s (snapshot_rows db org (cs_id s)) (relied_on_rows db org did) = Inr c"
  shows "canonical_json R (receipt_document c) = Inr t \<Longrightarrow> t \<in> set (receipt_texts R db org did)"
    and "row \<in> set (snapshot_rows db org (cs_id s)) \<Longrightarrow> canonical_json R (fv_value (sw_version row)) = Inr t \<Longrightarrow> t \<in> set (receipt_texts R db org did)"
proof -
  have sub: "set (concat (map (\<lambda>row. texts_of (canonical_json R (fv_value (sw_version row)))) (snapshot_rows db org (cs_id s))) @
        texts_of (bindr (decision_content R d s (snapshot_rows db org (cs_id s)) (relied_on_rows db org did))
          (\<lambda>c. canonical_json R (receipt_document c)))) \<subseteq> set (receipt_texts R db org did)"
    unfolding receipt_texts_def using assms(1-6) by force
  show "t \<in> set (receipt_texts R db org did)" if "canonical_json R (receipt_document c) = Inr t"
    using subsetD [OF sub, of t] that assms(7) by (simp add: texts_of_def)
  show "t \<in> set (receipt_texts R db org did)" if "row \<in> set (snapshot_rows db org (cs_id s))" "canonical_json R (fv_value (sw_version row)) = Inr t"
    using subsetD [OF sub, of t] that by (simp add: texts_of_def) metis
qed

lemma content_ok_of_data:
  assumes "receipt_data_ok R db org" and "d \<in> set (decisions db)" "s \<in> set (snapshots db)"
    and "decision_content R d s (snapshot_rows db org (cs_id s)) relied = Inr c"
  shows "content_ok R c"
proof -
  have fs: "ct_organization_id c = d_org d" "ct_decision_id c = d_id d" "ct_snapshot_id c = cs_id s" "ct_decided_by_user_id c = d_decided_by_user_id d"
    "ct_decided_at c = d_decided_at d" "ct_valid_at c = cs_valid_at s" "ct_known_at c = cs_known_at s" "ct_outcome c = d_outcome d"
    using assms(4) by (auto simp: decision_content_def result_simps)
  have "\<forall>f \<in> set (ct_facts c). fst f < 2 ^ 128"
  proof
    fix f assume "f \<in> set (ct_facts c)"
    then obtain i where i: "i < length (ct_facts c)" "f = ct_facts c ! i" by (auto simp: in_set_conv_nth)
    note dig = content_digests [OF assms(4)]
    have "snapshot_rows db org (cs_id s) ! i \<in> set (snapshot_rows db org (cs_id s))" using i(1) list_all2_lengthD [OF dig] by simp
    moreover have "fact_digest R (snapshot_rows db org (cs_id s) ! i) = Inr f" using list_all2_nthD2 [OF dig i(1)] i(2) by simp
    ultimately obtain row where "row \<in> set (snapshot_rows db org (cs_id s))" "fact_digest R row = Inr f" by blast
    then show "fst f < 2 ^ 128" using snapshot_row_version assms(1) by (fastforce simp: receipt_data_ok_def fact_digest_Inr)
  qed
  then show ?thesis unfolding content_ok_def fs using assms(1-3) by (simp add: receipt_data_ok_def)
qed

text \<open>The receipt shows the content.\<close>

definition shows_content :: "decision_receipt \<Rightarrow> receipt_content \<Rightarrow> bool" where
  "shows_content r c \<longleftrightarrow> dr_organization_id r = ct_organization_id c \<and> dr_decision_id r = ct_decision_id c \<and> dr_action r = ct_action c \<and>
     dr_outcome r = ct_outcome c \<and> dr_rationale r = ct_rationale c \<and> dr_agent r = ct_agent c \<and>
     dr_decided_by_user_id r = ct_decided_by_user_id c \<and> dr_decided_at r = ct_decided_at c \<and>
     rcx_snapshot_id (dr_context r) = ct_snapshot_id c \<and> rcx_query (dr_context r) = ct_query c \<and>
     rcx_valid_at (dr_context r) = ct_valid_at c \<and> rcx_known_at (dr_context r) = ct_known_at c \<and>
     rcx_embedding_model (dr_context r) = ct_embedding_model c \<and> rcx_vector_search (dr_context r) = ct_vector_search c \<and>
     rcx_privacy_scopes (dr_context r) = ct_privacy_scopes c \<and>
     map (\<lambda>x. (rx_fact_version_id x, rx_position x, rx_relied_on x)) (dr_facts r) =
       map (\<lambda>(f, b). (fst f, fst (snd f), b)) (map (\<lambda>f. (f, fst f \<in> set (ct_relied_on c))) (sort_key (\<lambda>(_, position, _). position) (ct_facts c)))"

lemma same_content_receipts: "same_content c c' \<Longrightarrow> shows_content r c \<Longrightarrow> shows_content r' c' \<Longrightarrow> same_receipt r r'"
  unfolding same_content_def shows_content_def same_receipt_def by simp

lemma verified_receipt:
  assumes r: "receipt R db ctx did = Inr r" "dr_integrity_verified r" and data: "receipt_data_ok R db (ctx_org ctx)"
  obtains rows c t where "rows = snapshot_rows db (dr_organization_id r) (rcx_snapshot_id (dr_context r))"
    and "list_all2 (\<lambda>row x. fact_digest R row = Inr x) rows (ct_facts c)"
    and "sort_key (\<lambda>(_, position, _). position) (ct_facts c) = ct_facts c"
    and "canonical_json R (receipt_document c) = Inr t" "sha256 R t = dr_receipt_sha256 r" "t \<in> set (receipt_texts R db (ctx_org ctx) did)"
    and "\<forall>row \<in> set rows. json_value (float_repr R) (fv_value (sw_version row))"
    and "{t. \<exists>row \<in> set rows. canonical_json R (fv_value (sw_version row)) = Inr t} \<subseteq> set (receipt_texts R db (ctx_org ctx) did)"
    and "content_ok R c" "shows_content r c"
proof (rule receipt_contents [OF r])
  fix d s c
  assume d: "d \<in> set (decisions db)" "d_org d = ctx_org ctx" "d_id d = did" "s \<in> set (snapshots db)" "cs_org s = ctx_org ctx" "cs_id s = d_snapshot_id d"
    and c: "decision_content R d s (snapshot_rows db (ctx_org ctx) (cs_id s)) (relied_on_rows db (ctx_org ctx) did) = Inr c"
    and h: "receipt_hash R c = Inr (dr_receipt_sha256 r)"
    and f: "dr_decision_id r = d_id d" "dr_organization_id r = d_org d" "dr_action r = d_action d" "dr_outcome r = d_outcome d"
      "dr_rationale r = d_rationale d" "dr_agent r = d_agent d" "dr_decided_by_user_id r = d_decided_by_user_id d" "dr_decided_at r = d_decided_at d"
      "rcx_snapshot_id (dr_context r) = cs_id s" "rcx_query (dr_context r) = cs_query s" "rcx_valid_at (dr_context r) = cs_valid_at s"
      "rcx_known_at (dr_context r) = cs_known_at s" "rcx_embedding_model (dr_context r) = cs_embedding_model s"
      "rcx_vector_search (dr_context r) = cs_vector_search s" "rcx_privacy_scopes (dr_context r) = cs_privacy_scopes s"
    and fs: "map (\<lambda>x. (rx_fact_version_id x, rx_position x, rx_relied_on x)) (dr_facts r) =
      map (\<lambda>row. (fv_id (sw_version row), sf_position (sw_snapshot_fact row), fv_id (sw_version row) \<in> set (relied_on_rows db (ctx_org ctx) did)))
        (snapshot_rows db (ctx_org ctx) (cs_id s))"
  let ?rows = "snapshot_rows db (ctx_org ctx) (cs_id s)"
  obtain t where t: "canonical_json R (receipt_document c) = Inr t" "sha256 R t = dr_receipt_sha256 r"
    using h by (auto simp: receipt_hash_def result_simps)
  note dig = content_digests [OF c] and texts = receipt_texts_in [OF d c]
  have sorted: "sort_key (\<lambda>(_, position, _). position) (ct_facts c) = ct_facts c" by (rule digests_sorted [OF dig snapshot_rows_sorted])
  have "ct_relied_on c = relied_on_rows db (ctx_org ctx) did" using c by (auto simp: decision_content_def result_simps)
  then have "shows_content r c"
    using c facts_of_digests [OF dig, of "set (ct_relied_on c)"] unfolding shows_content_def sorted f fs
    by (auto simp: decision_content_def result_simps)
  moreover have "?rows = snapshot_rows db (dr_organization_id r) (rcx_snapshot_id (dr_context r))" by (simp add: f d(2))
  moreover have "\<forall>row \<in> set ?rows. json_value (float_repr R) (fv_value (sw_version row))"
    using data snapshot_row_version by (fastforce simp: receipt_data_ok_def)
  moreover have "{t. \<exists>row \<in> set ?rows. canonical_json R (fv_value (sw_version row)) = Inr t} \<subseteq> set (receipt_texts R db (ctx_org ctx) did)"
    using texts(2) by blast
  ultimately show thesis
    using that [of ?rows c t] dig sorted t texts(1) [OF t(1)] content_ok_of_data [OF data d(1,4) c] by blast
qed

section \<open>Properties\<close>


text \<open>Witness: the sample decision, sealed with a hash function that is injective.\<close>

definition plain_runtime :: runtime where
  "plain_runtime = toy_runtime\<lparr>sha256 := (\<lambda>s. s)\<rparr>"

definition evident_decision :: "string \<Rightarrow> decision" where
  "evident_decision h = \<lparr>d_id = 820, d_org = 200, d_snapshot_id = 810, d_decided_by_user_id = 100, d_agent = None,
     d_action = ''credit.approve'', d_outcome = PBool True, d_rationale = None, d_decided_at = 40, d_receipt_sha256 = h\<rparr>"

lemma evident_receipt:
  obtains db r where "receipt plain_runtime db admin_ctx 820 = Inr r" "dr_integrity_verified r" "receipt_data_ok plain_runtime db 200"
    "receipt_values db r = [PInt 5000]"
proof -
  let ?rows = "snapshot_rows snapshot_db 200 810"
  have rows: "map (\<lambda>r. fv_value (sw_version r)) ?rows = [PInt 5000]" by code_simp
  have "\<exists>c. decision_content plain_runtime (evident_decision []) sample_snapshot ?rows [] = Inr c \<and> ct_outcome c = PBool True"
    using rows by (auto simp: decision_content_def fact_digest_def value_sha256_def canonical_json_def evident_decision_def)
  then obtain c where c: "decision_content plain_runtime (evident_decision []) sample_snapshot ?rows [] = Inr c" "ct_outcome c = PBool True" by blast
  then obtain h where h: "decision_seal plain_runtime (evident_decision []) sample_snapshot ?rows [] = Inr h"
    using receipt_hash_total [of plain_runtime c] by (auto simp: decision_seal_def)
  let ?db = "snapshot_db\<lparr>decisions := [evident_decision h]\<rparr>"
  have "require_permission ?db admin_ctx READ_DECISIONS = require_permission one_version_db admin_ctx READ_DECISIONS"
    by (simp add: require_permission_def active_membership_def get_membership_def get_user_def snapshot_db_def)
  also have "\<dots> = Inr ADMIN" by code_simp
  finally have perm: "require_permission ?db admin_ctx READ_DECISIONS = Inr ADMIN" .
  have same: "snapshot_rows ?db 200 810 = ?rows" by (rule snapshot_rows_cong) simp_all
  have seal: "decision_seal plain_runtime (evident_decision h) sample_snapshot ?rows [] = Inr h"
    using h by (simp add: decision_seal_def decision_content_def evident_decision_def)
  have get: "get_decision ?db 200 820 = Some (evident_decision h)" "get_snapshot ?db 200 (d_snapshot_id (evident_decision h)) = Some sample_snapshot"
    "relied_on_rows ?db 200 820 = []" "cs_id sample_snapshot = 810" "d_id (evident_decision h) = 820" "ctx_org admin_ctx = 200" "d_org (evident_decision h) = 200"
    by (simp_all add: get_decision_def evident_decision_def get_snapshot_def snapshot_db_def sample_snapshot_def relied_on_rows_def sample_defs admin_ctx_def)
  obtain r where r: "receipt plain_runtime ?db admin_ctx 820 = Inr r" "dr_integrity_verified r" "dr_organization_id r = 200" "rcx_snapshot_id (dr_context r) = 810"
    using perm get seal same by (simp add: receipt_def Let_def evident_decision_def)
  moreover have "receipt_values ?db r = [PInt 5000]"
    using rows unfolding receipt_values_def r(3,4) same by (auto simp: map_eq_Cons_conv)
  moreover have "receipt_data_ok plain_runtime ?db 200"
    by (simp add: receipt_data_ok_def evident_decision_def snapshot_db_def sample_snapshot_def datetime_range_def sample_defs)
  ultimately show thesis using that by blast
qed


end
