(* ===== verification/Kv_Store.thy ===== *)
theory Kv_Store
  imports Py_Json
begin

text \<open>
  The key-value store for short-lived shared state and its small clients: the in-process
  store, the rate limiter and the single-use OAuth states (\<^verbatim>\<open>app/cache/store.py\<close>,
  \<^verbatim>\<open>rate_limit.py\<close>, \<^verbatim>\<open>oauth_state.py\<close>). The interface of the store is the locale \<open>kv_store\<close>:
  what a client may rely on is stated over the entries that are live at an instant. The
  clients are proved against the interface, which the in-process store implements.
\<close>

section \<open>Effects\<close>

text \<open>
  An operation on a store maps it to a result and the store after it; an exception keeps what
  happened before it. The clock of the store is an argument: each operation reads it once.
\<close>

type_synonym ('s, 'a) io = "'s \<Rightarrow> 'a result \<times> 's"

definition returns :: "'a \<Rightarrow> ('s, 'a) io" where
  "returns x s = (Inr x, s)"

definition raises :: "error \<Rightarrow> ('s, 'a) io" where
  "raises e s = (Inl e, s)"

definition thens :: "('s, 'a) io \<Rightarrow> ('a \<Rightarrow> ('s, 'b) io) \<Rightarrow> ('s, 'b) io" where
  "thens m f s = (case m s of (Inl e, s') \<Rightarrow> (Inl e, s') | (Inr x, s') \<Rightarrow> f x s')"

definition StoreUnavailableError :: error where
  "StoreUnavailableError = PyError ''StoreUnavailableError''"

text \<open>\<^verbatim>\<open>try: m except StoreUnavailableError: h\<close>.\<close>

definition except_unavailable :: "('s, 'a) io \<Rightarrow> ('s, 'a) io \<Rightarrow> ('s, 'a) io" where
  "except_unavailable m h s = (case m s of (Inl e, s') \<Rightarrow> if e = StoreUnavailableError then h s' else (Inl e, s') | r \<Rightarrow> r)"

text \<open>\<^verbatim>\<open>int(text)\<close>: surrounding white space, a sign, digits with single underscores between them.\<close>

fun int_digits :: "string \<Rightarrow> string option" where
  "int_digits [] = None"
| "int_digits [c] = (if is_digit c then Some [c] else None)"
| "int_digits (c # d # s) = (if \<not> is_digit c then None
     else map_option (Cons c) (if d = CHR ''_'' then int_digits s else int_digits (d # s)))"

definition py_int :: "string \<Rightarrow> int option" where
  "py_int text = (case strip text of
       c # s \<Rightarrow> if c = CHR ''-'' then map_option (\<lambda>ds. - int (digits_value ds)) (int_digits s)
         else map_option (\<lambda>ds. int (digits_value ds)) (int_digits (if c = CHR ''+'' then s else c # s))
     | [] \<Rightarrow> None)"

section \<open>The store interface and the in-process store\<close>

record counter =
  cn_value :: int
  cn_ttl_ms :: int

record 's kv_ops =
  kv_get :: "rat \<Rightarrow> string \<Rightarrow> ('s, string option) io"
  kv_set :: "rat \<Rightarrow> string \<Rightarrow> string \<Rightarrow> rat \<Rightarrow> bool \<Rightarrow> ('s, bool) io"
  kv_get_and_delete :: "rat \<Rightarrow> string \<Rightarrow> ('s, string option) io"
  kv_delete :: "rat \<Rightarrow> string \<Rightarrow> ('s, unit) io"
  kv_increment :: "rat \<Rightarrow> string \<Rightarrow> rat \<Rightarrow> ('s, counter) io"

text \<open>The dict of the in-process store: a value and when it expires.\<close>

type_synonym memory = "string \<rightharpoonup> string \<times> rat"

definition live :: "rat \<Rightarrow> string \<Rightarrow> memory \<Rightarrow> (string \<times> rat) option \<times> memory" where
  "live now key data = (case data key of
      None \<Rightarrow> (None, data)
    | Some entry \<Rightarrow> if snd entry \<le> now then (None, data(key := None)) else (Some entry, data))"

definition memory_get :: "rat \<Rightarrow> string \<Rightarrow> (memory, string option) io" where
  "memory_get now key data = (let (entry, data) = live now key data in (Inr (map_option fst entry), data))"

definition memory_set :: "rat \<Rightarrow> string \<Rightarrow> string \<Rightarrow> rat \<Rightarrow> bool \<Rightarrow> (memory, bool) io" where
  "memory_set now key value ttl only_if_absent data =
     (let (entry, data) = (if only_if_absent then live now key data else (None, data)) in
      (case entry of Some _ \<Rightarrow> (Inr False, data) | None \<Rightarrow> (Inr True, data(key \<mapsto> (value, now + ttl)))))"

definition memory_get_and_delete :: "rat \<Rightarrow> string \<Rightarrow> (memory, string option) io" where
  "memory_get_and_delete now key data = (let (entry, data) = live now key data in (Inr (map_option fst entry), data(key := None)))"

definition memory_delete :: "rat \<Rightarrow> string \<Rightarrow> (memory, unit) io" where
  "memory_delete now key data = (Inr (), data(key := None))"

definition memory_increment :: "rat \<Rightarrow> string \<Rightarrow> rat \<Rightarrow> (memory, counter) io" where
  "memory_increment now key ttl data = (let (entry, data) = live now key data;
      counted = (\<lambda>value expires. (Inr \<lparr>cn_value = value, cn_ttl_ms = max 0 (round_half_even ((expires - now) * 1000))\<rparr>,
         data(key \<mapsto> (int_str value, expires)))) in
     (case entry of
        None \<Rightarrow> counted 1 (now + ttl)
      | Some (raw, expires) \<Rightarrow> (case py_int raw of None \<Rightarrow> (Inl (PyError ''ValueError''), data) | Some n \<Rightarrow> counted (n + 1) expires)))"

definition memory_store :: "memory kv_ops" where
  "memory_store = \<lparr>kv_get = memory_get, kv_set = memory_set, kv_get_and_delete = memory_get_and_delete,
     kv_delete = memory_delete, kv_increment = memory_increment\<rparr>"

definition memory_ping :: "(memory, bool) io" where
  "memory_ping = returns True"

definition memory_close :: "(memory, unit) io" where
  "memory_close data = (Inr (), Map.empty)"

text \<open>
  The Redis store: the commands of the client library are a parameter, each of which may
  raise a RedisError; the server has the clock. The pipeline of \<^verbatim>\<open>INCR\<close>, \<^verbatim>\<open>PEXPIRE NX\<close> and
  \<^verbatim>\<open>PTTL\<close> is one transaction.
\<close>

definition RedisError :: error where
  "RedisError = PyError ''RedisError''"

record 'r redis_client =
  rd_get :: "string \<Rightarrow> ('r, string option) io"
  rd_set :: "string \<Rightarrow> string \<Rightarrow> int \<Rightarrow> bool \<Rightarrow> ('r, bool) io"
  rd_getdel :: "string \<Rightarrow> ('r, string option) io"
  rd_del :: "string \<Rightarrow> ('r, unit) io"
  rd_incr_pexpire_pttl :: "string \<Rightarrow> int \<Rightarrow> ('r, int \<times> int) io"
  rd_ping :: "('r, bool) io"

definition millis :: "rat \<Rightarrow> int" where
  "millis seconds = max 1 (round_half_even (seconds * 1000))"

definition as_unavailable :: "('r, 'a) io \<Rightarrow> ('r, 'a) io" where
  "as_unavailable m s = (case m s of (Inl e, s') \<Rightarrow> (Inl (if e = RedisError then StoreUnavailableError else e), s') | r \<Rightarrow> r)"

definition redis_get :: "'r redis_client \<Rightarrow> rat \<Rightarrow> string \<Rightarrow> ('r, string option) io" where
  "redis_get C now key = as_unavailable (rd_get C key)"

definition redis_set :: "'r redis_client \<Rightarrow> rat \<Rightarrow> string \<Rightarrow> string \<Rightarrow> rat \<Rightarrow> bool \<Rightarrow> ('r, bool) io" where
  "redis_set C now key value ttl only_if_absent = as_unavailable (rd_set C key value (millis ttl) only_if_absent)"

definition redis_get_and_delete :: "'r redis_client \<Rightarrow> rat \<Rightarrow> string \<Rightarrow> ('r, string option) io" where
  "redis_get_and_delete C now key = as_unavailable (rd_getdel C key)"

definition redis_delete :: "'r redis_client \<Rightarrow> rat \<Rightarrow> string \<Rightarrow> ('r, unit) io" where
  "redis_delete C now key = as_unavailable (rd_del C key)"

definition redis_increment :: "'r redis_client \<Rightarrow> rat \<Rightarrow> string \<Rightarrow> rat \<Rightarrow> ('r, counter) io" where
  "redis_increment C now key ttl = thens (as_unavailable (rd_incr_pexpire_pttl C key (millis ttl))) (\<lambda>(value, ttl_ms).
     returns \<lparr>cn_value = value, cn_ttl_ms = max 0 ttl_ms\<rparr>)"

definition redis_ping :: "'r redis_client \<Rightarrow> ('r, bool) io" where
  "redis_ping C s = (case rd_ping C s of (Inl e, s') \<Rightarrow> if e = RedisError then (Inr False, s') else (Inl e, s') | r \<Rightarrow> r)"

definition redis_store :: "'r redis_client \<Rightarrow> 'r kv_ops" where
  "redis_store C = \<lparr>kv_get = redis_get C, kv_set = redis_set C, kv_get_and_delete = redis_get_and_delete C,
     kv_delete = redis_delete C, kv_increment = redis_increment C\<rparr>"

section \<open>Rate limiting\<close>

record rate_limit_decision =
  rl_allowed :: bool
  rl_limit :: int
  rl_remaining :: int
  rl_retry_after_seconds :: int

definition hit :: "'s kv_ops \<Rightarrow> int \<Rightarrow> rat \<Rightarrow> string \<Rightarrow> int \<Rightarrow> ('s, rate_limit_decision) io" where
  "hit K window now subject limit = except_unavailable
     (thens (kv_increment K now (''cl:ratelimit:'' @ subject) (of_int window)) (\<lambda>counter.
      let allowed = cn_value counter \<le> limit in
      returns \<lparr>rl_allowed = allowed, rl_limit = limit, rl_remaining = max 0 (limit - cn_value counter),
        rl_retry_after_seconds = (if allowed then 0 else max 1 \<lceil>of_int (cn_ttl_ms counter) / (1000 :: rat)\<rceil>)\<rparr>))
     (returns \<lparr>rl_allowed = True, rl_limit = limit, rl_remaining = limit, rl_retry_after_seconds = 0\<rparr>)"

section \<open>OAuth states\<close>

text \<open>The default form of \<^verbatim>\<open>json.dumps\<close>, with and without \<^verbatim>\<open>sort_keys\<close>.\<close>

definition dumps_opts :: "bool \<Rightarrow> json_opts" where
  "dumps_opts sorted_keys = \<lparr>sort_keys = sorted_keys, item_sep = '', '', key_sep = '': '', ensure_ascii = True, allow_nan = True\<rparr>"

definition py_dumps :: "runtime \<Rightarrow> bool \<Rightarrow> pyval \<Rightarrow> ('s, string) io" where
  "py_dumps R sorted_keys v = (case json_dumps (dumps_opts sorted_keys) (float_repr R) v of None \<Rightarrow> raises (PyError ''TypeError'') | Some t \<Rightarrow> returns t)"

definition py_loads :: "string \<Rightarrow> ('s, pyval) io" where
  "py_loads t = (case json_loads t of None \<Rightarrow> raises (PyError ''JSONDecodeError'') | Some v \<Rightarrow> returns v)"

definition oauth_key :: "runtime \<Rightarrow> string \<Rightarrow> string" where
  "oauth_key R state = ''cl:oauth:state:'' @ sha256 R state"

text \<open>The state string is the random token of \<^verbatim>\<open>secrets.token_urlsafe\<close>.\<close>

definition issue :: "'s kv_ops \<Rightarrow> runtime \<Rightarrow> rat \<Rightarrow> rat \<Rightarrow> string \<Rightarrow> pyval \<Rightarrow> ('s, string) io" where
  "issue K R ttl now token payload =
     thens (py_dumps R True payload) (\<lambda>text.
     thens (kv_set K now (oauth_key R token) text ttl False) (\<lambda>_. returns token))"

definition consume :: "'s kv_ops \<Rightarrow> runtime \<Rightarrow> rat \<Rightarrow> string \<Rightarrow> ('s, pyval option) io" where
  "consume K R now state =
     (if state = [] \<or> 512 < length state then returns None
      else thens (kv_get_and_delete K now (oauth_key R state)) (\<lambda>raw. case raw of
          None \<Rightarrow> returns None
        | Some text \<Rightarrow> thens (py_loads text) (\<lambda>payload. returns (Some payload))))"

section \<open>The contract of a store\<close>

text \<open>The entry of a key when the clock is at \<open>t\<close>, after an entry was written.\<close>

definition entry_at :: "rat \<Rightarrow> string \<times> rat \<Rightarrow> (string \<times> rat) option" where
  "entry_at t e = (if t < snd e then Some e else None)"

locale kv_store =
  fixes K :: "'s kv_ops" and view :: "'s \<Rightarrow> rat \<Rightarrow> string \<rightharpoonup> string \<times> rat"
  assumes view_later: "t \<le> t' \<Longrightarrow> view s t' k = Option.bind (view s t k) (entry_at t')"
    and view_live: "view s t k = Some e \<Longrightarrow> t < snd e"
    and get_law: "kv_get K t k s = (Inr r, s') \<Longrightarrow> r = map_option fst (view s t k) \<and> (\<forall>t' \<ge> t. view s' t' = view s t')"
    and set_law: "kv_set K t k v ttl absent s = (Inr w, s') \<Longrightarrow> w = (absent \<longrightarrow> view s t k = None) \<and>
      (\<forall>t' \<ge> t. view s' t' = (if w then (view s t')(k := entry_at t' (v, t + ttl)) else view s t'))"
    and get_and_delete_law: "kv_get_and_delete K t k s = (Inr r, s') \<Longrightarrow> r = map_option fst (view s t k) \<and> (\<forall>t' \<ge> t. view s' t' = (view s t')(k := None))"
    and delete_law: "kv_delete K t k s = (Inr u, s') \<Longrightarrow> \<forall>t' \<ge> t. view s' t' = (view s t')(k := None)"
    and increment_law: "kv_increment K t k ttl s = (Inr c, s') \<Longrightarrow> (\<exists>e. (case view s t k of
        None \<Rightarrow> cn_value c = 1 \<and> e = t + ttl | Some (v, x) \<Rightarrow> py_int v = Some (cn_value c - 1) \<and> e = x) \<and>
        cn_ttl_ms c = max 0 (round_half_even ((e - t) * 1000)) \<and>
        (\<forall>t' \<ge> t. view s' t' = (view s t')(k := entry_at t' (int_str (cn_value c), e))))"

text \<open>A store that answers every request it understands.\<close>

locale reliable_kv_store = kv_store K view for K :: "'s kv_ops" and view +
  assumes get_total: "\<exists>r s'. kv_get K t k s = (Inr r, s')"
    and set_total: "\<exists>w s'. kv_set K t k v ttl absent s = (Inr w, s')"
    and get_and_delete_total: "\<exists>r s'. kv_get_and_delete K t k s = (Inr r, s')"
    and delete_total: "\<exists>s'. kv_delete K t k s = (Inr (), s')"
    and increment_total: "(\<And>v e. view s t k = Some (v, e) \<Longrightarrow> py_int v \<noteq> None) \<Longrightarrow> \<exists>c s'. kv_increment K t k ttl s = (Inr c, s')"

text \<open>The in-process store keeps its promises: its live entries are those that have not expired.\<close>

definition memory_view :: "memory \<Rightarrow> rat \<Rightarrow> string \<rightharpoonup> string \<times> rat" where
  "memory_view data t k = Option.bind (data k) (entry_at t)"

lemma entry_at_simps: "entry_at t (v, e) = (if t < e then Some (v, e) else None)"
  by (simp add: entry_at_def)

lemma entry_at_later: "t \<le> t' \<Longrightarrow> Option.bind (entry_at t e) (entry_at t') = entry_at t' e"
  by (auto simp: entry_at_def)

lemma live_view:
  assumes "live t k data = (entry, data')"
  shows "entry = memory_view data t k \<and> (\<forall>t' \<ge> t. memory_view data' t' = memory_view data t')"
proof (cases "\<exists>e. data k = Some e \<and> snd e \<le> t")
  case True
  then have "entry = None" "data' = data(k := None)" "memory_view data t k = None" "\<forall>t' \<ge> t. memory_view data t' k = None"
    using assms by (auto simp: live_def memory_view_def entry_at_def)
  then show ?thesis by (auto simp: memory_view_def fun_eq_iff)
next
  case False
  then show ?thesis using assms by (auto simp: live_def memory_view_def entry_at_def split: option.splits if_splits)
qed

lemma memory_view_upd: "memory_view (data(k := x)) t = (memory_view data t)(k := Option.bind x (entry_at t))"
  by (auto simp: memory_view_def fun_eq_iff)

interpretation memory: reliable_kv_store memory_store memory_view
proof
  fix t t' :: rat and s k assume "t \<le> t'"
  then show "memory_view s t' k = Option.bind (memory_view s t k) (entry_at t')"
    by (cases "s k") (simp_all add: memory_view_def entry_at_later)
next
  fix s t k e assume "memory_view s t k = Some e"
  then show "t < snd e" by (auto simp: memory_view_def entry_at_def split: if_splits bind_splits)
next
  fix t k s r s' assume "kv_get memory_store t k s = (Inr r, s')"
  then show "r = map_option fst (memory_view s t k) \<and> (\<forall>t' \<ge> t. memory_view s' t' = memory_view s t')"
    using live_view [of t k s] by (cases "live t k s") (auto simp: memory_store_def memory_get_def)
next
  fix t k v ttl absent s w s' assume "kv_set memory_store t k v ttl absent s = (Inr w, s')"
  then show "w = (absent \<longrightarrow> memory_view s t k = None) \<and>
      (\<forall>t' \<ge> t. memory_view s' t' = (if w then (memory_view s t')(k := entry_at t' (v, t + ttl)) else memory_view s t'))"
    using live_view [of t k s] by (cases "live t k s") (auto simp: memory_store_def memory_set_def memory_view_upd split: if_splits option.splits)
next
  fix t k s r s' assume "kv_get_and_delete memory_store t k s = (Inr r, s')"
  then show "r = map_option fst (memory_view s t k) \<and> (\<forall>t' \<ge> t. memory_view s' t' = (memory_view s t')(k := None))"
    using live_view [of t k s] by (cases "live t k s") (auto simp: memory_store_def memory_get_and_delete_def memory_view_upd)
next
  fix t k s u s' assume "kv_delete memory_store t k s = (Inr u, s')"
  then show "\<forall>t' \<ge> t. memory_view s' t' = (memory_view s t')(k := None)"
    by (auto simp: memory_store_def memory_delete_def memory_view_upd)
next
  fix t k ttl s c s' assume "kv_increment memory_store t k ttl s = (Inr c, s')"
  then show "\<exists>e. (case memory_view s t k of None \<Rightarrow> cn_value c = 1 \<and> e = t + ttl | Some (v, x) \<Rightarrow> py_int v = Some (cn_value c - 1) \<and> e = x) \<and>
        cn_ttl_ms c = max 0 (round_half_even ((e - t) * 1000)) \<and>
        (\<forall>t' \<ge> t. memory_view s' t' = (memory_view s t')(k := entry_at t' (int_str (cn_value c), e)))"
    using live_view [of t k s] by (cases "live t k s")
      (auto simp: memory_store_def memory_increment_def Let_def memory_view_upd split: option.splits)
next
  fix t k s show "\<exists>r s'. kv_get memory_store t k s = (Inr r, s')"
    by (simp add: memory_store_def memory_get_def case_prod_beta)
next
  fix t k v ttl absent s show "\<exists>w s'. kv_set memory_store t k v ttl absent s = (Inr w, s')"
    by (auto simp: memory_store_def memory_set_def case_prod_beta split: option.split)
next
  fix t k s show "\<exists>r s'. kv_get_and_delete memory_store t k s = (Inr r, s')"
    by (simp add: memory_store_def memory_get_and_delete_def case_prod_beta)
next
  fix t k s show "\<exists>s'. kv_delete memory_store t k s = (Inr (), s')"
    by (simp add: memory_store_def memory_delete_def)
next
  fix s t k ttl assume "\<And>v e. memory_view s t k = Some (v, e) \<Longrightarrow> py_int v \<noteq> None"
  then show "\<exists>c s'. kv_increment memory_store t k ttl s = (Inr c, s')"
    using live_view [of t k s] by (cases "live t k s") (auto simp: memory_store_def memory_increment_def Let_def split: option.splits)
qed

section \<open>Counting in a window\<close>

lemma int_digits_all: "ds \<noteq> [] \<Longrightarrow> \<forall>c \<in> set ds. is_digit c \<Longrightarrow> int_digits ds = Some ds"
proof (induction ds rule: int_digits.induct)
  case (3 c d s)
  have "d \<noteq> CHR ''_''" using 3(4) by (auto simp: is_digit_def)
  then show ?case using 3(2,4) by simp
qed simp_all

lemma digit_no_space: "is_digit c \<Longrightarrow> \<not> is_space c"
  by (auto simp: is_digit_def is_space_def)

lemma py_int_nat_str: "py_int (nat_str n) = Some (int n)"
proof -
  have digits: "\<forall>c \<in> set (nat_str n). is_digit c" by (rule nat_str_digits)
  then have "\<not> is_space (hd (nat_str n))" "\<not> is_space (last (nat_str n))"
    using nat_str_ne [of n] digit_no_space by (metis hd_in_set last_in_set)+
  then have "strip (nat_str n) = nat_str n" using strip_fixed nat_str_ne [of n] by blast
  moreover obtain c s where c: "nat_str n = c # s" using nat_str_ne [of n] by (cases "nat_str n") auto
  moreover have "c \<noteq> CHR ''-''" "c \<noteq> CHR ''+''" using digits c by (auto simp: is_digit_def)
  ultimately show ?thesis
    using int_digits_all [of "c # s"] digits digits_value_nat_str [of n] by (simp add: py_int_def)
qed

lemma py_int_int_str: "0 \<le> n \<Longrightarrow> py_int (int_str n) = Some n"
  using py_int_nat_str [of "nat n"] by (simp add: int_str_def)

text \<open>A sequence of requests, each at an instant and for a subject.\<close>

fun hits :: "'s kv_ops \<Rightarrow> int \<Rightarrow> int \<Rightarrow> (rat \<times> string) list \<Rightarrow> 's \<Rightarrow> (string \<times> rate_limit_decision result) list" where
  "hits K window limit [] s = []"
| "hits K window limit ((t, subject) # evs) s =
     (let (r, s') = hit K window t subject limit s in (subject, r) # hits K window limit evs s')"

definition allowed_of :: "string \<Rightarrow> (string \<times> rate_limit_decision result) list \<Rightarrow> bool result list" where
  "allowed_of x rs = map (\<lambda>r. map_sum id rl_allowed (snd r)) (filter (\<lambda>r. fst r = x) rs)"

text \<open>The counter of a subject: none yet, or a number and the end of the window.\<close>

definition rate_key :: "string \<Rightarrow> string" where
  "rate_key x = ''cl:ratelimit:'' @ x"

definition numeric :: "(string \<rightharpoonup> string \<times> rat) \<Rightarrow> bool" where
  "numeric m \<longleftrightarrow> (\<forall>x v e. m (rate_key x) = Some (v, e) \<longrightarrow> (\<exists>n \<ge> 0. v = int_str n))"

context reliable_kv_store
begin

lemma view_stays: "t \<le> t' \<Longrightarrow> view s t' k = Some e \<Longrightarrow> view s t k = Some e"
  by (simp add: view_later [of t t'] entry_at_def split: bind_splits if_splits)

lemma view_until: "t \<le> t' \<Longrightarrow> view s t k = Some e \<Longrightarrow> t' < snd e \<Longrightarrow> view s t' k = Some e"
  by (simp add: view_later [of t t'] entry_at_def)

lemma view_gone: "t \<le> t' \<Longrightarrow> view s t k = None \<Longrightarrow> view s t' k = None"
  by (simp add: view_later [of t t'])

lemma numeric_later: "numeric (view s t) \<Longrightarrow> t \<le> t' \<Longrightarrow> numeric (view s t')"
  unfolding numeric_def using view_stays by blast

lemma hit_step:
  assumes "numeric (view s t)" and "hit K window t x limit s = (r, s')"
  obtains n e where "r = Inr \<lparr>rl_allowed = (n \<le> limit), rl_limit = limit, rl_remaining = max 0 (limit - n),
        rl_retry_after_seconds = (if n \<le> limit then 0 else max 1 \<lceil>of_int (max 0 (round_half_even ((e - t) * 1000))) / (1000 :: rat)\<rceil>)\<rparr>"
    and "case view s t (rate_key x) of None \<Rightarrow> n = 1 \<and> e = t + of_int window | Some (v, y) \<Rightarrow> v = int_str (n - 1) \<and> 1 \<le> n \<and> e = y"
    and "\<forall>t' \<ge> t. view s' t' = (view s t')(rate_key x := entry_at t' (int_str n, e))" and "1 \<le> n" and "numeric (view s' t)"
proof -
  have num: "\<exists>m \<ge> 0. v = int_str m" if "view s t (rate_key x) = Some (v, y)" for v y using assms(1) that by (auto simp: numeric_def)
  then have "py_int v \<noteq> None" if "view s t (rate_key x) = Some (v, y)" for v y using that py_int_int_str by fastforce
  then obtain c s1 where inc: "kv_increment K t (rate_key x) (of_int window) s = (Inr c, s1)" using increment_total by blast
  obtain e where e: "case view s t (rate_key x) of None \<Rightarrow> cn_value c = 1 \<and> e = t + of_int window | Some (v, y) \<Rightarrow> py_int v = Some (cn_value c - 1) \<and> e = y"
    "cn_ttl_ms c = max 0 (round_half_even ((e - t) * 1000))"
    "\<forall>t' \<ge> t. view s1 t' = (view s t')(rate_key x := entry_at t' (int_str (cn_value c), e))" using increment_law [OF inc] by blast
  have res: "r = Inr \<lparr>rl_allowed = (cn_value c \<le> limit), rl_limit = limit, rl_remaining = max 0 (limit - cn_value c),
        rl_retry_after_seconds = (if cn_value c \<le> limit then 0 else max 1 \<lceil>of_int (cn_ttl_ms c) / (1000 :: rat)\<rceil>)\<rparr>" "s' = s1"
    using assms(2) inc by (simp_all add: hit_def rate_key_def except_unavailable_def thens_def returns_def Let_def)
  have val: "case view s t (rate_key x) of None \<Rightarrow> cn_value c = 1 \<and> e = t + of_int window | Some (v, y) \<Rightarrow> v = int_str (cn_value c - 1) \<and> 1 \<le> cn_value c \<and> e = y"
  proof (cases "view s t (rate_key x)")
    case (Some vy)
    then obtain m where "0 \<le> m" "fst vy = int_str m" using num by (cases vy) auto
    then show ?thesis using e(1) Some py_int_int_str [of m] by (cases vy) simp
  qed (use e(1) in simp)
  then have one: "1 \<le> cn_value c" by (auto split: option.splits)
  have "numeric (view s' t)"
    unfolding numeric_def res(2) using e(3) assms(1) one by (auto simp: numeric_def entry_at_simps split: if_splits intro!: exI [of _ "cn_value c"])
  then show thesis using that [of "cn_value c" e] res val e one by simp
qed

end

lemma rate_key_inj: "rate_key x = rate_key y \<longleftrightarrow> x = y"
  by (simp add: rate_key_def)

lemma allowed_of_Cons: "allowed_of x ((y, r) # rs) = (if y = x then [map_sum id rl_allowed r] else []) @ allowed_of x rs"
  by (simp add: allowed_of_def)

context reliable_kv_store
begin

text \<open>Once \<open>n\<close> requests were counted in a window, the following ones of the window are counted on.\<close>

lemma hits_in_window:
  assumes "numeric (view s t)" and "sorted (t # map fst evs)" and "\<forall>ev \<in> set evs. snd ev = x \<longrightarrow> fst ev < e"
    and "\<And>t'. t \<le> t' \<Longrightarrow> t' < e \<Longrightarrow> view s t' (rate_key x) = Some (int_str (int n), e)"
  shows "allowed_of x (hits K window limit evs s) = map (\<lambda>j. Inr (int (n + j) \<le> limit)) [1..<Suc (length (filter (\<lambda>ev. snd ev = x) evs))]"
  using assms
proof (induction evs arbitrary: s t n)
  case Nil
  then show ?case by (simp add: allowed_of_def)
next
  case (Cons ev evs)
  obtain t1 y where ev: "ev = (t1, y)" by (cases ev)
  have t1: "t \<le> t1" "sorted (t1 # map fst evs)" using Cons(3) ev by simp_all
  obtain r s1 where h: "hit K window t1 y limit s = (r, s1)" by (cases "hit K window t1 y limit s")
  obtain m e1 where r: "r = Inr \<lparr>rl_allowed = (m \<le> limit), rl_limit = limit, rl_remaining = max 0 (limit - m),
        rl_retry_after_seconds = (if m \<le> limit then 0 else max 1 \<lceil>of_int (max 0 (round_half_even ((e1 - t1) * 1000))) / (1000 :: rat)\<rceil>)\<rparr>"
    and m: "case view s t1 (rate_key y) of None \<Rightarrow> m = 1 \<and> e1 = t1 + of_int window | Some (v, z) \<Rightarrow> v = int_str (m - 1) \<and> 1 \<le> m \<and> e1 = z"
    and v1: "\<forall>t' \<ge> t1. view s1 t' = (view s t')(rate_key y := entry_at t' (int_str m, e1))" and num: "numeric (view s1 t1)"
    by (rule hit_step [OF numeric_later [OF Cons(2) t1(1)] h]) (rule that)
  show ?case
  proof (cases "y = x")
    case False
    have "view s1 t' (rate_key x) = Some (int_str (int n), e)" if "t1 \<le> t'" "t' < e" for t'
      using v1 that Cons(5) [of t'] t1(1) False by (auto simp: rate_key_inj)
    then have "allowed_of x (hits K window limit evs s1) = map (\<lambda>j. Inr (int (n + j) \<le> limit)) [1..<Suc (length (filter (\<lambda>ev. snd ev = x) evs))]"
      by (intro Cons(1) [OF num t1(2)]) (use Cons(4) in auto)
    then show ?thesis using h False by (simp add: ev allowed_of_Cons)
  next
    case True
    have "t1 < e" using Cons(4) ev True by simp
    then have same: "int_str (int n) = int_str (m - 1)" "1 \<le> m" "e1 = e" using m Cons(5) [OF t1(1)] True by simp_all
    have "Some (int n) = Some (m - 1)" using py_int_int_str [of "int n"] py_int_int_str [of "m - 1"] same(1,2) by (metis of_nat_0_le_iff le_diff_eq add_0)
    then have mn: "m = int (Suc n)" by simp
    have "view s1 t' (rate_key x) = Some (int_str (int (Suc n)), e)" if "t1 \<le> t'" "t' < e" for t'
      using v1 that True mn same(3) by (simp add: entry_at_simps)
    then have rec: "allowed_of x (hits K window limit evs s1) = map (\<lambda>j. Inr (int (Suc n + j) \<le> limit)) [1..<Suc (length (filter (\<lambda>ev. snd ev = x) evs))]"
      by (intro Cons(1) [OF num t1(2)]) (use Cons(4) in auto)
    let ?k = "length (filter (\<lambda>ev. snd ev = x) evs)"
    have "[1..<Suc (Suc ?k)] = 1 # map Suc [1..<Suc ?k]" by (simp add: upt_conv_Cons map_Suc_upt del: upt_Suc)
    then show ?thesis using h rec mn r by (simp add: ev True allowed_of_Cons o_def algebra_simps del: upt_Suc)
  qed
qed

lemma hits_from_start:
  assumes "numeric (view s t)" and "sorted (t # map fst evs)" and "find (\<lambda>ev. snd ev = x) evs = Some (t0, x)"
    and "\<forall>ev \<in> set evs. snd ev = x \<longrightarrow> fst ev < t0 + of_int window" and "view s t (rate_key x) = None"
  shows "allowed_of x (hits K window limit evs s) = map (\<lambda>j. Inr (int j \<le> limit)) [1..<Suc (length (filter (\<lambda>ev. snd ev = x) evs))]"
  using assms
proof (induction evs arbitrary: s t)
  case (Cons ev evs)
  obtain t1 y where ev: "ev = (t1, y)" by (cases ev)
  have t1: "t \<le> t1" "sorted (t1 # map fst evs)" using Cons(3) ev by simp_all
  obtain r s1 where h: "hit K window t1 y limit s = (r, s1)" by (cases "hit K window t1 y limit s")
  obtain m e1 where r: "r = Inr \<lparr>rl_allowed = (m \<le> limit), rl_limit = limit, rl_remaining = max 0 (limit - m),
        rl_retry_after_seconds = (if m \<le> limit then 0 else max 1 \<lceil>of_int (max 0 (round_half_even ((e1 - t1) * 1000))) / (1000 :: rat)\<rceil>)\<rparr>"
    and m: "case view s t1 (rate_key y) of None \<Rightarrow> m = 1 \<and> e1 = t1 + of_int window | Some (v, z) \<Rightarrow> v = int_str (m - 1) \<and> 1 \<le> m \<and> e1 = z"
    and v1: "\<forall>t' \<ge> t1. view s1 t' = (view s t')(rate_key y := entry_at t' (int_str m, e1))" and num: "numeric (view s1 t1)"
    by (rule hit_step [OF numeric_later [OF Cons(2) t1(1)] h]) (rule that)
  have gone: "view s t1 (rate_key x) = None" by (rule view_gone [OF t1(1) Cons(6)])
  show ?case
  proof (cases "y = x")
    case False
    have "view s1 t1 (rate_key x) = None" using v1 gone False by (simp add: rate_key_inj)
    then have "allowed_of x (hits K window limit evs s1) = map (\<lambda>j. Inr (int j \<le> limit)) [1..<Suc (length (filter (\<lambda>ev. snd ev = x) evs))]"
      by (intro Cons(1) [OF num t1(2)]) (use Cons(4,5) ev False in auto)
    then show ?thesis using h False by (simp add: ev allowed_of_Cons)
  next
    case True
    then have t0: "t0 = t1" using Cons(4) ev by simp
    have m1: "m = 1" "e1 = t0 + of_int window" using m gone True t0 by simp_all
    have "view s1 t' (rate_key x) = Some (int_str (int 1), t0 + of_int window)" if "t1 \<le> t'" "t' < t0 + of_int window" for t'
      using v1 that True m1 by (simp add: entry_at_simps)
    then have rec: "allowed_of x (hits K window limit evs s1) = map (\<lambda>j. Inr (int (1 + j) \<le> limit)) [1..<Suc (length (filter (\<lambda>ev. snd ev = x) evs))]"
      by (intro hits_in_window [OF num t1(2)]) (use Cons(5) in auto)
    let ?k = "length (filter (\<lambda>ev. snd ev = x) evs)"
    have "[1..<Suc (Suc ?k)] = 1 # map Suc [1..<Suc ?k]" by (simp add: upt_conv_Cons map_Suc_upt del: upt_Suc)
    then show ?thesis using h rec m1 r by (simp add: ev True allowed_of_Cons o_def del: upt_Suc)
  qed
qed simp

end

section \<open>Single use\<close>

datatype oauth_op = Issue string pyval | Consume string

text \<open>A sequence of requests to the state store, and what the callbacks got.\<close>

fun oauth_run :: "'s kv_ops \<Rightarrow> runtime \<Rightarrow> rat \<Rightarrow> (rat \<times> oauth_op) list \<Rightarrow> 's \<Rightarrow> (rat \<times> string \<times> pyval option result) list" where
  "oauth_run K R ttl [] s = []"
| "oauth_run K R ttl ((t, Issue token payload) # evs) s = oauth_run K R ttl evs (snd (issue K R ttl t token payload s))"
| "oauth_run K R ttl ((t, Consume token) # evs) s =
     (let (r, s') = consume K R t token s in (t, token, r) # oauth_run K R ttl evs s')"

definition consumed :: "string \<Rightarrow> (rat \<times> string \<times> pyval option result) list \<Rightarrow> (rat \<times> pyval option result) list" where
  "consumed x rs = map (\<lambda>(t, y, r). (t, r)) (filter (\<lambda>(t, y, r). y = x) rs)"

fun op_token :: "oauth_op \<Rightarrow> string" where
  "op_token (Issue token payload) = token"
| "op_token (Consume token) = token"

lemma consumed_Cons: "consumed x ((t, y, r) # rs) = (if y = x then [(t, r)] else []) @ consumed x rs"
  by (simp add: consumed_def)

context reliable_kv_store
begin

lemma issue_view:
  "\<exists>f. \<forall>t' \<ge> t. view (snd (issue K R ttl t token payload s)) t' = (view s t')(oauth_key R token := f t')"
proof (cases "json_dumps (dumps_opts True) (float_repr R) payload")
  case None
  then show ?thesis by (intro exI [of _ "\<lambda>t'. view s t' (oauth_key R token)"]) (simp add: issue_def py_dumps_def thens_def raises_def)
next
  case (Some doc)
  obtain w s' where set: "kv_set K t (oauth_key R token) doc ttl False s = (Inr w, s')" using set_total by blast
  then have "view s' t' = (view s t')(oauth_key R token := entry_at t' (doc, t + ttl))" if "t \<le> t'" for t'
    using set_law [OF set] that by auto
  then show ?thesis using Some set by (intro exI [of _ "\<lambda>t'. entry_at t' (doc, t + ttl)"]) (simp add: issue_def py_dumps_def thens_def returns_def)
qed

lemma issue_entry:
  assumes "json_dumps (dumps_opts True) (float_repr R) payload = Some doc" and "t \<le> t'"
  shows "view (snd (issue K R ttl t token payload s)) t' (oauth_key R token) = entry_at t' (doc, t + ttl)"
proof -
  obtain w s' where set: "kv_set K t (oauth_key R token) doc ttl False s = (Inr w, s')" using set_total by blast
  then show ?thesis using set_law [OF set] assms by (simp add: issue_def py_dumps_def thens_def returns_def)
qed

lemma consume_step:
  assumes "consume K R t token s = (r, s')" and "token \<noteq> []" "length token \<le> 512"
  shows "r = (case view s t (oauth_key R token) of None \<Rightarrow> Inr None
      | Some (text, e) \<Rightarrow> (case json_loads text of None \<Rightarrow> Inl (PyError ''JSONDecodeError'') | Some v \<Rightarrow> Inr (Some v))) \<and>
    (\<forall>t' \<ge> t. view s' t' = (view s t')(oauth_key R token := None))"
proof -
  obtain raw s1 where g: "kv_get_and_delete K t (oauth_key R token) s = (Inr raw, s1)" using get_and_delete_total by blast
  then show ?thesis using get_and_delete_law [OF g] assms
    by (auto simp: consume_def thens_def py_loads_def returns_def raises_def split: option.splits)
qed

lemma consume_other_view:
  assumes "consume K R t token s = (r, s')" and "oauth_key R token \<noteq> k" and "t \<le> t'"
  shows "view s' t' k = view s t' k"
proof (cases "token = [] \<or> 512 < length token")
  case True
  then show ?thesis using assms(1) by (auto simp: consume_def returns_def)
next
  case False
  then show ?thesis using consume_step [OF assms(1)] assms(2,3) by simp
qed

lemma consumed_none:
  assumes "sorted (t # map fst evs)" and "view s t (oauth_key R x) = None" and "x \<noteq> []" "length x \<le> 512"
    and "\<forall>(t, ev) \<in> set evs. \<forall>p. ev \<noteq> Issue x p" and "inj_on (sha256 R) (insert x (op_token ` snd ` set evs))"
  shows "\<forall>(t', r) \<in> set (consumed x (oauth_run K R ttl evs s)). r = Inr None"
  using assms
proof (induction evs arbitrary: s t)
  case (Cons ev evs)
  obtain t1 op where ev: "ev = (t1, op)" by (cases ev)
  have t1: "t \<le> t1" "sorted (t1 # map fst evs)" using Cons(2) ev by simp_all
  have inj: "inj_on (sha256 R) (insert x (op_token ` snd ` set evs))" using Cons(7) by (rule inj_on_subset) auto
  have key: "oauth_key R y = oauth_key R x \<Longrightarrow> y = x" if "y = op_token op" for y
    using inj_onD [OF Cons(7), of y x] that ev by (auto simp: oauth_key_def)
  have gone: "view s t1 (oauth_key R x) = None" by (rule view_gone [OF t1(1) Cons(3)])
  note rec = Cons(1) [OF t1(2) _ Cons(4,5) _ inj]
  show ?case
  proof (cases op)
    case (Issue token payload)
    then have "token \<noteq> x" using Cons(6) ev by auto
    then have "oauth_key R token \<noteq> oauth_key R x" using key [of token] Issue by auto
    then have "view (snd (issue K R ttl t1 token payload s)) t1 (oauth_key R x) = None"
      using issue_view [of t1 R ttl token payload s] gone by auto
    then show ?thesis using rec [of "snd (issue K R ttl t1 token payload s)"] Cons(6) by (simp add: ev Issue)
  next
    case (Consume token)
    obtain r s1 where c: "consume K R t1 token s = (r, s1)" by (cases "consume K R t1 token s")
    show ?thesis
    proof (cases "token = x")
      case True
      have "r = Inr None" "view s1 t1 (oauth_key R x) = None" using consume_step [OF c] gone True Cons(4,5) by simp_all
      then show ?thesis using rec [of s1] Cons(6) c by (simp add: ev Consume True consumed_Cons)
    next
      case False
      have "oauth_key R token \<noteq> oauth_key R x" using key [of token] Consume False by auto
      then have "view s1 t1 (oauth_key R x) = None" using consume_other_view [OF c _ order_refl] gone by simp
      then show ?thesis using rec [of s1] Cons(6) c by (simp add: ev Consume False consumed_Cons)
    qed
  qed
qed (simp add: consumed_def)

end

text \<open>What the callbacks with one state get: the payload at most once, the first time and in time.\<close>

fun single_use :: "rat \<Rightarrow> pyval \<Rightarrow> (rat \<times> pyval option result) list \<Rightarrow> bool" where
  "single_use e v [] = True"
| "single_use e v ((t, r) # rs) = (r = Inr (if t < e then Some v else None) \<and> (\<forall>(t', r') \<in> set rs. r' = Inr None))"

context reliable_kv_store
begin

lemma consumed_once:
  assumes "sorted (t # map fst evs)" and "\<forall>t' \<ge> t. view s t' (oauth_key R x) = entry_at t' (doc, e)" and "json_loads doc = Some v"
    and "x \<noteq> []" "length x \<le> 512"
    and "\<forall>(t, ev) \<in> set evs. \<forall>p. ev \<noteq> Issue x p" and "inj_on (sha256 R) (insert x (op_token ` snd ` set evs))"
  shows "single_use e v (consumed x (oauth_run K R ttl evs s))"
  using assms
proof (induction evs arbitrary: s t)
  case (Cons ev evs)
  obtain t1 op where ev: "ev = (t1, op)" by (cases ev)
  have t1: "t \<le> t1" "sorted (t1 # map fst evs)" using Cons(2) ev by simp_all
  have inj: "inj_on (sha256 R) (insert x (op_token ` snd ` set evs))" using Cons(8) by (rule inj_on_subset) auto
  have no: "\<forall>(t, ev) \<in> set evs. \<forall>p. ev \<noteq> Issue x p" using Cons(7) by auto
  have key: "oauth_key R y = oauth_key R x \<Longrightarrow> y = x" if "y = op_token op" for y
    using inj_onD [OF Cons(8), of y x] that ev by (auto simp: oauth_key_def)
  have here: "\<forall>t' \<ge> t1. view s t' (oauth_key R x) = entry_at t' (doc, e)" using Cons(3) t1(1) by auto
  note rec = Cons(1) [OF t1(2) _ Cons(4-6) no inj]
  show ?case
  proof (cases op)
    case (Issue token payload)
    then have "token \<noteq> x" using Cons(7) ev by auto
    then have "oauth_key R token \<noteq> oauth_key R x" using key [of token] Issue by auto
    then have "\<forall>t' \<ge> t1. view (snd (issue K R ttl t1 token payload s)) t' (oauth_key R x) = entry_at t' (doc, e)"
      using issue_view [of t1 R ttl token payload s] here by auto
    then show ?thesis using rec by (simp add: ev Issue)
  next
    case (Consume token)
    obtain r s1 where c: "consume K R t1 token s = (r, s1)" by (cases "consume K R t1 token s")
    show ?thesis
    proof (cases "token = x")
      case True
      have "view s t1 (oauth_key R x) = entry_at t1 (doc, e)" using here by simp
      then have "r = Inr (if t1 < e then Some v else None)" using consume_step [OF c] True Cons(4-6) by (simp add: entry_at_simps split: if_splits)
      moreover have "view s1 t1 (oauth_key R x) = None" using consume_step [OF c] True Cons(5,6) by simp
      ultimately show ?thesis using consumed_none [OF t1(2) _ Cons(5,6) no inj, of s1 ttl] c by (simp add: ev Consume True consumed_Cons)
    next
      case False
      have "oauth_key R token \<noteq> oauth_key R x" using key [of token] Consume False by auto
      then have "\<forall>t' \<ge> t1. view s1 t' (oauth_key R x) = entry_at t' (doc, e)" using consume_other_view [OF c] here by simp
      then show ?thesis using rec [of s1] c by (simp add: ev Consume False consumed_Cons)
    qed
  qed
qed (simp add: consumed_def)

lemma issued_once:
  assumes "sorted (t # map fst evs)" and "json_dumps (dumps_opts True) (float_repr R) payload = Some doc" and "json_value (float_repr R) payload"
    and "x \<noteq> []" "length x \<le> 512"
    and "\<forall>(t, ev) \<in> set evs. \<forall>p. ev \<noteq> Issue x p" and "inj_on (sha256 R) (insert x (op_token ` snd ` set evs))"
  shows "single_use (t + ttl) (json_canon (dumps_opts True) payload) (consumed x (oauth_run K R ttl ((t, Issue x payload) # evs) s))"
proof -
  have "plain_seps (dumps_opts True)" by (simp add: plain_seps_def dumps_opts_def)
  then have doc: "json_loads doc = Some (json_canon (dumps_opts True) payload)" by (rule loads_dumps [OF _ assms(3,2)])
  have "\<forall>t' \<ge> t. view (snd (issue K R ttl t x payload s)) t' (oauth_key R x) = entry_at t' (doc, t + ttl)"
    using issue_entry [OF assms(2)] by blast
  then show ?thesis unfolding oauth_run.simps by (rule consumed_once [OF assms(1) _ doc assms(4-7)])
qed

end

text \<open>When Redis fails, the rate limiter lets the request pass and the state store refuses it.\<close>

lemma hit_fails_open:
  assumes "rd_incr_pexpire_pttl C (rate_key x) (millis (of_int window)) s = (Inl RedisError, s')"
  shows "hit (redis_store C) window now x limit s = (Inr \<lparr>rl_allowed = True, rl_limit = limit, rl_remaining = limit, rl_retry_after_seconds = 0\<rparr>, s')"
  using assms by (simp add: hit_def redis_store_def redis_increment_def as_unavailable_def thens_def except_unavailable_def returns_def rate_key_def)

lemma consume_fails_closed:
  assumes "rd_getdel C (oauth_key R x) s = (Inl RedisError, s')" and "x \<noteq> []" "length x \<le> 512"
  shows "consume (redis_store C) R now x s = (Inl StoreUnavailableError, s')"
  using assms by (simp add: consume_def redis_store_def redis_get_and_delete_def as_unavailable_def thens_def)

section \<open>Properties\<close>

text \<open>
  C35. The rate limit holds: with the counter of a subject unused, of the requests of the
  subject within one window exactly the first \<open>limit\<close> are allowed, whatever the other subjects
  do in between, and none of them fails.
\<close>

theorem rate_limit_window:
  assumes "sorted (map fst evs)" and "find (\<lambda>ev. snd ev = x) evs = Some (t0, x)"
    and "\<forall>ev \<in> set evs. snd ev = x \<longrightarrow> fst ev < t0 + of_int window"
  shows "allowed_of x (hits memory_store window limit evs Map.empty) =
    map (\<lambda>j. Inr (int j \<le> limit)) [1..<Suc (length (filter (\<lambda>ev. snd ev = x) evs))]"
proof (cases evs)
  case (Cons ev evs')
  have "sorted (fst ev # map fst evs)" using assms(1) Cons by simp
  moreover have "numeric (memory_view Map.empty (fst ev))" by (simp add: numeric_def memory_view_def)
  ultimately show ?thesis using memory.hits_from_start [OF _ _ assms(2,3)] by (simp add: memory_view_def)
qed (use assms(2) in simp)

text \<open>Witness: a limit of 2 in a window of 60 seconds, with another client in between.\<close>

theorem rate_limit_window_witness:
  "allowed_of ''user:1'' (hits memory_store 60 2 [(0, ''user:1''), (1, ''user:2''), (2, ''user:1''), (3, ''user:1'')] Map.empty) =
    [Inr True, Inr True, Inr False]"
  using rate_limit_window [of "[(0, ''user:1''), (1, ''user:2''), (2, ''user:1''), (3, ''user:1'')]" "''user:1''" 0 60 2]
  by (simp add: upt_rec)

text \<open>
  C34. An OAuth state is single use: after a state was issued, and not again, the first callback
  that presents it before it expires gets its payload, and every other callback, before or
  after any other use of the store, gets nothing.
\<close>

theorem oauth_state_single_use:
  assumes "sorted (t # map fst evs)" and "json_dumps (dumps_opts True) (float_repr R) payload = Some doc" and "json_value (float_repr R) payload"
    and "x \<noteq> []" "length x \<le> 512" and "\<forall>(t, ev) \<in> set evs. \<forall>p. ev \<noteq> Issue x p"
    and "inj_on (sha256 R) (insert x (op_token ` snd ` set evs))"
  shows "single_use (t + ttl) (json_canon (dumps_opts True) payload)
     (consumed x (oauth_run memory_store R ttl ((t, Issue x payload) # evs) s))"
  by (rule memory.issued_once [OF assms])

text \<open>Witness: a second callback with the same state, and one with another state.\<close>

theorem oauth_state_single_use_witness:
  "single_use 600 (PDict [(''client'', PStr ''c'')]) (consumed ''abc'' (oauth_run memory_store
      \<lparr>sha256 = (\<lambda>s. s), float_repr = (\<lambda>r. ''0.5''), decimal_str = (\<lambda>d. ''0.5'')\<rparr> 600
      [(0, Issue ''abc'' (PDict [(''client'', PStr ''c'')])), (1, Consume ''xyz''), (2, Consume ''abc''), (3, Consume ''abc'')] Map.empty))"
proof -
  let ?R = "\<lparr>sha256 = (\<lambda>s. s), float_repr = (\<lambda>r. ''0.5''), decimal_str = (\<lambda>d. ''0.5'')\<rparr>"
  have "\<exists>doc. json_dumps (dumps_opts True) (float_repr ?R) (PDict [(''client'', PStr ''c'')]) = Some doc" by simp
  then obtain doc where "json_dumps (dumps_opts True) (float_repr ?R) (PDict [(''client'', PStr ''c'')]) = Some doc" by blast
  then show ?thesis
    using oauth_state_single_use [of 0 "[(1, Consume ''xyz''), (2, Consume ''abc''), (3, Consume ''abc'')]" ?R "PDict [(''client'', PStr ''c'')]" doc "''abc''" 600 Map.empty]
    by (simp add: dumps_opts_def del: oauth_run.simps single_use.simps json_dumps.simps)
qed

end
