(* ===== verification/Idempotency.thy ===== *)
theory Idempotency
  imports Kv_Store
begin

text \<open>
  \<^verbatim>\<open>Idempotency-Key\<close> support for POST requests (\<^verbatim>\<open>app/cache/idempotency.py\<close>): a request
  reserves its key, runs, and stores or releases the outcome. Requests run concurrently, so a
  request is two steps, and the steps of different requests interleave. Shown: while no
  request outlives its reservation, no two requests with one key run at the same time, and a
  finished request is replayed, never run again, until its record expires.
\<close>

section \<open>Base64\<close>

definition b64_alphabet :: string where
  "b64_alphabet = ''ABCDEFGHIJKLMNOPQRSTUVWXYZabcdefghijklmnopqrstuvwxyz0123456789+/''"

definition b64_char :: "nat \<Rightarrow> char" where
  "b64_char n = b64_alphabet ! (n mod 64)"

fun index_of :: "'a \<Rightarrow> 'a list \<Rightarrow> nat option" where
  "index_of x [] = None"
| "index_of x (y # ys) = (if x = y then Some 0 else map_option Suc (index_of x ys))"

definition b64_value :: "char \<Rightarrow> nat option" where
  "b64_value c = index_of c b64_alphabet"

fun b64encode :: "string \<Rightarrow> string" where
  "b64encode [] = []"
| "b64encode [a] = [b64_char (code a div 4), b64_char (code a mod 4 * 16), CHR ''='', CHR ''='']"
| "b64encode [a, b] = [b64_char (code a div 4), b64_char (code a mod 4 * 16 + code b div 16), b64_char (code b mod 16 * 4), CHR ''='']"
| "b64encode (a # b # c # s) = b64_char (code a div 4) # b64_char (code a mod 4 * 16 + code b div 16) #
     b64_char (code b mod 16 * 4 + code c div 64) # b64_char (code c mod 64) # b64encode s"

text \<open>Decoding discards the characters outside the alphabet; \<open>None\<close> is \<^verbatim>\<open>binascii.Error\<close>.\<close>

fun b64_groups :: "string \<Rightarrow> string option" where
  "b64_groups [] = Some []"
| "b64_groups (p # q # r # s # t) = (case (b64_value p, b64_value q, b64_value r, b64_value s) of
      (Some w, Some x, Some y, Some z) \<Rightarrow>
        map_option (\<lambda>u. char_of (w * 4 + x div 16) # char_of (x mod 16 * 16 + y div 4) # char_of (y mod 4 * 64 + z) # u) (b64_groups t)
    | (Some w, Some x, Some y, None) \<Rightarrow> Some [char_of (w * 4 + x div 16), char_of (x mod 16 * 16 + y div 4)]
    | (Some w, Some x, None, None) \<Rightarrow> Some [char_of (w * 4 + x div 16)]
    | _ \<Rightarrow> None)"
| "b64_groups _ = None"

definition b64decode :: "string \<Rightarrow> string option" where
  "b64decode s = b64_groups (filter (\<lambda>c. c \<in> set b64_alphabet \<or> c = CHR ''='') s)"

lemma b64_value_table: "\<forall>n \<in> set [0..<64]. b64_value (b64_char n) = Some n \<and> b64_char n \<in> set b64_alphabet"
  by code_simp

lemma b64_value_char: "n < 64 \<Longrightarrow> b64_value (b64_char n) = Some n" "n < 64 \<Longrightarrow> b64_char n \<in> set b64_alphabet"
  using b64_value_table by auto

lemma b64_value_pad: "b64_value CHR ''='' = None"
  by code_simp

lemma b64_parts:
  fixes a b c :: char
  shows "code a div 4 < 64" "code a mod 4 * 16 < 64" "code a mod 4 * 16 + code b div 16 < 64" "code b mod 16 * 4 < 64"
    "code b mod 16 * 4 + code c div 64 < 64" "code c mod 64 < 64"
proof -
  have "code a < 256" "code b < 256" "code c < 256" by simp_all
  then have "code a div 4 < 64" "code b div 16 < 16" "code c div 64 < 4" by linarith+
  moreover have "code a mod 4 < 4" "code b mod 16 < 16" by simp_all
  ultimately show "code a div 4 < 64" "code a mod 4 * 16 < 64" "code a mod 4 * 16 + code b div 16 < 64" "code b mod 16 * 4 < 64"
    "code b mod 16 * 4 + code c div 64 < 64" "code c mod 64 < 64" by (linarith | simp)+
qed

lemma b64_high:
  fixes b :: char
  shows "code b div 16 div 16 = 0" "code b div 16 mod 16 = code b div 16" "code b div 64 div 4 = 0" "code b div 64 mod 4 = code b div 64"
proof -
  have "code b < 256" by simp
  then have "code b div 16 < 16" "code b div 64 < 4" by linarith+
  then show "code b div 16 div 16 = 0" "code b div 16 mod 16 = code b div 16" "code b div 64 div 4 = 0" "code b div 64 mod 4 = code b div 64"
    by simp_all
qed

lemma b64_groups_encode: "b64_groups (b64encode s) = Some s"
proof (induction s rule: b64encode.induct)
  case (4 a b c s)
  then show ?case by (simp add: b64_value_char(1) b64_parts b64_high)
qed (simp_all add: b64_value_char(1) b64_parts b64_value_pad b64_high)

lemma b64encode_alphabet: "\<forall>x \<in> set (b64encode s). x \<in> set b64_alphabet \<or> x = CHR ''=''"
  by (induction s rule: b64encode.induct) (simp_all add: b64_value_char(2) b64_parts)

lemma b64decode_encode: "b64decode (b64encode s) = Some s"
  using b64encode_alphabet [of s] by (simp add: b64decode_def b64_groups_encode filter_id_conv)

section \<open>The middleware\<close>

definition MAX_STORED_BODY :: nat where "MAX_STORED_BODY = 1024 * 1024"
definition EXCLUDED_PATHS :: "string list" where "EXCLUDED_PATHS = [''/oauth/token'', ''/auth/dev-token'']"
definition REPLAYED_RESPONSE_HEADERS :: "string list" where "REPLAYED_RESPONSE_HEADERS = [''content-type'', ''location'', ''etag'']"

definition key_pattern :: "string \<Rightarrow> bool" where
  "key_pattern k \<longleftrightarrow> 1 \<le> length k \<and> length k \<le> 255 \<and> (\<forall>c \<in> set k. 33 \<le> code c \<and> code c \<le> 126)"

text \<open>What the client sends: the headers the middleware reads and the body in chunks.\<close>

datatype receive_message = Disconnect | RequestBody string bool

record http_request =
  hq_http :: bool
  hq_method :: string
  hq_path :: string
  hq_query :: string
  hq_key :: "string option"
  hq_authorization :: "string option"
  hq_user_id :: "string option"
  hq_messages :: "receive_message list"

text \<open>The messages end with a disconnect at the latest.\<close>

fun read_body :: "receive_message list \<Rightarrow> string" where
  "read_body [] = []"
| "read_body (Disconnect # ms) = []"
| "read_body (RequestBody chunk more_body # ms) = chunk @ (if more_body then read_body ms else [])"

record token_claims =
  tc_user_id :: uuid
  tc_agent_client_id :: "uuid option"

text \<open>The settings; \<open>None\<close> of \<open>ie_verify\<close> is an InvalidTokenError and of \<open>ie_uuid\<close> a ValueError.\<close>

record idem_env =
  ie_verify :: "string \<Rightarrow> token_claims option"
  ie_uuid :: "string \<Rightarrow> uuid option"
  ie_allow_header_auth :: bool
  ie_ttl :: rat
  ie_lock :: rat

definition subject :: "idem_env \<Rightarrow> http_request \<Rightarrow> string option" where
  "subject env rq = (case hq_authorization rq of
      Some (c # cs) \<Rightarrow>
        (let scheme = takeWhile (\<lambda>x. x \<noteq> CHR '' '') (c # cs); token = drop (Suc (length scheme)) (c # cs) in
         if lower scheme \<noteq> ''bearer'' \<or> token = [] then None
         else (case ie_verify env (strip token) of None \<Rightarrow> None
           | Some claims \<Rightarrow> Some (case tc_agent_client_id claims of
               Some a \<Rightarrow> ''agent:'' @ uuid_str a | None \<Rightarrow> ''user:'' @ uuid_str (tc_user_id claims))))
    | _ \<Rightarrow> (case hq_user_id rq of
        Some (c # cs) \<Rightarrow> if ie_allow_header_auth env then map_option (\<lambda>u. ''user:'' @ uuid_str u) (ie_uuid env (c # cs)) else None
      | _ \<Rightarrow> None))"

definition request_fingerprint :: "runtime \<Rightarrow> http_request \<Rightarrow> string" where
  "request_fingerprint R rq = sha256 R (join [char_of (0::nat)] [hq_method rq, hq_path rq, hq_query rq, read_body (hq_messages rq)])"

definition idem_key :: "runtime \<Rightarrow> string \<Rightarrow> string \<Rightarrow> string" where
  "idem_key R subj raw_key = ''cl:idempotency:'' @ sha256 R (subj @ [char_of (0::nat)] @ raw_key)"

definition pending_record :: "string \<Rightarrow> pyval" where
  "pending_record fp = PDict [(''state'', PStr ''pending''), (''fingerprint'', PStr fp)]"

record http_response =
  rs_status :: int
  rs_headers :: "(string \<times> string) list"
  rs_body :: string

definition done_record :: "string \<Rightarrow> http_response \<Rightarrow> pyval" where
  "done_record fp r = PDict [(''state'', PStr ''done''), (''fingerprint'', PStr fp), (''status'', PInt (rs_status r)),
     (''headers'', PList (map (\<lambda>(k, v). PList [PStr k, PStr v]) (rs_headers r))), (''body'', PStr (b64encode (rs_body r)))]"

datatype reply = ProblemReply int string | Replay http_response

text \<open>
  The rest of a request is one of: the endpoint runs without protection, it is answered here,
  or the key is reserved and the endpoint runs.
\<close>

datatype begun = Unprotected | Answered reply | Reserved string string

text \<open>\<^verbatim>\<open>record["status"]\<close> and the like on a stored record; a record of another shape raises.\<close>

definition get_item :: "pyval \<Rightarrow> string \<Rightarrow> pyval result" where
  "get_item v k = (case v of PDict kvs \<Rightarrow> some_or (map_of kvs k) (PyError ''KeyError'') | _ \<Rightarrow> Inl (PyError ''TypeError''))"

definition header_pair :: "pyval \<Rightarrow> (string \<times> string) result" where
  "header_pair v = (case v of PList [PStr k, PStr w] \<Rightarrow> Inr (k, w) | _ \<Rightarrow> Inl (PyError ''ValueError''))"

definition stored_response :: "pyval \<Rightarrow> http_response result" where
  "stored_response v = bindr (get_item v ''headers'') (\<lambda>hs.
     bindr (case hs of PList xs \<Rightarrow> mapr header_pair xs | _ \<Rightarrow> Inl (PyError ''TypeError'')) (\<lambda>headers.
     bindr (get_item v ''status'') (\<lambda>st.
     bindr (get_item v ''body'') (\<lambda>bd.
     (case (st, bd) of
        (PInt status, PStr b) \<Rightarrow> bindr (some_or (b64decode b) (PyError ''binascii.Error'')) (\<lambda>content.
          Inr \<lparr>rs_status = status, rs_headers = headers @ [(''idempotent-replayed'', ''true'')], rs_body = content\<rparr>)
      | _ \<Rightarrow> Inl (PyError ''TypeError''))))))"

definition answer_existing :: "string option \<Rightarrow> string \<Rightarrow> reply result" where
  "answer_existing existing fp =
     bindr (case existing of None \<Rightarrow> Inr (PDict []) | Some raw \<Rightarrow> some_or (json_loads raw) (PyError ''JSONDecodeError'')) (\<lambda>v.
     bindr (if v = PDict [] then Inr (PStr fp) else get_item v ''fingerprint'') (\<lambda>stored.
     if stored \<noteq> PStr fp then Inr (ProblemReply 422 ''idempotency_key_reused'')
     else if (case v of PDict kvs \<Rightarrow> map_of kvs ''state'' | _ \<Rightarrow> None) \<noteq> Some (PStr ''done'')
       then Inr (ProblemReply 409 ''idempotency_key_in_use'')
     else bindr (stored_response v) (\<lambda>r. Inr (Replay r))))"

definition reserve :: "'s kv_ops \<Rightarrow> runtime \<Rightarrow> idem_env \<Rightarrow> rat \<Rightarrow> string \<Rightarrow> string \<Rightarrow> ('s, begun) io" where
  "reserve K R env now store_key fp =
     thens (py_dumps R False (pending_record fp)) (\<lambda>pending.
     thens (except_unavailable
       (thens (kv_set K now store_key pending (ie_lock env) True) (\<lambda>reserved.
        if reserved then returns (Some None) else thens (kv_get K now store_key) (\<lambda>existing. returns (Some (Some existing)))))
       (returns None)) (\<lambda>outcome.
     (case outcome of
        None \<Rightarrow> returns (Answered (ProblemReply 503 ''service_unavailable''))
      | Some None \<Rightarrow> returns (Reserved store_key fp)
      | Some (Some existing) \<Rightarrow> (case answer_existing existing fp of Inl e \<Rightarrow> raises e | Inr r \<Rightarrow> returns (Answered r)))))"

definition ends_with :: "string \<Rightarrow> string \<Rightarrow> bool" where
  "ends_with s p \<longleftrightarrow> length p \<le> length s \<and> drop (length s - length p) s = p"

definition begin_request :: "'s kv_ops \<Rightarrow> runtime \<Rightarrow> idem_env \<Rightarrow> rat \<Rightarrow> http_request \<Rightarrow> ('s, begun) io" where
  "begin_request K R env now rq =
     (if \<not> hq_http rq \<or> hq_method rq \<noteq> ''POST'' then returns Unprotected
      else (case hq_key rq of
          None \<Rightarrow> returns Unprotected
        | Some raw_key \<Rightarrow>
            if list_ex (ends_with (hq_path rq)) EXCLUDED_PATHS then returns Unprotected
            else if \<not> key_pattern raw_key then returns (Answered (ProblemReply 400 ''idempotency_key_invalid''))
            else (case subject env rq of
                None \<Rightarrow> returns Unprotected
              | Some subj \<Rightarrow> reserve K R env now (idem_key R subj raw_key) (request_fingerprint R rq))))"

text \<open>The messages of the endpoint, as \<^verbatim>\<open>capture\<close> collects them while they are sent on.\<close>

datatype send_message = ResponseStart int "(string \<times> string) list" | ResponseBody string

record captured_response =
  cr_status :: int
  cr_headers :: "(string \<times> string) list"
  cr_chunks :: "string list"
  cr_size :: nat

fun capture_message :: "send_message \<Rightarrow> captured_response \<Rightarrow> captured_response" where
  "capture_message (ResponseStart status headers) c = c\<lparr>cr_status := status, cr_headers := cr_headers c @
     map (\<lambda>(n, v). (lower n, v)) (filter (\<lambda>(n, v). lower n \<in> set REPLAYED_RESPONSE_HEADERS) headers)\<rparr>"
| "capture_message (ResponseBody chunk) c = (let size = cr_size c + length chunk in
     c\<lparr>cr_size := size, cr_chunks := (if size \<le> MAX_STORED_BODY then cr_chunks c @ [chunk] else cr_chunks c)\<rparr>)"

definition capture_all :: "send_message list \<Rightarrow> captured_response" where
  "capture_all ms = fold capture_message ms \<lparr>cr_status = 500, cr_headers = [], cr_chunks = [], cr_size = 0\<rparr>"

definition release :: "'s kv_ops \<Rightarrow> rat \<Rightarrow> string \<Rightarrow> ('s, unit) io" where
  "release K now store_key = except_unavailable (kv_delete K now store_key) (returns ())"

text \<open>The endpoint raised (\<open>None\<close>) or sent its messages.\<close>

definition stores :: "send_message list option \<Rightarrow> http_response option" where
  "stores run = (case run of None \<Rightarrow> None | Some ms \<Rightarrow> (let c = capture_all ms in
     if \<not> (200 \<le> cr_status c \<and> cr_status c < 300) \<or> MAX_STORED_BODY < cr_size c then None
     else Some \<lparr>rs_status = cr_status c, rs_headers = cr_headers c, rs_body = concat (cr_chunks c)\<rparr>))"

definition finish_request :: "'s kv_ops \<Rightarrow> runtime \<Rightarrow> idem_env \<Rightarrow> rat \<Rightarrow> string \<Rightarrow> string \<Rightarrow> send_message list option \<Rightarrow> ('s, unit) io" where
  "finish_request K R env now store_key fp run = (case stores run of
      None \<Rightarrow> release K now store_key
    | Some r \<Rightarrow> thens (py_dumps R False (done_record fp r)) (\<lambda>text.
        except_unavailable (thens (kv_set K now store_key text (ie_ttl env) False) (\<lambda>_. returns ())) (returns ())))"

section \<open>Interleaved requests\<close>

text \<open>
  The store, the clock, the requests whose endpoint is running (their key, fingerprint and
  start) and, for the statements, the responses that were stored and when.
\<close>

record 's idem_state =
  st_store :: 's
  st_now :: rat
  st_running :: "(string \<times> string \<times> rat) list"
  st_done :: "(string \<times> string \<times> http_response \<times> rat) list"

text \<open>No running request has outlived its reservation.\<close>

definition in_time :: "idem_env \<Rightarrow> 's idem_state \<Rightarrow> rat \<Rightarrow> bool" where
  "in_time env st t \<longleftrightarrow> st_now st \<le> t \<and> (\<forall>(k, fp, t0) \<in> set (st_running st). t < t0 + ie_lock env)"

inductive idem_step :: "'s kv_ops \<Rightarrow> ('s \<Rightarrow> rat \<Rightarrow> string \<rightharpoonup> string \<times> rat) \<Rightarrow> runtime \<Rightarrow> idem_env \<Rightarrow> 's idem_state \<Rightarrow> 's idem_state \<Rightarrow> bool"
  for K view R env where
  start: "\<lbrakk>in_time env st t; begin_request K R env t rq (st_store st) = (Inr (Reserved k fp), s')\<rbrakk> \<Longrightarrow>
    idem_step K view R env st (st\<lparr>st_store := s', st_now := t, st_running := (k, fp, t) # st_running st\<rparr>)"
| answer: "\<lbrakk>in_time env st t; begin_request K R env t rq (st_store st) = (r, s'); \<forall>k fp. r \<noteq> Inr (Reserved k fp)\<rbrakk> \<Longrightarrow>
    idem_step K view R env st (st\<lparr>st_store := s', st_now := t\<rparr>)"
| finish: "\<lbrakk>in_time env st t; (k, fp, t0) \<in> set (st_running st); finish_request K R env t k fp run (st_store st) = (r, s')\<rbrakk> \<Longrightarrow>
    idem_step K view R env st (st\<lparr>st_store := s', st_now := t, st_running := remove1 (k, fp, t0) (st_running st),
      st_done := (case stores run of None \<Rightarrow> st_done st | Some resp \<Rightarrow> (k, fp, resp, t) # st_done st)\<rparr>)"
| other_client: "\<lbrakk>in_time env st t; \<forall>t' \<ge> t. \<forall>k. view s' t' (''cl:idempotency:'' @ k) = view (st_store st) t' (''cl:idempotency:'' @ k)\<rbrakk> \<Longrightarrow>
    idem_step K view R env st (st\<lparr>st_store := s', st_now := t\<rparr>)"

text \<open>What the middleware writes is read back.\<close>

definition printed :: "runtime \<Rightarrow> pyval \<Rightarrow> string" where
  "printed R v = the (json_dumps (dumps_opts False) (float_repr R) v)"

lemma json_canon_unsorted: "json_canon (dumps_opts False) v = v"
  by (induction v) (auto simp: dumps_opts_def intro!: map_idI simp flip: snds.intros)

lemma printed_reads:
  assumes "json_dumps (dumps_opts False) (float_repr R) v \<noteq> None" and "json_value (float_repr R) v"
  shows "json_dumps (dumps_opts False) (float_repr R) v = Some (printed R v)" "json_loads (printed R v) = Some v"
proof -
  show d: "json_dumps (dumps_opts False) (float_repr R) v = Some (printed R v)" using assms(1) by (auto simp: printed_def)
  have "plain_seps (dumps_opts False)" by (simp add: plain_seps_def dumps_opts_def)
  then show "json_loads (printed R v) = Some v" using loads_dumps [OF _ assms(2) d] json_canon_unsorted by simp
qed

lemma those_map_not_None: "(\<And>x. x \<in> set xs \<Longrightarrow> f x \<noteq> None) \<Longrightarrow> those (map f xs) \<noteq> None"
  by (induction xs) (auto split: option.splits)

lemma pending_printed:
  "json_dumps (dumps_opts False) (float_repr R) (pending_record fp) = Some (printed R (pending_record fp))"
  "json_loads (printed R (pending_record fp)) = Some (pending_record fp)"
  by (rule printed_reads; simp add: pending_record_def)+

lemma done_printed:
  "json_dumps (dumps_opts False) (float_repr R) (done_record fp r) = Some (printed R (done_record fp r))"
  "json_loads (printed R (done_record fp r)) = Some (done_record fp r)"
proof -
  have "those (map (json_dumps (dumps_opts False) (float_repr R)) (map (\<lambda>(k, v). PList [PStr k, PStr v]) (rs_headers r))) \<noteq> None"
    by (rule those_map_not_None) auto
  then have d: "json_dumps (dumps_opts False) (float_repr R) (done_record fp r) \<noteq> None" by (auto simp: done_record_def)
  have v: "json_value (float_repr R) (done_record fp r)" by (auto simp: done_record_def)
  show "json_dumps (dumps_opts False) (float_repr R) (done_record fp r) = Some (printed R (done_record fp r))"
    "json_loads (printed R (done_record fp r)) = Some (done_record fp r)" by (rule printed_reads [OF d v])+
qed

definition replayed :: "http_response \<Rightarrow> http_response" where
  "replayed r = r\<lparr>rs_headers := rs_headers r @ [(''idempotent-replayed'', ''true'')]\<rparr>"

lemma answer_pending: "answer_existing (Some (printed R (pending_record fp'))) fp =
   Inr (if fp = fp' then ProblemReply 409 ''idempotency_key_in_use'' else ProblemReply 422 ''idempotency_key_reused'')"
  by (simp add: answer_existing_def pending_printed(2)) (auto simp: pending_record_def get_item_def)

lemma mapr_header_pair: "mapr header_pair (map (\<lambda>(k, v). PList [PStr k, PStr v]) hs) = Inr hs"
  by (induction hs) (auto simp: header_pair_def)

lemma answer_done: "answer_existing (Some (printed R (done_record fp' r))) fp =
   Inr (if fp = fp' then Replay (replayed r) else ProblemReply 422 ''idempotency_key_reused'')"
proof -
  have "stored_response (done_record fp' r) = Inr (replayed r)"
    by (simp add: stored_response_def done_record_def get_item_def mapr_header_pair b64decode_encode replayed_def)
  then show ?thesis by (simp add: answer_existing_def done_printed(2)) (auto simp: done_record_def get_item_def)
qed

context reliable_kv_store
begin

lemma reserve_cases:
  assumes "reserve K R env t k fp s = (r, s')"
  shows "case view s t k of
      None \<Rightarrow> r = Inr (Reserved k fp) \<and> (\<forall>t' \<ge> t. view s' t' = (view s t')(k := entry_at t' (printed R (pending_record fp), t + ie_lock env)))
    | Some (raw, e) \<Rightarrow> r = map_sum id Answered (answer_existing (Some raw) fp) \<and> (\<forall>t' \<ge> t. view s' t' = view s t')"
proof -
  obtain w s1 where set: "kv_set K t k (printed R (pending_record fp)) (ie_lock env) True s = (Inr w, s1)" using set_total by blast
  note sl = set_law [OF set]
  show ?thesis
  proof (cases "view s t k")
    case None
    then show ?thesis using assms set sl
      by (simp add: reserve_def py_dumps_def pending_printed thens_def returns_def except_unavailable_def)
  next
    case (Some re)
    obtain raw e where re: "re = (raw, e)" by (cases re)
    obtain x s2 where g: "kv_get K t k s1 = (Inr x, s2)" using get_total by blast
    have "x = Some raw" "\<forall>t' \<ge> t. view s2 t' = view s t'" using get_law [OF g] sl Some re by simp_all
    then show ?thesis using assms set sl Some re g
      by (cases "answer_existing (Some raw) fp")
        (simp_all add: reserve_def py_dumps_def pending_printed thens_def returns_def raises_def except_unavailable_def)
  qed
qed

lemma finish_view:
  assumes "finish_request K R env t k fp run s = (r, s')" and "t \<le> t'"
  shows "view s' t' = (view s t')(k := (case stores run of None \<Rightarrow> None | Some resp \<Rightarrow> entry_at t' (printed R (done_record fp resp), t + ie_ttl env)))"
proof (cases "stores run")
  case None
  obtain s1 where d: "kv_delete K t k s = (Inr (), s1)" using delete_total by blast
  then show ?thesis using assms None delete_law [OF d] by (simp add: finish_request_def release_def except_unavailable_def)
next
  case (Some resp)
  obtain w s1 where set: "kv_set K t k (printed R (done_record fp resp)) (ie_ttl env) False s = (Inr w, s1)" using set_total by blast
  then show ?thesis using assms Some set_law [OF set]
    by (simp add: finish_request_def py_dumps_def done_printed thens_def returns_def except_unavailable_def)
qed

end

text \<open>The middleware protects the request under the key.\<close>

definition protected :: "runtime \<Rightarrow> idem_env \<Rightarrow> http_request \<Rightarrow> string \<Rightarrow> bool" where
  "protected R env rq k \<longleftrightarrow> hq_http rq \<and> hq_method rq = ''POST'' \<and> \<not> list_ex (ends_with (hq_path rq)) EXCLUDED_PATHS \<and>
     (case hq_key rq of None \<Rightarrow> False | Some raw_key \<Rightarrow> key_pattern raw_key \<and>
       (case subject env rq of None \<Rightarrow> False | Some subj \<Rightarrow> k = idem_key R subj raw_key))"

lemma begin_protected: "protected R env rq k \<Longrightarrow> begin_request K R env t rq = reserve K R env t k (request_fingerprint R rq)"
  by (auto simp: protected_def begin_request_def split: option.splits)

lemma begin_cases:
  "(\<exists>k. protected R env rq k) \<or> (\<exists>r. begin_request K R env t rq = returns r \<and> (\<forall>k fp. r \<noteq> Reserved k fp))"
  by (cases "hq_http rq \<and> hq_method rq = ''POST'' \<and> \<not> list_ex (ends_with (hq_path rq)) EXCLUDED_PATHS"; cases "hq_key rq"; cases "subject env rq")
    (auto simp: protected_def begin_request_def)

definition idem_name :: "string \<Rightarrow> bool" where
  "idem_name k \<longleftrightarrow> (\<exists>j. k = ''cl:idempotency:'' @ j)"

lemma protected_key: "protected R env rq k \<Longrightarrow> idem_name k"
  by (auto simp: protected_def idem_key_def idem_name_def split: option.splits)

text \<open>
  The invariant: one running request per key, whose reservation is in the store until it
  expires; a stored response is in the store until it expires, and its key is not running.
\<close>

definition holds_pending :: "('s \<Rightarrow> rat \<Rightarrow> string \<rightharpoonup> string \<times> rat) \<Rightarrow> runtime \<Rightarrow> idem_env \<Rightarrow> 's \<Rightarrow> rat \<Rightarrow> string \<times> string \<times> rat \<Rightarrow> bool" where
  "holds_pending view R env s now x \<longleftrightarrow> (case x of (k, fp, t0) \<Rightarrow> idem_name k \<and>
     (\<forall>t \<ge> now. view s t k = entry_at t (printed R (pending_record fp), t0 + ie_lock env)))"

definition holds_done ::
  "('s \<Rightarrow> rat \<Rightarrow> string \<rightharpoonup> string \<times> rat) \<Rightarrow> runtime \<Rightarrow> idem_env \<Rightarrow> 's \<Rightarrow> rat \<Rightarrow> string set \<Rightarrow> string \<times> string \<times> http_response \<times> rat \<Rightarrow> bool" where
  "holds_done view R env s now running x \<longleftrightarrow> (case x of (k, fp, resp, t1) \<Rightarrow> now < t1 + ie_ttl env \<longrightarrow> idem_name k \<and> k \<notin> running \<and>
     (\<forall>t \<ge> now. view s t k = entry_at t (printed R (done_record fp resp), t1 + ie_ttl env)))"

definition idem_inv :: "('s \<Rightarrow> rat \<Rightarrow> string \<rightharpoonup> string \<times> rat) \<Rightarrow> runtime \<Rightarrow> idem_env \<Rightarrow> 's idem_state \<Rightarrow> bool" where
  "idem_inv view R env st \<longleftrightarrow> distinct (map fst (st_running st)) \<and>
     (\<forall>x \<in> set (st_running st). holds_pending view R env (st_store st) (st_now st) x) \<and>
     (\<forall>x \<in> set (st_done st). holds_done view R env (st_store st) (st_now st) (fst ` set (st_running st)) x)"

lemma holds_pending_frame:
  assumes "holds_pending view R env s now x" and "now \<le> t" and "\<And>t'. t \<le> t' \<Longrightarrow> idem_name (fst x) \<Longrightarrow> view s' t' (fst x) = view s t' (fst x)"
  shows "holds_pending view R env s' t x"
  using assms unfolding holds_pending_def by (cases x) auto

lemma holds_done_frame:
  assumes "holds_done view R env s now rs x" and "now \<le> t" and "\<And>t'. t \<le> t' \<Longrightarrow> idem_name (fst x) \<Longrightarrow> t < snd (snd (snd x)) + ie_ttl env \<Longrightarrow> view s' t' (fst x) = view s t' (fst x)"
    and "t < snd (snd (snd x)) + ie_ttl env \<Longrightarrow> fst x \<in> rs' \<Longrightarrow> fst x \<in> rs"
  shows "holds_done view R env s' t rs' x"
  using assms unfolding holds_done_def by (cases x) auto

context reliable_kv_store
begin

text \<open>The keys of running and of stored requests are taken.\<close>

lemma taken_keys:
  assumes inv: "idem_inv view R env st" and t: "in_time env st t"
  shows "(k, fp, t0) \<in> set (st_running st) \<Longrightarrow> view (st_store st) t k = Some (printed R (pending_record fp), t0 + ie_lock env)"
    and "(k, fp, resp, t1) \<in> set (st_done st) \<Longrightarrow> t < t1 + ie_ttl env \<Longrightarrow>
      k \<notin> fst ` set (st_running st) \<and> view (st_store st) t k = Some (printed R (done_record fp resp), t1 + ie_ttl env)"
proof -
  have now: "st_now st \<le> t" using t by (simp add: in_time_def)
  show "view (st_store st) t k = Some (printed R (pending_record fp), t0 + ie_lock env)" if "(k, fp, t0) \<in> set (st_running st)"
  proof -
    have "t < t0 + ie_lock env" using t that by (auto simp: in_time_def)
    moreover have "holds_pending view R env (st_store st) (st_now st) (k, fp, t0)" using inv that unfolding idem_inv_def by blast
    ultimately show ?thesis using now by (simp add: entry_at_simps holds_pending_def)
  qed
  show "k \<notin> fst ` set (st_running st) \<and> view (st_store st) t k = Some (printed R (done_record fp resp), t1 + ie_ttl env)"
    if "(k, fp, resp, t1) \<in> set (st_done st)" "t < t1 + ie_ttl env"
  proof -
    have "holds_done view R env (st_store st) (st_now st) (fst ` set (st_running st)) (k, fp, resp, t1)" using inv that unfolding idem_inv_def by blast
    then show ?thesis using now that(2) by (simp add: entry_at_simps holds_done_def)
  qed
qed

lemma start_keeps:
  assumes inv: "idem_inv view R env st" and t: "in_time env st t" and run: "begin_request K R env t rq (st_store st) = (Inr (Reserved k fp), s')"
  shows "idem_inv view R env (st\<lparr>st_store := s', st_now := t, st_running := (k, fp, t) # st_running st\<rparr>)"
proof -
  have now: "st_now st \<le> t" using t by (simp add: in_time_def)
  obtain k' where p: "protected R env rq k'" using begin_cases [of R env rq K t] run by (auto simp: returns_def)
  have res: "reserve K R env t k' (request_fingerprint R rq) (st_store st) = (Inr (Reserved k fp), s')" using run begin_protected [OF p] by metis
  have free: "view (st_store st) t k' = None"
    using reserve_cases [OF res] by (auto split: option.splits sum.splits simp: map_sum_def)
  then have k: "k' = k" and v: "\<forall>t' \<ge> t. view s' t' = (view (st_store st) t')(k := entry_at t' (printed R (pending_record fp), t + ie_lock env))"
    using reserve_cases [OF res] by auto
  have fresh: "k \<notin> fst ` set (st_running st)" using taken_keys(1) [OF inv t] free k by force
  have other: "k \<noteq> fst x" if "x \<in> set (st_done st)" "t < snd (snd (snd x)) + ie_ttl env" for x
    using taken_keys(2) [OF inv t] free k that by (cases x) auto
  have "holds_pending view R env s' t (k, fp, t)" using v protected_key [OF p] k by (simp add: holds_pending_def)
  moreover have "holds_pending view R env s' t x" if "x \<in> set (st_running st)" for x
  proof (rule holds_pending_frame [OF _ now])
    show "holds_pending view R env (st_store st) (st_now st) x" using inv that unfolding idem_inv_def by blast
    show "view s' t' (fst x) = view (st_store st) t' (fst x)" if "t \<le> t'" for t' using v that fresh \<open>x \<in> set (st_running st)\<close> by auto
  qed
  moreover have "holds_done view R env s' t (insert k (fst ` set (st_running st))) x" if "x \<in> set (st_done st)" for x
  proof (rule holds_done_frame [OF _ now])
    show "holds_done view R env (st_store st) (st_now st) (fst ` set (st_running st)) x" using inv that unfolding idem_inv_def by blast
    show "view s' t' (fst x) = view (st_store st) t' (fst x)" if "t \<le> t'" "t < snd (snd (snd x)) + ie_ttl env" for t'
      using v that other [OF \<open>x \<in> set (st_done st)\<close> that(2)] by simp
    show "fst x \<in> fst ` set (st_running st)" if "t < snd (snd (snd x)) + ie_ttl env" "fst x \<in> insert k (fst ` set (st_running st))"
      using other [OF \<open>x \<in> set (st_done st)\<close> that(1)] that(2) by auto
  qed
  ultimately show ?thesis using inv fresh unfolding idem_inv_def by simp
qed

lemma same_view_keeps:
  assumes inv: "idem_inv view R env st" and t: "in_time env st t"
    and v: "\<And>t' k. t \<le> t' \<Longrightarrow> idem_name k \<Longrightarrow> view s' t' k = view (st_store st) t' k"
  shows "idem_inv view R env (st\<lparr>st_store := s', st_now := t\<rparr>)"
proof -
  have now: "st_now st \<le> t" using t by (simp add: in_time_def)
  have "holds_pending view R env s' t x" if "x \<in> set (st_running st)" for x
    by (rule holds_pending_frame [OF _ now]) (use inv that v in \<open>auto simp: idem_inv_def\<close>)
  moreover have "holds_done view R env s' t (fst ` set (st_running st)) x" if "x \<in> set (st_done st)" for x
    by (rule holds_done_frame [OF _ now]) (use inv that v in \<open>auto simp: idem_inv_def\<close>)
  ultimately show ?thesis using inv unfolding idem_inv_def by simp
qed

lemma answer_keeps:
  assumes inv: "idem_inv view R env st" and t: "in_time env st t" and run: "begin_request K R env t rq (st_store st) = (r, s')"
    and no: "\<forall>k fp. r \<noteq> Inr (Reserved k fp)"
  shows "idem_inv view R env (st\<lparr>st_store := s', st_now := t\<rparr>)"
proof (rule same_view_keeps [OF inv t])
  fix t' k assume "t \<le> t'"
  show "view s' t' k = view (st_store st) t' k"
  proof (cases "\<exists>k'. protected R env rq k'")
    case True
    then obtain k' where p: "protected R env rq k'" by blast
    have res: "reserve K R env t k' (request_fingerprint R rq) (st_store st) = (r, s')" using run begin_protected [OF p] by metis
    then show ?thesis using reserve_cases [OF res] no \<open>t \<le> t'\<close> by (auto split: option.splits)
  next
    case False
    then show ?thesis using begin_cases [of R env rq K t] run by (auto simp: returns_def)
  qed
qed

lemma finish_keeps:
  assumes inv: "idem_inv view R env st" and t: "in_time env st t" and r0: "(k, fp, t0) \<in> set (st_running st)"
    and run: "finish_request K R env t k fp app (st_store st) = (r, s')"
  shows "idem_inv view R env (st\<lparr>st_store := s', st_now := t, st_running := remove1 (k, fp, t0) (st_running st),
      st_done := (case stores app of None \<Rightarrow> st_done st | Some resp \<Rightarrow> (k, fp, resp, t) # st_done st)\<rparr>)"
proof -
  have now: "st_now st \<le> t" using t by (simp add: in_time_def)
  note v = finish_view [OF run]
  have d: "distinct (map fst (st_running st))" using inv by (simp add: idem_inv_def)
  then have "distinct (st_running st)" by (simp add: distinct_map)
  then have rest: "set (remove1 (k, fp, t0) (st_running st)) = set (st_running st) - {(k, fp, t0)}" by (simp add: set_remove1_eq)
  have gone: "fst x \<noteq> k" if "x \<in> set (remove1 (k, fp, t0) (st_running st))" for x
    using d r0 that unfolding rest distinct_map by (metis DiffD1 DiffD2 fst_conv inj_onD insertCI)
  have other: "fst x \<noteq> k" if "x \<in> set (st_done st)" "t < snd (snd (snd x)) + ie_ttl env" for x
    using taken_keys(2) [OF inv t, of "fst x"] r0 that by (cases x) force
  have "idem_name k" using inv r0 by (auto simp: idem_inv_def holds_pending_def)
  then have new: "holds_done view R env s' t (fst ` set (remove1 (k, fp, t0) (st_running st))) (k, fp, resp, t)" if "stores app = Some resp" for resp
    using v that gone by (auto simp: holds_done_def)
  have "holds_pending view R env s' t x" if "x \<in> set (remove1 (k, fp, t0) (st_running st))" for x
  proof (rule holds_pending_frame [OF _ now])
    show "holds_pending view R env (st_store st) (st_now st) x" using inv that unfolding idem_inv_def rest by blast
    show "view s' t' (fst x) = view (st_store st) t' (fst x)" if "t \<le> t'" for t' using v [OF that] gone [OF \<open>x \<in> set (remove1 _ _)\<close>] by simp
  qed
  moreover have "holds_done view R env s' t (fst ` set (remove1 (k, fp, t0) (st_running st))) x" if "x \<in> set (st_done st)" for x
  proof (rule holds_done_frame [OF _ now])
    show "holds_done view R env (st_store st) (st_now st) (fst ` set (st_running st)) x" using inv that unfolding idem_inv_def by blast
    show "view s' t' (fst x) = view (st_store st) t' (fst x)" if "t \<le> t'" "t < snd (snd (snd x)) + ie_ttl env" for t'
      using v [OF that(1)] other [OF \<open>x \<in> set (st_done st)\<close> that(2)] by simp
  qed (auto simp: rest)
  moreover have "distinct (map fst (remove1 (k, fp, t0) (st_running st)))"
    using d \<open>distinct (st_running st)\<close> unfolding distinct_map rest by (auto intro: inj_on_subset)
  ultimately show ?thesis using new unfolding idem_inv_def by (auto split: option.splits)
qed

lemma idem_step_keeps: "idem_step K view R env st st' \<Longrightarrow> idem_inv view R env st \<Longrightarrow> idem_inv view R env st'"
proof (induction rule: idem_step.induct)
  case (other_client st t s')
  then show ?case by (intro same_view_keeps) (auto simp: idem_name_def)
qed (blast intro: start_keeps answer_keeps finish_keeps)+

lemma idem_reachable_inv: "(idem_step K view R env)\<^sup>*\<^sup>* st st' \<Longrightarrow> idem_inv view R env st \<Longrightarrow> idem_inv view R env st'"
  by (induction rule: rtranclp_induct) (auto intro: idem_step_keeps)

lemma taken_key_answered:
  assumes inv: "idem_inv view R env st" and t: "in_time env st t" and p: "protected R env rq k"
  shows "(k, fp, t0) \<in> set (st_running st) \<Longrightarrow> fst (begin_request K R env t rq (st_store st)) = Inr (Answered
       (if request_fingerprint R rq = fp then ProblemReply 409 ''idempotency_key_in_use'' else ProblemReply 422 ''idempotency_key_reused''))"
    and "(k, fp, resp, t1) \<in> set (st_done st) \<Longrightarrow> t < t1 + ie_ttl env \<Longrightarrow> fst (begin_request K R env t rq (st_store st)) = Inr (Answered
       (if request_fingerprint R rq = fp then Replay (replayed resp) else ProblemReply 422 ''idempotency_key_reused''))"
proof -
  obtain r s' where res: "reserve K R env t k (request_fingerprint R rq) (st_store st) = (r, s')" by (cases "reserve K R env t k (request_fingerprint R rq) (st_store st)")
  then have b: "begin_request K R env t rq (st_store st) = (r, s')" using begin_protected [OF p] by metis
  show "fst (begin_request K R env t rq (st_store st)) = Inr (Answered
       (if request_fingerprint R rq = fp then ProblemReply 409 ''idempotency_key_in_use'' else ProblemReply 422 ''idempotency_key_reused''))"
    if "(k, fp, t0) \<in> set (st_running st)"
    using reserve_cases [OF res] taken_keys(1) [OF inv t that] unfolding b by (simp add: answer_pending)
  show "fst (begin_request K R env t rq (st_store st)) = Inr (Answered
       (if request_fingerprint R rq = fp then Replay (replayed resp) else ProblemReply 422 ''idempotency_key_reused''))"
    if "(k, fp, resp, t1) \<in> set (st_done st)" "t < t1 + ie_ttl env"
    using reserve_cases [OF res] taken_keys(2) [OF inv t that] unfolding b by (simp add: answer_done)
qed

end

section \<open>Properties\<close>


text \<open>Witness: a request that runs from 0 to 2 and its retries at 1 and at 3.\<close>

definition retry_runtime :: runtime where
  "retry_runtime = \<lparr>sha256 = (\<lambda>s. s), float_repr = (\<lambda>r. ''0.5''), decimal_str = (\<lambda>d. ''0.5'')\<rparr>"

definition retry_env :: idem_env where
  "retry_env = \<lparr>ie_verify = (\<lambda>_. Some \<lparr>tc_user_id = 1, tc_agent_client_id = None\<rparr>), ie_uuid = (\<lambda>_. None),
     ie_allow_header_auth = False, ie_ttl = 100, ie_lock = 60\<rparr>"

definition retry_request :: http_request where
  "retry_request = \<lparr>hq_http = True, hq_method = ''POST'', hq_path = ''/facts'', hq_query = [], hq_key = Some ''k1'',
     hq_authorization = Some ''Bearer t'', hq_user_id = None, hq_messages = []\<rparr>"

definition retry_messages :: "send_message list" where
  "retry_messages = [ResponseStart 201 [(''Location'', ''/facts/1'')], ResponseBody ''ok'']"

lemma retry_protected: "protected retry_runtime retry_env retry_request (''cl:idempotency:'' @ (''user:'' @ uuid_str 1) @ [char_of (0::nat)] @ ''k1'')"
proof -
  have low: "lower ''Bearer'' = ''bearer''" by code_simp
  have "subject retry_env retry_request = Some (''user:'' @ uuid_str 1)" by (simp add: subject_def retry_request_def retry_env_def Let_def low)
  moreover have "\<not> list_ex (ends_with (hq_path retry_request)) EXCLUDED_PATHS" "key_pattern ''k1''"
    by (simp_all add: retry_request_def ends_with_def EXCLUDED_PATHS_def key_pattern_def)
  ultimately show ?thesis by (simp add: protected_def retry_request_def retry_runtime_def idem_key_def)
qed

lemma retry_stores: "stores (Some retry_messages) = Some \<lparr>rs_status = 201, rs_headers = [(''location'', ''/facts/1'')], rs_body = ''ok''\<rparr>"
proof -
  have "lower ''Location'' = ''location''" by code_simp
  then show ?thesis by (simp add: stores_def retry_messages_def capture_all_def Let_def MAX_STORED_BODY_def REPLAYED_RESPONSE_HEADERS_def)
qed


end
