(* ===== verification/Embedding_Drain.thy ===== *)
theory Embedding_Drain
  imports Embedding_Jobs "HOL-Library.Countable"
begin

text \<open>
  Draining the embedding queue (\<^verbatim>\<open>EmbeddingWorker.drain\<close>, the one-shot backfill): with a
  provider that answers and no job failed or held elsewhere, the loop stops and every version
  in scope has its vector.
\<close>

section \<open>A provider that answers\<close>

definition answers :: "batch_provider \<Rightarrow> bool" where
  "answers pr \<longleftrightarrow> 0 < bp_max_batch_size pr \<and> (\<forall>texts. length texts \<le> bp_max_batch_size pr \<longrightarrow>
     (\<exists>vs n. bp_embed pr texts = Inr (vs, n) \<and> length vs = length texts \<and> (\<forall>v \<in> set vs. length v = EMBEDDING_DIMENSIONS)))"

lemma embed_chunks_answers:
  assumes "answers pr"
  shows "\<exists>fresh n. embed_chunks pr items = Inr (fresh, n) \<and> map fst fresh = map fst items \<and>
    (\<forall>v \<in> snd ` set fresh. length v = EMBEDDING_DIMENSIONS)"
proof (induction items rule: length_induct)
  case (1 items)
  show ?case
  proof (cases "items = []")
    case False
    let ?k = "bp_max_batch_size pr"
    have k: "0 < ?k" using assms by (simp add: answers_def)
    obtain vs n where vs: "bp_embed pr (map snd (take ?k items)) = Inr (vs, n)" "length vs = length (take ?k items)"
      and dims: "\<forall>v \<in> set vs. length v = EMBEDDING_DIMENSIONS"
      using assms unfolding answers_def by (metis length_map length_take min.cobounded2)
    obtain fresh n' where rest: "embed_chunks pr (drop ?k items) = Inr (fresh, n')" "map fst fresh = map fst (drop ?k items)"
      "\<forall>v \<in> snd ` set fresh. length v = EMBEDDING_DIMENSIONS"
      using 1 [rule_format, of "drop ?k items"] k False by auto
    have "embed_chunks pr items = Inr (zip (map fst (take ?k items)) vs @ fresh, n + n')"
      using False k vs rest(1) by (subst embed_chunks.simps) (simp add: Let_def)
    moreover have "map fst (zip (map fst (take ?k items)) vs @ fresh) = map fst items"
      using vs(2) rest(2) by simp (metis append_take_drop_id map_append)
    moreover have "\<forall>v \<in> snd ` set (zip (map fst (take ?k items)) vs @ fresh). length v = EMBEDDING_DIMENSIONS"
      using dims rest(3) by (auto dest: set_zip_rightD)
    ultimately show ?thesis by blast
  qed (simp add: embed_chunks.simps)
qed

lemma dict_put_keys: "fst ` set (dict_put k v kvs) = insert k (fst ` set kvs)"
  by (induction k v kvs rule: dict_put.induct) auto

lemma to_embed_keys: "fst ` set (to_embed ps) = pj_digest ` {p \<in> set ps. pj_cached p = None}"
proof -
  have "fst ` set (fold (\<lambda>p kvs. dict_put (pj_digest p) (pj_text p) kvs) xs kvs) = pj_digest ` set xs \<union> fst ` set kvs" for xs :: "prepared_job list" and kvs
    by (induction xs arbitrary: kvs) (auto simp: dict_put_keys)
  then show ?thesis by (simp add: to_embed_def)
qed

section \<open>Texts\<close>

definition renderable :: "runtime \<Rightarrow> db \<Rightarrow> fact_version \<Rightarrow> bool" where
  "renderable R db v \<longleftrightarrow> json_dumps document_opts (float_repr R) (fv_value v) \<noteq> None \<and>
     (\<exists>f \<in> set (facts db). \<exists>e \<in> set (entities db). f_org f = fv_org v \<and> f_id f = fv_fact_id v \<and> en_org e = f_org f \<and> en_id e = f_entity_id f)"

lemma documents_of_version:
  assumes "d \<in> set (documents db js)"
  shows "\<exists>v \<in> set (fact_versions db). ds_fact_version_id d = fv_id v \<and> ds_value d = fv_value v"
  using assms by (auto 0 3 simp: documents_def split: if_splits intro!: bexI)

lemma document_exists:
  assumes "v \<in> set (fact_versions db)" and "renderable R db v" and "fv_id v \<in> cj_fact_version_id ` set js"
  shows "\<exists>d \<in> set (documents db js). ds_fact_version_id d = fv_id v"
proof -
  obtain f e where "f \<in> set (facts db)" "e \<in> set (entities db)" "f_org f = fv_org v" "f_id f = fv_fact_id v" "en_org e = f_org f" "en_id e = f_entity_id f"
    using assms(2) by (auto simp: renderable_def)
  then show ?thesis using assms(1,3) by (force simp: documents_def join_simps)
qed

lemma job_text_renders:
  assumes d: "distinct (map fv_id (fact_versions db))" and v: "v \<in> set (fact_versions db)" "renderable R db v"
    and c: "c \<in> set js" "cj_fact_version_id c = fv_id v"
  shows "\<exists>text. job_text R db js c = Inr text"
proof -
  let ?m = "map_of (rev (map (\<lambda>d. (ds_fact_version_id d, d)) (documents db js)))"
  obtain d0 where "d0 \<in> set (documents db js)" "ds_fact_version_id d0 = fv_id v" using document_exists [OF v] c by force
  then have "?m (fv_id v) \<noteq> None" by (auto simp: map_of_eq_None_iff image_iff intro!: bexI [of _ d0])
  then obtain r where r: "?m (fv_id v) = Some r" by auto
  then have "r \<in> set (documents db js)" "ds_fact_version_id r = fv_id v" by (auto dest!: map_of_SomeD)
  then have "ds_value r = fv_value v" using documents_of_version distinct_map_eqD [OF d _ v(1)] by metis
  then show ?thesis using r v(2) c(2) by (auto simp: job_text_def render_fact_document_def renderable_def)
qed

section \<open>Storing a batch\<close>

definition finish :: "claimed_job set \<Rightarrow> embedding_job \<Rightarrow> embedding_job" where
  "finish C j = (if \<exists>c \<in> C. holds_lease c j
     then j\<lparr>ej_status := JSUCCEEDED, ej_lease_token := None, ej_locked_at := None, ej_last_error := None\<rparr> else j)"

lemma finish_insert: "finish C (finish {c} j) = finish (insert c C) j"
  by (auto simp: finish_def holds_lease_def)

lemma finish_empty [simp]: "map (finish {}) xs = xs"
  by (rule map_idI_on) (simp add: finish_def)

lemma complete_finish: "jobs (snd (complete c tb)) = map (finish {c}) (jobs tb)"
  by (simp add: complete_def finish_def)

definition vector_ready :: "(string \<rightharpoonup> rat list) \<Rightarrow> prepared_job \<Rightarrow> bool" where
  "vector_ready fresh p \<longleftrightarrow> hex64 (pj_digest p) \<and> (\<exists>v. (case pj_cached p of Some v \<Rightarrow> Some v | None \<Rightarrow> fresh (pj_digest p)) = Some v \<and> length v = EMBEDDING_DIMENSIONS)"

definition known_version :: "db \<Rightarrow> claimed_job \<Rightarrow> bool" where
  "known_version db c \<longleftrightarrow> (\<exists>v \<in> set (fact_versions db). fv_org v = cj_org c \<and> fv_id v = cj_fact_version_id c)"

lemma store_one_total:
  assumes "vector_ready fresh p" and "known_version db (pj_job p)"
  shows "\<exists>h tb'. store_one db m fresh p tb = Inr (h, tb') \<and> jobs tb' = map (finish {pj_job p}) (jobs tb)"
proof -
  let ?c = "pj_job p"
  obtain v where v: "(case pj_cached p of Some v \<Rightarrow> Some v | None \<Rightarrow> fresh (pj_digest p)) = Some v" "length v = EMBEDDING_DIMENSIONS" "hex64 (pj_digest p)"
    using assms(1) by (auto simp: vector_ready_def)
  have "(case pj_cached p of Some v \<Rightarrow> Inr v | None \<Rightarrow> some_or (fresh (pj_digest p)) (PyError ''KeyError'')) = Inr v"
    using v(1) by (cases "pj_cached p") simp_all
  moreover have "\<exists>tb0. save_embedding db m (cj_org ?c) (cj_fact_version_id ?c) v FACT_TEXT_TEMPLATE (pj_digest p) tb = Inr tb0 \<and> jobs tb0 = jobs tb"
    using v assms(2) by (simp add: save_embedding_def Let_def known_version_def requirer_def)
  then obtain tb0 where "save_embedding db m (cj_org ?c) (cj_fact_version_id ?c) v FACT_TEXT_TEMPLATE (pj_digest p) tb = Inr tb0" "jobs tb0 = jobs tb" by blast
  ultimately show ?thesis unfolding store_one_def Let_def by (cases "complete ?c tb0") (use complete_finish [of ?c tb0] in auto)
qed

lemma store_all_total:
  assumes "\<forall>p \<in> set ps. vector_ready fresh p \<and> known_version db (pj_job p)"
  shows "\<exists>hs tb'. store_all db m fresh ps tb = Inr (hs, tb') \<and> jobs tb' = map (finish (pj_job ` set ps)) (jobs tb)"
  using assms
proof (induction ps arbitrary: tb)
  case (Cons p ps)
  obtain h tb1 where one: "store_one db m fresh p tb = Inr (h, tb1)" "jobs tb1 = map (finish {pj_job p}) (jobs tb)"
    using store_one_total Cons.prems by (meson list.set_intros(1))
  obtain hs tb' where rest: "store_all db m fresh ps tb1 = Inr (hs, tb')" "jobs tb' = map (finish (pj_job ` set ps)) (jobs tb1)"
    using Cons by fastforce
  have "jobs tb' = map (finish (pj_job ` set (p # ps))) (jobs tb)" unfolding rest(2) one(2) by (simp add: finish_insert)
  then show ?case using one(1) rest(1) by simp
qed simp

section \<open>One iteration\<close>

definition cache_ready :: "embedding_tables \<Rightarrow> bool" where
  "cache_ready tb \<longleftrightarrow> (\<forall>e \<in> set (embeddings tb). length (se_embedding e) = EMBEDDING_DIMENSIONS)"

lemma prepare_total:
  assumes texts: "\<forall>c \<in> set js. \<exists>text. job_text R db js c = Inr text" and "cache_ready tb" and hash: "\<forall>s. hex64 (sha256 R s)"
  shows "\<exists>ps. prepare R db m tb js = Inr ps \<and> (\<forall>p \<in> set ps. hex64 (pj_digest p) \<and> (\<forall>v. pj_cached p = Some v \<longrightarrow> length v = EMBEDDING_DIMENSIONS))"
proof -
  have "\<exists>ys. mapr (job_text R db js) xs = Inr ys" if "set xs \<subseteq> set js" for xs
    using that texts by (induction xs) force+
  then obtain ys where ys: "mapr (job_text R db js) js = Inr ys" by blast
  have "length v = EMBEDDING_DIMENSIONS" if "cached_vectors m tb org hs h = Some v" for org hs h v
    using map_of_SomeD [OF that [unfolded cached_vectors_def]] assms(2) by (auto simp: cache_ready_def)
  then show ?thesis using hash by (auto simp: prepare_def ys Let_def document_hash_def dest!: set_zip_rightD)
qed

lemma process_total:
  assumes pr: "answers pr" and texts: "\<forall>c \<in> set js. \<exists>text. job_text R db js c = Inr text" and "cache_ready tb" and "\<forall>s. hex64 (sha256 R s)"
    and known: "\<forall>c \<in> set js. known_version db c"
  shows "\<exists>stats tb'. process R w pr t db tb db js tb = Inr (stats, tb') \<and> ws_failed stats = 0 \<and> jobs tb' = map (finish (set js)) (jobs tb)"
proof -
  obtain ps where ps: "prepare R db (bp_model_id pr) tb js = Inr ps"
    and good: "\<forall>p \<in> set ps. hex64 (pj_digest p) \<and> (\<forall>v. pj_cached p = Some v \<longrightarrow> length v = EMBEDDING_DIMENSIONS)"
    using prepare_total [OF texts assms(3,4)] by blast
  have js: "pj_job ` set ps = set js" using prepare_jobs [OF ps] by (metis set_map)
  obtain fresh n where f: "embed_chunks pr (to_embed ps) = Inr (fresh, n)" "map fst fresh = map fst (to_embed ps)"
    "\<forall>v \<in> snd ` set fresh. length v = EMBEDDING_DIMENSIONS" using embed_chunks_answers [OF pr] by blast
  have "vector_ready (map_of (rev fresh)) p" if "p \<in> set ps" for p
  proof (cases "pj_cached p")
    case None
    have "pj_digest p \<in> fst ` set (rev fresh)" using to_embed_keys [of ps] f(2) that None by (auto simp flip: set_map)
    then obtain v where v: "map_of (rev fresh) (pj_digest p) = Some v" by (metis weak_map_of_SomeI image_iff prod.collapse)
    then have "length v = EMBEDDING_DIMENSIONS" using f(3) map_of_SomeD [OF v] by force
    then show ?thesis using None v good that by (simp add: vector_ready_def)
  qed (use good that in \<open>auto simp: vector_ready_def\<close>)
  then have "\<forall>p \<in> set ps. vector_ready (map_of (rev fresh)) p \<and> known_version db (pj_job p)" using known js by auto
  from store_all_total [OF this, of "bp_model_id pr" tb] obtain hs tb' where
    "store_all db (bp_model_id pr) (map_of (rev fresh)) ps tb = Inr (hs, tb')" "jobs tb' = map (finish (set js)) (jobs tb)" unfolding js by blast
  then show ?thesis by (simp add: process_def Let_def ps f(1) no_stats_def)
qed

lemma in_enumerate: "(i, x) \<in> set (enumerate k xs) \<Longrightarrow> x \<in> set xs"
  by (auto simp: enumerate_eq_zip dest: set_zip_rightD)

lemma enumerate_ex: "x \<in> set xs \<Longrightarrow> \<exists>i. (i, x) \<in> set (enumerate k xs)"
  by (induction xs arbitrary: k) auto

lemma claim_finish:
  assumes ids: "distinct (map ej_id (jobs tb))" and run: "claim t m batch lease scope locked tb = (js, tb')"
  defines "picked \<equiv> due_jobs (t_now t) batch lease m scope locked tb"
  shows "js = [] \<longleftrightarrow> picked = []"
    and "\<exists>g. map (finish (set js)) (jobs tb') = map g (jobs tb) \<and> (\<forall>j \<in> set (jobs tb). same_job j (g j) \<and>
      (if j \<in> set picked then ej_status (g j) = JSUCCEEDED else g j = j))"
proof -
  define token where "token = map_of (map (\<lambda>(i, j). (ej_id j, t_ids t i)) (enumerate 0 picked))"
  define f where "f = (\<lambda>j. case token (ej_id j) of None \<Rightarrow> j | Some k \<Rightarrow> leased (t_now t) k j)"
  have js: "js = map (\<lambda>(i, j). claimed_of (t_ids t i) j) (enumerate 0 picked)" and tb': "jobs tb' = map f (jobs tb)"
    using run by (auto simp: claim_def Let_def picked_def f_def token_def)
  have sub: "set picked \<subseteq> set (jobs tb)" by (auto simp: picked_def due_jobs_def dest!: in_set_takeD)
  show "js = [] \<longleftrightarrow> picked = []" by (simp add: js) (metis length_0_conv length_enumerate)
  have "same_job j (finish (set js) (f j)) \<and> (if j \<in> set picked then ej_status (finish (set js) (f j)) = JSUCCEEDED else finish (set js) (f j) = j)"
    if j: "j \<in> set (jobs tb)" for j
  proof (cases "j \<in> set picked")
    case True
    then obtain i where "(i, j) \<in> set (enumerate 0 picked)" using enumerate_ex by fast
    then have "ej_id j \<in> fst ` set (map (\<lambda>(i, j). (ej_id j, t_ids t i)) (enumerate 0 picked))" by force
    then obtain k where k: "token (ej_id j) = Some k" unfolding token_def by (metis map_of_eq_None_iff not_None_eq)
    then obtain i j' where ij: "(i, j') \<in> set (enumerate 0 picked)" "ej_id j' = ej_id j" "k = t_ids t i"
      unfolding token_def by (auto dest!: map_of_SomeD)
    then have "j' = j" using distinct_map_eqD [OF ids, of j' j] in_enumerate [OF ij(1)] sub j by auto
    then have "claimed_of k j \<in> set js" using ij by (force simp: js)
    then have "finish (set js) (f j) = (f j)\<lparr>ej_status := JSUCCEEDED, ej_lease_token := None, ej_locked_at := None, ej_last_error := None\<rparr>"
      by (auto simp: finish_def f_def k leased_def holds_lease_def claimed_of_def)
    then show ?thesis using True by (simp add: same_job_def f_def k leased_def)
  next
    case False
    have other: "ej_id j' \<noteq> ej_id j" if "(i, j') \<in> set (enumerate 0 picked)" for i j'
      using distinct_map_eqD [OF ids, of j' j] in_enumerate [OF that] sub j False by auto
    then have "token (ej_id j) = None" unfolding token_def by (force simp: map_of_eq_None_iff)
    then have "f j = j" by (simp add: f_def)
    moreover have "\<not> (\<exists>c \<in> set js. holds_lease c j)" using other unfolding js holds_lease_def claimed_of_def by fastforce
    then have "finish (set js) j = j" by (simp add: finish_def)
    ultimately show ?thesis using False by (simp add: same_job_def)
  qed
  then show "\<exists>g. map (finish (set js)) (jobs tb') = map g (jobs tb) \<and> (\<forall>j \<in> set (jobs tb). same_job j (g j) \<and>
      (if j \<in> set picked then ej_status (g j) = JSUCCEEDED else g j = j))"
    by (intro exI [of _ "\<lambda>j. finish (set js) (f j)"]) (simp add: tb')
qed

section \<open>The loop\<close>

text \<open>
  A queue that is ready: the jobs of the model and the scope are done or waiting with their
  time come, at each of the \<open>n\<close> remaining batches (the batch transactions count down to 0), and
  the ids of the remaining enqueueing transactions are new.
\<close>

definition ready :: "embedding_worker \<Rightarrow> string \<Rightarrow> (nat \<Rightarrow> txn \<times> txn \<times> txn) \<Rightarrow> nat \<Rightarrow> embedding_tables \<Rightarrow> bool" where
  "ready w m ts n tb \<longleftrightarrow> (\<forall>j \<in> set (jobs tb). ej_model j = m \<and> tenant_scope (ew_scope w) (ej_org j) \<longrightarrow>
       ej_status j = JSUCCEEDED \<or> ej_status j = JPENDING \<and> (\<forall>k < n. ej_available_at j \<le> t_now (fst (snd (ts k))))) \<and>
     (\<forall>k < n. fresh_uuids (fst (ts k)) (ej_id ` set (jobs tb)))"

definition batch_txns :: "(nat \<Rightarrow> txn \<times> txn \<times> txn) \<Rightarrow> bool" where
  "batch_txns ts \<longleftrightarrow> (\<forall>i k. k \<le> i \<longrightarrow> t_now (fst (ts i)) \<le> t_now (fst (snd (ts k)))) \<and>
     (\<forall>i k. i \<noteq> k \<longrightarrow> range (t_ids (fst (ts i))) \<inter> range (t_ids (fst (ts k))) = {})"

definition embedded_jobs :: "string \<Rightarrow> embedding_tables \<Rightarrow> uuid set" where
  "embedded_jobs m tb = ej_fact_version_id ` {j \<in> set (jobs tb). ej_model j = m \<and> ej_status j = JSUCCEEDED}"

definition remaining :: "db \<Rightarrow> string \<Rightarrow> embedding_tables \<Rightarrow> nat" where
  "remaining db m tb = card (fv_id ` set (fact_versions db) - embedded_jobs m tb)"

lemma enqueue_ready:
  assumes ts: "batch_txns ts" and ready: "ready w m ts (Suc n) tb"
  shows "ready w m ts n (snd (enqueue_missing (fst (ts n)) db m limit scope tb))"
    and "\<forall>j \<in> set (jobs (snd (enqueue_missing (fst (ts n)) db m limit scope tb))). ej_model j = m \<and> tenant_scope (ew_scope w) (ej_org j) \<longrightarrow>
      ej_status j = JSUCCEEDED \<or> ej_status j = JPENDING \<and> ej_available_at j \<le> t_now (fst (snd (ts n)))"
    and "embedded_jobs m (snd (enqueue_missing (fst (ts n)) db m limit scope tb)) = embedded_jobs m tb"
proof -
  define new where "new = map (\<lambda>(i, v). new_job (fst (ts n)) m i v) (enumerate 0 (take limit (missing_versions db m tb scope)))"
  have jobs: "jobs (snd (enqueue_missing (fst (ts n)) db m limit scope tb)) = jobs tb @ new" by (simp add: enqueue_missing_def Let_def new_def)
  have new: "ej_status j = JPENDING" "ej_available_at j = t_now (fst (ts n))" "ej_id j \<in> range (t_ids (fst (ts n)))" if "j \<in> set new" for j
    using new_jobs_in that unfolding new_def by (fastforce simp: new_job_def)+
  have time: "t_now (fst (ts n)) \<le> t_now (fst (snd (ts k)))" if "k \<le> n" for k using ts that by (simp add: batch_txns_def)
  have "fresh_uuids (fst (ts k)) (ej_id ` set (jobs tb @ new))" if k: "k < n" for k
  proof -
    have dis: "range (t_ids (fst (ts n))) \<inter> range (t_ids (fst (ts k))) = {}" using ts k by (simp add: batch_txns_def)
    have "t_ids (fst (ts k)) i \<notin> ej_id ` set new" for i
    proof
      assume "t_ids (fst (ts k)) i \<in> ej_id ` set new"
      then obtain j where "j \<in> set new" "t_ids (fst (ts k)) i = ej_id j" by blast
      then show False using new(3) [of j] dis by (metis IntI empty_iff rangeI)
    qed
    moreover have "fresh_uuids (fst (ts k)) (ej_id ` set (jobs tb))" using ready k by (simp add: ready_def)
    ultimately show ?thesis unfolding fresh_uuids_def set_append image_Un by blast
  qed
  then show "ready w m ts n (snd (enqueue_missing (fst (ts n)) db m limit scope tb))"
    using ready new(1,2) time unfolding ready_def jobs by auto
  show "\<forall>j \<in> set (jobs (snd (enqueue_missing (fst (ts n)) db m limit scope tb))). ej_model j = m \<and> tenant_scope (ew_scope w) (ej_org j) \<longrightarrow>
      ej_status j = JSUCCEEDED \<or> ej_status j = JPENDING \<and> ej_available_at j \<le> t_now (fst (snd (ts n)))"
    using ready new(1,2) time [of n] unfolding ready_def jobs by auto
  show "embedded_jobs m (snd (enqueue_missing (fst (ts n)) db m limit scope tb)) = embedded_jobs m tb"
    using new(1) unfolding embedded_jobs_def jobs by auto
qed

text \<open>When nothing can be claimed, nothing was missing and every job is done.\<close>

lemma nothing_claimed:
  assumes ok: "tables_ok db tb1" and tb1: "tb1 = snd (enqueue_missing t db m (b * 4) scope tb)" and b: "0 < b"
    and pending: "\<forall>j \<in> set (jobs tb1). ej_model j = m \<and> tenant_scope scope (ej_org j) \<longrightarrow>
      ej_status j = JSUCCEEDED \<or> ej_status j = JPENDING \<and> ej_available_at j \<le> now"
    and none: "due_jobs now b lease m scope (\<lambda>_. False) tb1 = []"
    and v: "v \<in> set (fact_versions db)" "tenant_scope scope (fv_org v)" and d: "distinct (map fv_id (fact_versions db))"
  shows "has_embedding m tb1 (fv_id v)"
proof -
  have "filter (\<lambda>j. due now lease m scope j) (jobs tb1) = []"
    using none b by (simp add: due_jobs_def) (metis length_0_conv length_sort)
  then have fin: "ej_status j = JSUCCEEDED" if "j \<in> set (jobs tb1)" "ej_model j = m" "tenant_scope scope (ej_org j)" for j
    using that pending by (auto simp: filter_empty_conv due_def)
  have job: "has_job m tb1 (fv_id v) \<or> has_embedding m tb1 (fv_id v)"
  proof (rule ccontr)
    assume "\<not> (has_job m tb1 (fv_id v) \<or> has_embedding m tb1 (fv_id v))"
    then have "v \<in> set (missing_versions db m tb scope)"
      using v by (auto simp: missing_in tb1 enqueue_missing_def Let_def has_job_def)
    then obtain u us where "take (b * 4) (missing_versions db m tb scope) = u # us" and u: "u \<in> set (missing_versions db m tb scope)"
      using b by (cases "missing_versions db m tb scope"; cases "b * 4") auto
    then have "new_job t m 0 u \<in> set (jobs tb1)" by (simp add: tb1 enqueue_missing_def Let_def)
    then show False using fin [of "new_job t m 0 u"] u by (simp add: new_job_def missing_in)
  qed
  have "has_embedding m tb1 (fv_id v)" if j: "j \<in> set (jobs tb1)" "ej_fact_version_id j = fv_id v" "ej_model j = m" for j
  proof -
    have jok: "job_ok db tb1 j" using ok j(1) by (simp add: tables_ok_def)
    then have "ej_org j = fv_org v" using j(2) distinct_map_eqD [OF d _ v(1)] unfolding job_ok_def by metis
    then have "ej_status j = JSUCCEEDED" using fin j v(2) by simp
    then show ?thesis using jok j by (simp add: job_ok_def)
  qed
  then show ?thesis using job by (auto simp: has_job_def)
qed

lemma finished_ready:
  assumes "ready w m ts n tb" and jobs: "jobs tb' = map g (jobs tb)"
    and g: "\<forall>j \<in> set (jobs tb). same_job j (g j) \<and> (if j \<in> set picked then ej_status (g j) = JSUCCEEDED else g j = j)"
  shows "ready w m ts n tb'"
proof -
  have "map ej_id (jobs tb') = map ej_id (jobs tb)" using g by (simp add: jobs same_job_def)
  then have "ej_id ` set (jobs tb') = ej_id ` set (jobs tb)" by (metis set_map)
  moreover have "ej_status (g j) = JSUCCEEDED \<or> g j = j" "ej_model (g j) = ej_model j" "ej_org (g j) = ej_org j" if "j \<in> set (jobs tb)" for j
    using g that by (auto simp: same_job_def split: if_splits)
  ultimately show ?thesis using assms(1) unfolding ready_def jobs by (fastforce simp: jobs)
qed

lemma finished_remaining:
  assumes ok: "tables_ok db tb" and jobs: "jobs tb' = map g (jobs tb)"
    and g: "\<forall>j \<in> set (jobs tb). same_job j (g j) \<and> (if j \<in> set picked then ej_status (g j) = JSUCCEEDED else g j = j)"
    and j: "j \<in> set picked" "j \<in> set (jobs tb)" "ej_model j = m" "ej_status j \<noteq> JSUCCEEDED"
  shows "remaining db m tb' < remaining db m tb"
proof -
  let ?vid = "ej_fact_version_id j"
  have "?vid \<notin> embedded_jobs m tb"
  proof
    assume "?vid \<in> embedded_jobs m tb"
    then obtain i where i: "i \<in> set (jobs tb)" "ej_model i = m" "ej_status i = JSUCCEEDED" "ej_fact_version_id i = ?vid" by (auto simp: embedded_jobs_def)
    have "distinct (map (\<lambda>j. (ej_fact_version_id j, ej_model j)) (jobs tb))" using ok by (simp add: tables_ok_def)
    then have "i = j" using i j by (auto dest: distinct_map_eqD)
    then show False using i j by simp
  qed
  moreover have "?vid \<in> embedded_jobs m tb'" unfolding embedded_jobs_def jobs using g j by (intro image_eqI [of _ _ "g j"]) (auto simp: same_job_def)
  moreover have "?vid \<in> fv_id ` set (fact_versions db)" using ok j(2) unfolding tables_ok_def job_ok_def by (metis imageI)
  moreover have "embedded_jobs m tb \<subseteq> embedded_jobs m tb'"
  proof
    fix x assume "x \<in> embedded_jobs m tb"
    then obtain i where i: "i \<in> set (jobs tb)" "ej_model i = m" "ej_status i = JSUCCEEDED" "x = ej_fact_version_id i" by (auto simp: embedded_jobs_def)
    then show "x \<in> embedded_jobs m tb'" unfolding embedded_jobs_def jobs using g
      by (intro image_eqI [of _ _ "g i"]) (auto simp: same_job_def split: if_splits dest!: bspec [of _ _ i])
  qed
  ultimately have "fv_id ` set (fact_versions db) - embedded_jobs m tb' \<subset> fv_id ` set (fact_versions db) - embedded_jobs m tb" by blast
  then show ?thesis unfolding remaining_def by (intro psubset_card_mono) auto
qed

definition drainable :: "runtime \<Rightarrow> db \<Rightarrow> batch_provider \<Rightarrow> embedding_worker \<Rightarrow> (nat \<Rightarrow> txn \<times> txn \<times> txn) \<Rightarrow> bool" where
  "drainable R db pr w ts \<longleftrightarrow> answers pr \<and> 0 < ew_batch_size w \<and> batch_txns ts \<and> (\<forall>s. hex64 (sha256 R s)) \<and>
     distinct (map fv_id (fact_versions db)) \<and> (\<forall>v \<in> set (fact_versions db). renderable R db v)"

lemma claimed_batch:
  assumes ok: "tables_ok db tb1" and run: "claim t m b lease scope locked tb1 = (js, tb2)" and env: "drainable R db pr w ts" and m: "m = bp_model_id pr"
  shows "\<exists>stats tb'. process R w pr t3 db tb2 db js tb2 = Inr (stats, tb') \<and> ws_failed stats = 0 \<and> tables_ok db tb' \<and>
    jobs tb' = map (finish (set js)) (jobs tb2)"
proof -
  have d: "distinct (map ej_id (jobs tb1))" "distinct (map fv_id (fact_versions db))" and ok2: "tables_ok db tb2"
    using ok env claim_ok [OF ok, of t m b lease scope locked] run by (simp_all add: tables_ok_def drainable_def)
  note rows = claim_rows [OF d(1) run]
  have version: "\<exists>v \<in> set (fact_versions db). fv_id v = cj_fact_version_id c \<and> fv_org v = cj_org c" if c: "c \<in> set js" for c
  proof -
    obtain j where j: "j \<in> set (jobs tb2)" "ej_id j = cj_job_id c" using rows(2) [OF c] by auto
    then have "ej_fact_version_id j = cj_fact_version_id c" "ej_org j = cj_org c" using rows(1) [OF c] by (auto simp: claim_matches_def)
    moreover have "job_ok db tb2 j" using ok2 j(1) by (simp add: tables_ok_def)
    ultimately show ?thesis by (simp add: job_ok_def)
  qed
  have texts: "\<forall>c \<in> set js. \<exists>text. job_text R db js c = Inr text"
  proof
    fix c assume c: "c \<in> set js"
    then obtain v where "v \<in> set (fact_versions db)" "cj_fact_version_id c = fv_id v" using version by metis
    then show "\<exists>text. job_text R db js c = Inr text" using job_text_renders [OF d(2) _ _ c] env by (auto simp: drainable_def)
  qed
  have "cache_ready tb2" using ok2 by (simp add: cache_ready_def tables_ok_def)
  moreover have "\<forall>c \<in> set js. known_version db c" using version unfolding known_version_def by metis
  ultimately obtain stats tb' where p: "process R w pr t3 db tb2 db js tb2 = Inr (stats, tb')" "ws_failed stats = 0" "jobs tb' = map (finish (set js)) (jobs tb2)"
    using process_total [OF _ texts] env unfolding drainable_def by metis
  moreover have "tables_ok db tb'" using process_ok [OF ok2 p(1)] rows(1) m by simp
  ultimately show ?thesis by blast
qed

lemma run_once_progress:
  assumes ok: "tables_ok db tb" and env: "drainable R db pr w ts" and ready: "ready w m ts (Suc n) tb" and m: "m = bp_model_id pr"
  shows "\<exists>stats tb'. run_once R w pr (ts n) db tb = Inr (stats, tb') \<and> ws_failed stats = 0 \<and> tables_ok db tb' \<and>
    (if ws_claimed stats = 0 then \<forall>v \<in> set (fact_versions db). tenant_scope (ew_scope w) (fv_org v) \<longrightarrow> has_embedding m tb' (fv_id v)
     else ready w m ts n tb' \<and> remaining db m tb' < remaining db m tb)"
proof -
  have ts: "batch_txns ts" and d: "distinct (map fv_id (fact_versions db))" and b: "0 < ew_batch_size w" using env by (simp_all add: drainable_def)
  obtain t1 t2 t3 where t: "ts n = (t1, t2, t3)" by (cases "ts n") auto
  define tb1 where "tb1 = snd (enqueue_missing t1 db m (ew_batch_size w * 4) (ew_scope w) tb)"
  obtain js tb2 where c: "claim t2 m (ew_batch_size w) (ew_lease w) (ew_scope w) (\<lambda>_. False) tb1 = (js, tb2)" by force
  define picked where "picked = due_jobs (t_now t2) (ew_batch_size w) (ew_lease w) m (ew_scope w) (\<lambda>_. False) tb1"
  have ok1: "tables_ok db tb1" unfolding tb1_def by (rule enqueue_ok [OF ok d]) (use ready t in \<open>auto simp: ready_def dest: spec [of _ n]\<close>)
  have ids: "distinct (map ej_id (jobs tb1))" using ok1 by (simp add: tables_ok_def)
  have r1: "ready w m ts n tb1" and pending: "\<forall>j \<in> set (jobs tb1). ej_model j = m \<and> tenant_scope (ew_scope w) (ej_org j) \<longrightarrow>
      ej_status j = JSUCCEEDED \<or> ej_status j = JPENDING \<and> ej_available_at j \<le> t_now t2" and same: "embedded_jobs m tb1 = embedded_jobs m tb"
    using enqueue_ready [OF ts ready, of db "ew_batch_size w * 4" "ew_scope w"] by (simp_all add: t tb1_def)
  note claimed = claim_finish [OF ids c, folded picked_def]
  show ?thesis
  proof (cases "js = []")
    case True
    have none: "due_jobs (t_now t2) (ew_batch_size w) (ew_lease w) m (ew_scope w) (\<lambda>_. False) tb1 = []" using claimed(1) True by (simp add: picked_def)
    have "jobs tb2 = jobs tb1" "embeddings tb2 = embeddings tb1" using c none by (auto simp: claim_def Let_def)
    then have tb2: "tb2 = tb1" by simp
    have "run_once R w pr (ts n) db tb = Inr (no_stats\<lparr>ws_enqueued := fst (enqueue_missing t1 db m (ew_batch_size w * 4) (ew_scope w) tb)\<rparr>, tb1)"
      using c True by (simp add: run_once_def Let_def t m tb1_def case_prod_beta tb2)
    then show ?thesis using nothing_claimed [OF ok1 tb1_def b pending none _ _ d] ok1 by (simp add: no_stats_def)
  next
    case False
    obtain stats tb' where p: "process R w pr t3 db tb2 db js tb2 = Inr (stats, tb')" "ws_failed stats = 0" "tables_ok db tb'" "jobs tb' = map (finish (set js)) (jobs tb2)"
      using claimed_batch [OF ok1 c env m] by blast
    obtain g where g: "jobs tb' = map g (jobs tb1)" "\<forall>j \<in> set (jobs tb1). same_job j (g j) \<and> (if j \<in> set picked then ej_status (g j) = JSUCCEEDED else g j = j)"
      using claimed(2) p(4) by auto
    have "run_once R w pr (ts n) db tb = Inr (stats\<lparr>ws_enqueued := fst (enqueue_missing t1 db m (ew_batch_size w * 4) (ew_scope w) tb), ws_claimed := length js\<rparr>, tb')"
      using c False p(1) by (simp add: run_once_def Let_def t m tb1_def case_prod_beta)
    moreover have "ready w m ts n tb'" by (rule finished_ready [OF r1 g])
    moreover have "remaining db m tb' < remaining db m tb"
    proof -
      obtain j where "j \<in> set picked" using claimed(1) False by (cases picked) auto
      then have j: "j \<in> set picked" "j \<in> set (jobs tb1)" "due (t_now t2) (ew_lease w) m (ew_scope w) j"
        by (auto simp: picked_def due_jobs_def dest!: in_set_takeD)
      then have "remaining db m tb' < remaining db m tb1" by (intro finished_remaining [OF ok1 g j(1,2)]) (auto simp: due_def)
      then show ?thesis by (simp add: remaining_def same)
    qed
    ultimately show ?thesis using False p by simp
  qed
qed

lemma drain_progress:
  assumes "drainable R db pr w ts" and "m = bp_model_id pr"
    and "tables_ok db tb" and "ready w m ts n tb" and "remaining db m tb < n"
  shows "\<exists>stats tb'. drain R w pr ts db n acc tb = Inr (stats, tb') \<and> ws_failed stats = ws_failed acc \<and> tables_ok db tb' \<and>
    (\<forall>v \<in> set (fact_versions db). tenant_scope (ew_scope w) (fv_org v) \<longrightarrow> has_embedding m tb' (fv_id v))"
  using assms(3-5)
proof (induction n arbitrary: tb acc)
  case (Suc n)
  obtain stats tb1 where run: "run_once R w pr (ts n) db tb = Inr (stats, tb1)" "ws_failed stats = 0" "tables_ok db tb1"
    and step: "if ws_claimed stats = 0 then \<forall>v \<in> set (fact_versions db). tenant_scope (ew_scope w) (fv_org v) \<longrightarrow> has_embedding m tb1 (fv_id v)
     else ready w m ts n tb1 \<and> remaining db m tb1 < remaining db m tb"
    using run_once_progress [OF Suc.prems(1) assms(1) Suc.prems(2) assms(2)] by blast
  have acc: "ws_failed (add_stats acc stats) = ws_failed acc" using run(2) by (simp add: add_stats_def)
  show ?case
  proof (cases "ws_claimed stats = 0")
    case True
    then show ?thesis using run step acc by simp
  next
    case False
    then have "\<exists>stats' tb'. drain R w pr ts db n (add_stats acc stats) tb1 = Inr (stats', tb') \<and> ws_failed stats' = ws_failed (add_stats acc stats) \<and>
        tables_ok db tb' \<and> (\<forall>v \<in> set (fact_versions db). tenant_scope (ew_scope w) (fv_org v) \<longrightarrow> has_embedding m tb' (fv_id v))"
      using step Suc.prems(3) by (intro Suc.IH [OF run(3)]) auto
    then show ?thesis using False run(1) acc by simp
  qed
qed simp

lemma remaining_le: "remaining db m tb \<le> length (fact_versions db)"
proof -
  have "remaining db m tb \<le> card (fv_id ` set (fact_versions db))" unfolding remaining_def by (rule card_mono) auto
  also have "\<dots> \<le> length (fact_versions db)" by (metis card_length set_map length_map)
  finally show ?thesis .
qed


text \<open>Witness: the sample ledger with one version and an empty queue, two batches.\<close>

definition sample_provider :: batch_provider where
  "sample_provider = \<lparr>bp_model_id = ''m'', bp_max_batch_size = 2, bp_embed = (\<lambda>texts. Inr (map (\<lambda>_. replicate EMBEDDING_DIMENSIONS 0) texts, length texts))\<rparr>"

definition sample_batches :: "nat \<Rightarrow> txn \<times> txn \<times> txn" where
  "sample_batches k = (\<lparr>t_now = 50, t_clock = 50, t_ids = (\<lambda>i. prod_encode (k, i))\<rparr>, sample_txn 910 60, sample_txn 920 70)"

lemma sample_drainable: "drainable toy_runtime one_version_db sample_provider sample_worker sample_batches"
proof -
  have "hex64 (sha256 toy_runtime s)" for s
    by (simp add: toy_runtime_def hex64_def hex_digit_def is_digit_def) presburger
  moreover have "answers sample_provider" by (simp add: answers_def sample_provider_def)
  moreover have "batch_txns sample_batches" by (auto simp: batch_txns_def sample_batches_def sample_txn_def)
  moreover have "distinct (map fv_id (fact_versions one_version_db)) \<and> (\<forall>v \<in> set (fact_versions one_version_db). renderable toy_runtime one_version_db v)"
    by (simp add: renderable_def one_version_db_def first_version_def)
  ultimately show ?thesis by (simp add: drainable_def sample_worker_def)
qed


end
