(* ===== verification/Answers.thy ===== *)
theory Answers
  imports Contradictions
begin

text \<open>
  Grounded answers (\<^verbatim>\<open>ai/grounding.py\<close>, \<^verbatim>\<open>services/answers.py\<close>): a language model sees the facts a
  search returned, under labels F1, F2, ..., and its answer is withheld unless it cites them.
  The chain of prompt and model is a parameter. Shown: whatever the model writes, an answer
  that is given cites versions in the scope of the caller and nothing else, and without facts
  no model is asked.
\<close>

section \<open>Facts for the prompt\<close>

definition MAX_VALUE_CHARS :: nat where "MAX_VALUE_CHARS = 500"

record packed_fact =
  pk_label :: string
  pk_fact_version_id :: uuid
  pk_fact_id :: uuid
  pk_source_id :: uuid
  pk_source_name :: string
  pk_source_type :: source_type
  pk_entity_type :: string
  pk_external_id :: string
  pk_property :: string
  pk_value :: pyval
  pk_valid_from :: instant
  pk_valid_until :: "instant option"
  pk_recorded_at :: instant
  pk_authority :: int
  pk_confidence :: rat

definition pack_facts :: "retrieved_fact list \<Rightarrow> packed_fact list" where
  "pack_facts results = map (\<lambda>(i, r). let v = rt_version r in
     \<lparr>pk_label = label_of i, pk_fact_version_id = vs_id v, pk_fact_id = vs_fact_id v, pk_source_id = vs_source_id v,
      pk_source_name = rt_source_name r, pk_source_type = rt_source_type r, pk_entity_type = rt_entity_type r,
      pk_external_id = rt_external_id r, pk_property = rt_property r, pk_value = vs_value v, pk_valid_from = vs_valid_from v,
      pk_valid_until = vs_valid_until v, pk_recorded_at = vs_recorded_at v, pk_authority = vs_authority v,
      pk_confidence = vs_confidence v\<rparr>) (enumerate 1 results)"

definition source_type_str :: "source_type \<Rightarrow> string" where
  "source_type_str s = (case s of SYSTEM_OF_RECORD \<Rightarrow> ''SYSTEM_OF_RECORD'' | API \<Rightarrow> ''API'' | DOCUMENT \<Rightarrow> ''DOCUMENT''
     | HUMAN \<Rightarrow> ''HUMAN'' | AGENT \<Rightarrow> ''AGENT'')"

definition prompt_opts :: json_opts where
  "prompt_opts = \<lparr>sort_keys = True, item_sep = '', '', key_sep = '': '', ensure_ascii = False, allow_nan = True\<rparr>"

text \<open>The values are JSON columns, so the \<^verbatim>\<open>default=str\<close> of the encoder has nothing to do.\<close>

definition render_fact :: "runtime \<Rightarrow> packed_fact \<Rightarrow> string result" where
  "render_fact R f = bindr (some_or (json_dumps prompt_opts (float_repr R) (pk_value f)) (PyError ''TypeError'')) (\<lambda>value.
     let shown = (if MAX_VALUE_CHARS < length value then take MAX_VALUE_CHARS value @ ''...(truncated)'' else value);
         until = (case pk_valid_until f of Some u \<Rightarrow> iso_utc u | None \<Rightarrow> ''open-ended'') in
     Inr (''['' @ pk_label f @ ''] '' @ pk_entity_type f @ ''/'' @ pk_external_id f @ '' '' @ pk_property f @ '' = '' @ shown @ '' '' @
       ''| valid '' @ iso_utc (pk_valid_from f) @ '' to '' @ until @ '' '' @
       ''| source '' @ json_str True (pk_source_name f) @ '' ('' @ source_type_str (pk_source_type f) @ '') '' @
       ''| authority '' @ int_str (pk_authority f) @ '', confidence '' @ decimal_str R (DFinite (pk_confidence f)) @ '' '' @
       ''| recorded '' @ iso_utc (pk_recorded_at f)))"

definition render_facts :: "runtime \<Rightarrow> packed_fact list \<Rightarrow> string result" where
  "render_facts R fs = (if fs = [] then Inr ''(no facts)''
     else bindr (mapr (render_fact R) fs) (\<lambda>lines. Inr (join [char_of (10::nat)] lines)))"

section \<open>What the model answers\<close>

datatype answer_status = ANSWERED | INSUFFICIENT_EVIDENCE | UNGROUNDED

record model_answer =
  ma_answer :: string
  ma_insufficient_evidence :: bool
  ma_cited_facts :: "string list"
  ma_inferences :: "string list"

record grounding_check =
  gc_status :: answer_status
  gc_cited :: "packed_fact list"
  gc_rejected_labels :: "string list"

fun str_of :: "pyval \<Rightarrow> string option" where
  "str_of (PStr s) = Some s"
| "str_of _ = None"

definition str_list :: "pyval \<Rightarrow> string list option" where
  "str_list v = (case v of PList xs \<Rightarrow> those (map str_of xs) | _ \<Rightarrow> None)"

text \<open>\<open>None\<close> is a MalformedGenerationError.\<close>

definition parse_model_answer :: "pyval \<Rightarrow> model_answer option" where
  "parse_model_answer payload = (case payload of
       PDict kvs \<Rightarrow> (case (map_of kvs ''answer'', map_of kvs ''insufficient_evidence'', map_of kvs ''cited_facts'') of
           (Some (PStr answer), Some (PBool insufficient), Some cited) \<Rightarrow>
             (case (str_list cited, str_list (case map_of kvs ''inferences'' of None \<Rightarrow> PList [] | Some v \<Rightarrow> v)) of
                (Some cs, Some infs) \<Rightarrow> Some \<lparr>ma_answer = strip answer, ma_insufficient_evidence = insufficient,
                  ma_cited_facts = map strip cs, ma_inferences = infs\<rparr>
              | _ \<Rightarrow> None)
         | _ \<Rightarrow> None)
     | _ \<Rightarrow> None)"

text \<open>Facts of equal label are the same object, so \<^verbatim>\<open>fact not in cited\<close> compares labels.\<close>

fun cite :: "(string \<rightharpoonup> packed_fact) \<Rightarrow> string list \<Rightarrow> packed_fact list \<Rightarrow> string list \<Rightarrow> packed_fact list \<times> string list" where
  "cite by_label [] cited rejected = (cited, rejected)"
| "cite by_label (l # ls) cited rejected = (case by_label (upper l) of
      None \<Rightarrow> cite by_label ls cited (rejected @ [l])
    | Some f \<Rightarrow> if pk_label f \<in> pk_label ` set cited then cite by_label ls cited rejected
        else cite by_label ls (cited @ [f]) rejected)"

definition check_answer :: "model_answer \<Rightarrow> packed_fact list \<Rightarrow> grounding_check" where
  "check_answer model supplied = (let
     by_label = map_of (rev (map (\<lambda>f. (pk_label f, f)) supplied));
     (cited, rejected) = cite by_label (ma_cited_facts model) [] [] in
     if ma_insufficient_evidence model then \<lparr>gc_status = INSUFFICIENT_EVIDENCE, gc_cited = [], gc_rejected_labels = rejected\<rparr>
     else if rejected \<noteq> [] \<or> cited = [] \<or> ma_answer model = [] then \<lparr>gc_status = UNGROUNDED, gc_cited = [], gc_rejected_labels = rejected\<rparr>
     else \<lparr>gc_status = ANSWERED, gc_cited = cited, gc_rejected_labels = rejected\<rparr>)"

section \<open>The service\<close>

definition MAX_QUESTION_CHARS :: nat where "MAX_QUESTION_CHARS = 1000"

record citation =
  ci_label :: string
  ci_fact_version_id :: uuid
  ci_fact_id :: uuid
  ci_source_id :: uuid
  ci_source_name :: string
  ci_entity_type :: string
  ci_external_id :: string
  ci_property :: string
  ci_valid_from :: instant
  ci_valid_until :: "instant option"

record retrieval_info =
  ri_valid_at :: instant
  ri_known_at :: "instant option"
  ri_vector_search :: vector_search_status
  ri_privacy_scopes :: "privacy_scope list"
  ri_facts_supplied :: nat
  ri_cache :: cache_status

text \<open>The measured latency is left out.\<close>

record generation_info =
  gi_provider :: string
  gi_model :: string
  gi_prompt_version :: string
  gi_prompt_fingerprint :: string
  gi_input_tokens :: int
  gi_output_tokens :: int
  gi_attempts :: int
  gi_finish_reason :: string

record grounded_answer =
  ga_question :: string
  ga_status :: answer_status
  ga_answer :: "string option"
  ga_grounded :: bool
  ga_insufficient_evidence :: bool
  ga_citations :: "citation list"
  ga_inferences :: "string list"
  ga_rejected_citations :: "string list"
  ga_retrieval :: retrieval_info
  ga_generation :: "generation_info option"
  ga_supplied_fact_version_ids :: "uuid list"

record answer_query =
  aq_question :: string
  aq_valid_at :: "pydatetime option"
  aq_known_at :: "pydatetime option"
  aq_limit :: int
  aq_entity_type :: "string option"
  aq_external_ids :: "string list"
  aq_properties :: "string list"
  aq_max_privacy_scope :: "privacy_scope option"

definition retrieval_request :: "string \<Rightarrow> answer_query \<Rightarrow> retrieval_query" where
  "retrieval_request question q = \<lparr>rq_query = question, rq_limit = aq_limit q, rq_valid_at = aq_valid_at q, rq_known_at = aq_known_at q,
     rq_entity_type = aq_entity_type q, rq_external_ids = aq_external_ids q, rq_properties = aq_properties q, rq_source_ids = [],
     rq_min_authority = None, rq_min_confidence = None, rq_max_privacy_scope = aq_max_privacy_scope q, rq_trust_weight = DEFAULT_TRUST_WEIGHT\<rparr>"

text \<open>
  The chain: from its inputs the message of the model, or the class name of a GenerationError.
  The content is \<open>None\<close> when it is not text; missing metadata is \<open>None\<close>.
\<close>

record chain_inputs =
  in_question :: string
  in_valid_at :: string
  in_known_at :: string
  in_facts :: string

record model_message =
  mm_content :: "string option"
  mm_provider :: "string option"
  mm_model :: "string option"
  mm_input_tokens :: "int option"
  mm_output_tokens :: "int option"
  mm_attempts :: "int option"
  mm_finish_reason :: "string option"

record answer_prompt =
  ap_version :: string
  ap_fingerprint :: string
  ap_chain :: "chain_inputs \<Rightarrow> string + model_message"

definition json_content :: "model_message \<Rightarrow> pyval option" where
  "json_content message = (case mm_content message of None \<Rightarrow> None | Some text \<Rightarrow> json_loads text)"

definition citation_of :: "packed_fact \<Rightarrow> citation" where
  "citation_of f = \<lparr>ci_label = pk_label f, ci_fact_version_id = pk_fact_version_id f, ci_fact_id = pk_fact_id f,
     ci_source_id = pk_source_id f, ci_source_name = pk_source_name f, ci_entity_type = pk_entity_type f,
     ci_external_id = pk_external_id f, ci_property = pk_property f, ci_valid_from = pk_valid_from f, ci_valid_until = pk_valid_until f\<rparr>"

definition or_else :: "'a option \<Rightarrow> 'a \<Rightarrow> 'a" where
  "or_else x d = (case x of None \<Rightarrow> d | Some y \<Rightarrow> y)"

definition generation_of :: "answer_prompt \<Rightarrow> model_message \<Rightarrow> generation_info" where
  "generation_of p message = \<lparr>gi_provider = or_else (mm_provider message) ''unknown'', gi_model = or_else (mm_model message) ''unknown'',
     gi_prompt_version = ap_version p, gi_prompt_fingerprint = ap_fingerprint p, gi_input_tokens = or_else (mm_input_tokens message) 0,
     gi_output_tokens = or_else (mm_output_tokens message) 0, gi_attempts = or_else (mm_attempts message) 1,
     gi_finish_reason = or_else (mm_finish_reason message) ''unknown''\<rparr>"

definition no_facts_answer :: "string \<Rightarrow> retrieval_info \<Rightarrow> grounded_answer" where
  "no_facts_answer question info = \<lparr>ga_question = question, ga_status = INSUFFICIENT_EVIDENCE,
     ga_answer = Some ''No facts you are allowed to see match this question at that time.'', ga_grounded = True,
     ga_insufficient_evidence = True, ga_citations = [], ga_inferences = [], ga_rejected_citations = [], ga_retrieval = info,
     ga_generation = None, ga_supplied_fact_version_ids = []\<rparr>"

definition answer_inputs :: "string \<Rightarrow> retrieval_result \<Rightarrow> string \<Rightarrow> chain_inputs" where
  "answer_inputs question r rendered = \<lparr>in_question = question, in_valid_at = iso_utc (rr_valid_at r),
     in_known_at = (case rr_known_at r of Some k \<Rightarrow> iso_utc k | None \<Rightarrow> ''everything recorded so far''), in_facts = rendered\<rparr>"

definition generate_answer :: "answer_prompt \<Rightarrow> string \<Rightarrow> retrieval_info \<Rightarrow> packed_fact list \<Rightarrow> chain_inputs \<Rightarrow> grounded_answer result" where
  "generate_answer p question info fs inputs = (case ap_chain p inputs of
       Inl cause \<Rightarrow> Inl (PyError ''AnswerGenerationError'')
     | Inr message \<Rightarrow> (case Option.bind (json_content message) parse_model_answer of
         None \<Rightarrow> Inl (PyError ''AnswerGenerationError'')
       | Some model \<Rightarrow> let check = check_answer model fs; answered = (gc_status check = ANSWERED) in
           Inr \<lparr>ga_question = question, ga_status = gc_status check,
             ga_answer = (if gc_status check \<noteq> UNGROUNDED then Some (ma_answer model) else None),
             ga_grounded = (gc_status check \<noteq> UNGROUNDED), ga_insufficient_evidence = (gc_status check = INSUFFICIENT_EVIDENCE),
             ga_citations = map citation_of (gc_cited check), ga_inferences = (if answered then ma_inferences model else []),
             ga_rejected_citations = gc_rejected_labels check, ga_retrieval = info, ga_generation = Some (generation_of p message),
             ga_supplied_fact_version_ids = map pk_fact_version_id fs\<rparr>))"

definition clean_question :: "answer_query \<Rightarrow> string result" where
  "clean_question q = (let question = join '' '' (split_space (aq_question q)) in
     bindr (requirer (question \<noteq> []) (ValidationFailedError ''question must not be empty'')) (\<lambda>_.
     bindr (requirer (\<not> MAX_QUESTION_CHARS < length question) (ValidationFailedError ''question must be at most 1000 characters'')) (\<lambda>_.
     Inr question)))"

definition answer ::
  "runtime \<Rightarrow> answer_prompt \<Rightarrow> engine \<Rightarrow> provider \<Rightarrow> search_index \<Rightarrow> result_cache option \<Rightarrow> instant \<Rightarrow> db \<Rightarrow> db \<Rightarrow> tenant_context \<Rightarrow>
     answer_query \<Rightarrow> (grounded_answer \<times> (cache_material \<times> retrieval_result) option) result" where
  "answer R p eg pr ix cache clock db0 db1 ctx q =
     bindr (clean_question q) (\<lambda>question.
     bindr (search eg pr ix cache clock db0 db1 ctx (retrieval_request question q)) (\<lambda>(retrieval, stored).
     let fs = pack_facts (rr_results retrieval);
         info = \<lparr>ri_valid_at = rr_valid_at retrieval, ri_known_at = rr_known_at retrieval, ri_vector_search = rr_vector_search retrieval,
           ri_privacy_scopes = rr_privacy_scopes retrieval, ri_facts_supplied = length fs, ri_cache = rr_cache retrieval\<rparr> in
     if fs = [] then Inr (no_facts_answer question info, stored)
     else bindr (render_facts R fs) (\<lambda>rendered.
       bindr (generate_answer p question info fs (answer_inputs question retrieval rendered)) (\<lambda>a. Inr (a, stored)))))"

section \<open>What an answer rests on\<close>

lemma cite_spec:
  assumes "cite by_label ls cited rejected = (cited', rejected')"
  shows "set cited' \<subseteq> set cited \<union> ran by_label" "distinct (map pk_label cited) \<Longrightarrow> distinct (map pk_label cited')"
    "rejected' = rejected @ filter (\<lambda>l. by_label (upper l) = None) ls"
  using assms
proof (induction by_label ls cited rejected rule: cite.induct)
  case (2 by_label l ls cited rejected)
  {
    case 1
    then show ?case using 2 by (auto split: option.splits if_splits intro: ranI)
  next
    case 2
    then show ?case using "2.IH" by (auto split: option.splits if_splits)
  next
    case 3
    then show ?case using "2.IH" by (auto split: option.splits if_splits)
  }
qed auto

lemma pack_facts_source:
  assumes "f \<in> set (pack_facts rs)"
  shows "\<exists>r \<in> set rs. pk_fact_version_id f = vs_id (rt_version r) \<and> pk_fact_id f = vs_fact_id (rt_version r) \<and>
    pk_source_id f = vs_source_id (rt_version r) \<and> pk_value f = vs_value (rt_version r) \<and> pk_property f = rt_property r \<and>
    pk_valid_from f = vs_valid_from (rt_version r) \<and> pk_valid_until f = vs_valid_until (rt_version r)"
  using assms by (fastforce simp: pack_facts_def Let_def enumerate_eq_zip dest: set_zip_rightD)

lemma pack_facts_ids: "map pk_fact_version_id (pack_facts rs) = map (\<lambda>r. vs_id (rt_version r)) rs"
proof -
  have "map (\<lambda>x. vs_id (rt_version (snd x))) (enumerate k rs) = map (\<lambda>r. vs_id (rt_version r)) rs" for k
    by (induction rs arbitrary: k) simp_all
  then show ?thesis by (simp add: pack_facts_def Let_def case_prod_beta o_def)
qed

lemma pack_facts_empty: "pack_facts rs = [] \<longleftrightarrow> rs = []"
  by (simp add: pack_facts_def) (metis length_0_conv length_enumerate)

lemma check_answer_spec:
  shows "set (gc_cited (check_answer model fs)) \<subseteq> set fs" "distinct (map pk_label (gc_cited (check_answer model fs)))"
    "gc_status (check_answer model fs) = ANSWERED \<longleftrightarrow> gc_cited (check_answer model fs) \<noteq> []"
    "gc_status (check_answer model fs) = ANSWERED \<Longrightarrow> gc_rejected_labels (check_answer model fs) = [] \<and> ma_answer model \<noteq> [] \<and> \<not> ma_insufficient_evidence model"
proof -
  let ?m = "map_of (rev (map (\<lambda>f. (pk_label f, f)) fs))"
  obtain cited rejected where c: "cite ?m (ma_cited_facts model) [] [] = (cited, rejected)" by force
  have "ran ?m \<subseteq> set fs" by (auto simp: ran_def dest!: map_of_SomeD)
  then have "set cited \<subseteq> set fs" "distinct (map pk_label cited)" using cite_spec(1,2) [OF c] by auto
  then show "set (gc_cited (check_answer model fs)) \<subseteq> set fs" "distinct (map pk_label (gc_cited (check_answer model fs)))"
    "gc_status (check_answer model fs) = ANSWERED \<longleftrightarrow> gc_cited (check_answer model fs) \<noteq> []"
    "gc_status (check_answer model fs) = ANSWERED \<Longrightarrow> gc_rejected_labels (check_answer model fs) = [] \<and> ma_answer model \<noteq> [] \<and> \<not> ma_insufficient_evidence model"
    by (auto simp: check_answer_def c)
qed

lemma render_facts_total:
  assumes "\<forall>r \<in> set rs. json_dumps prompt_opts (float_repr R) (vs_value (rt_version r)) \<noteq> None"
  shows "\<exists>text. render_facts R (pack_facts rs) = Inr text"
proof -
  have one: "\<exists>t. render_fact R f = Inr t" if "f \<in> set (pack_facts rs)" for f
    using pack_facts_source [OF that] assms by (auto simp: render_fact_def Let_def)
  have "\<exists>ts. mapr (render_fact R) fs = Inr ts" if "set fs \<subseteq> set (pack_facts rs)" for fs
    using that one by (induction fs) force+
  then show ?thesis by (fastforce simp: render_facts_def)
qed

text \<open>The guarantee of an answer over the facts supplied to the model.\<close>

definition grounded_in :: "packed_fact list \<Rightarrow> grounded_answer \<Rightarrow> bool" where
  "grounded_in fs a \<longleftrightarrow> (ga_status a = ANSWERED \<longleftrightarrow> ga_citations a \<noteq> []) \<and>
     (ga_status a = ANSWERED \<longrightarrow> ga_rejected_citations a = [] \<and> (\<exists>t. ga_answer a = Some t \<and> t \<noteq> [])) \<and>
     (ga_status a \<noteq> ANSWERED \<longrightarrow> ga_inferences a = []) \<and> (ga_answer a = None \<longleftrightarrow> ga_status a = UNGROUNDED) \<and>
     (ga_grounded a \<longleftrightarrow> ga_status a \<noteq> UNGROUNDED) \<and> distinct (map ci_label (ga_citations a)) \<and>
     set (ga_citations a) \<subseteq> citation_of ` set fs \<and> ga_supplied_fact_version_ids a = map pk_fact_version_id fs"

lemma generate_answer_grounded:
  "generate_answer p question info fs inputs = Inl (PyError ''AnswerGenerationError'') \<or>
   (\<exists>a. generate_answer p question info fs inputs = Inr a \<and> grounded_in fs a \<and> ga_generation a \<noteq> None)"
proof -
  have "map ci_label (map citation_of xs) = map pk_label xs" for xs by (simp add: citation_of_def)
  moreover have "gc_cited (check_answer m fs) = []" if "gc_status (check_answer m fs) = UNGROUNDED" for m using check_answer_spec(3) [of m fs] that by simp
  ultimately show ?thesis using check_answer_spec
    by (auto simp: generate_answer_def grounded_in_def Let_def image_mono simp del: map_map split: sum.split option.split)
qed

lemma search_outcome:
  assumes "answer R p eg pr ix cache clock db0 db1 ctx q = out" and "clean_question q = Inr question"
    and "search eg pr ix cache clock db0 db1 ctx (retrieval_request question q) = Inr (r, stored)"
    and "\<forall>x \<in> set (rr_results r). json_dumps prompt_opts (float_repr R) (vs_value (rt_version x)) \<noteq> None"
  shows "\<exists>rendered. render_facts R (pack_facts (rr_results r)) = Inr rendered \<and>
    (\<forall>p'. ap_version p' = ap_version p \<longrightarrow> ap_fingerprint p' = ap_fingerprint p \<longrightarrow>
       (rr_results r = [] \<or> ap_chain p' (answer_inputs question r rendered) = ap_chain p (answer_inputs question r rendered)) \<longrightarrow>
       answer R p' eg pr ix cache clock db0 db1 ctx q = out) \<and>
    (out = Inl (PyError ''AnswerGenerationError'') \<or>
     (\<exists>a. out = Inr (a, stored) \<and> grounded_in (pack_facts (rr_results r)) a \<and> (ga_generation a = None \<longleftrightarrow> rr_results r = [])))"
proof -
  let ?fs = "pack_facts (rr_results r)"
  obtain rendered where rendered: "render_facts R ?fs = Inr rendered" using render_facts_total [OF assms(4)] by blast
  define info where "info = \<lparr>ri_valid_at = rr_valid_at r, ri_known_at = rr_known_at r, ri_vector_search = rr_vector_search r,
           ri_privacy_scopes = rr_privacy_scopes r, ri_facts_supplied = length ?fs, ri_cache = rr_cache r\<rparr>"
  have run: "answer R p' eg pr ix cache clock db0 db1 ctx q = (if rr_results r = [] then Inr (no_facts_answer question info, stored)
      else bindr (generate_answer p' question info ?fs (answer_inputs question r rendered)) (\<lambda>a. Inr (a, stored)))" for p'
    by (simp add: answer_def assms(2,3) pack_facts_empty rendered Let_def info_def)
  have same: "generate_answer p' question info ?fs (answer_inputs question r rendered) = generate_answer p question info ?fs (answer_inputs question r rendered)"
    if "ap_version p' = ap_version p" "ap_fingerprint p' = ap_fingerprint p" "ap_chain p' (answer_inputs question r rendered) = ap_chain p (answer_inputs question r rendered)" for p'
    unfolding generate_answer_def generation_of_def that ..
  have "out = Inl (PyError ''AnswerGenerationError'') \<or>
     (\<exists>a. out = Inr (a, stored) \<and> grounded_in ?fs a \<and> (ga_generation a = None \<longleftrightarrow> rr_results r = []))"
  proof (cases "rr_results r = []")
    case True
    then show ?thesis using run [of p] assms(1) by (simp add: grounded_in_def no_facts_answer_def pack_facts_def)
  next
    case False
    then show ?thesis using run [of p] assms(1) generate_answer_grounded [of p question info ?fs "answer_inputs question r rendered"] by auto
  qed
  note cases = this
  have indep: "answer R p' eg pr ix cache clock db0 db1 ctx q = out" if v: "ap_version p' = ap_version p" "ap_fingerprint p' = ap_fingerprint p"
      "rr_results r = [] \<or> ap_chain p' (answer_inputs question r rendered) = ap_chain p (answer_inputs question r rendered)" for p'
  proof (cases "rr_results r = []")
    case True
    then show ?thesis using run [of p'] run [of p] assms(1) by simp
  next
    case False
    then show ?thesis unfolding assms(1) [symmetric] run using same [OF v(1,2)] v(3) by simp
  qed
  show ?thesis by (intro exI conjI allI impI, rule rendered, rule indep, assumption+, rule cases)
qed


text \<open>Witness: the model cites F1 on the sample ledger; the only version it can have seen is 702.\<close>

definition sample_answer_query :: answer_query where
  "sample_answer_query = \<lparr>aq_question = ''  credit   limit'', aq_valid_at = Some (Aware 15), aq_known_at = None, aq_limit = 5,
     aq_entity_type = None, aq_external_ids = [], aq_properties = [], aq_max_privacy_scope = None\<rparr>"

definition sample_message :: model_message where
  "sample_message = \<lparr>mm_content = json_dumps default_opts (float_repr toy_runtime) (PDict [(''answer'', PStr ''5000''),
       (''insufficient_evidence'', PBool False), (''cited_facts'', PList [PStr ''f1''])]),
     mm_provider = None, mm_model = None, mm_input_tokens = None, mm_output_tokens = None, mm_attempts = None, mm_finish_reason = None\<rparr>"

definition sample_prompt :: answer_prompt where
  "sample_prompt = \<lparr>ap_version = ''grounded-answer-v2'', ap_fingerprint = [], ap_chain = (\<lambda>_. Inr sample_message)\<rparr>"

lemma sample_message_parses: "\<exists>model. Option.bind (json_content sample_message) parse_model_answer = Some model"
proof -
  have "Option.bind (json_content sample_message) parse_model_answer = Some \<lparr>ma_answer = ''5000'', ma_insufficient_evidence = False,
      ma_cited_facts = [''f1''], ma_inferences = []\<rparr>" by code_simp
  then show ?thesis by blast
qed

lemma generate_sample: "generate_answer sample_prompt question info fs inputs \<noteq> Inl e"
  using sample_message_parses by (auto simp: generate_answer_def sample_prompt_def Let_def)

lemma sample_question: "clean_question sample_answer_query = Inr ''credit limit''"
  by code_simp

lemma sample_answer_request: "validate_request 90 (retrieval_request ''credit limit'' sample_answer_query) = Inr sample_sr"
proof -
  have "normalize_query ''credit limit'' = Inr ''credit limit''" by code_simp
  then show ?thesis
    by (simp add: validate_request_def retrieval_request_def sample_answer_query_def sample_sr_def validate_limit_def MAX_LIMIT_def validate_trust_weight_def
        DEFAULT_TRUST_WEIGHT_def normalize_filters_def at_most_values_def check_min_confidence_def require_aware_def aware_opt_def)
qed

lemma uncached_search: "search eg pr ix None clock db0 db1 ctx q = Inr (r, stored) \<Longrightarrow> rr_cache r = Off"
  by (auto simp: search_def cache_key_for_def search_database_def Let_def result_simps case_prod_beta simp del: filter.simps)

lemma sample_results:
  assumes "search toy_engine toy_provider sample_index None 90 one_version_db one_version_db admin_ctx (retrieval_request ''credit limit'' sample_answer_query) = Inr (r, stored)"
    and "x \<in> set (rr_results r)"
  shows "vs_value (rt_version x) = PInt 5000"
proof -
  obtain v where "v \<in> set (fact_versions one_version_db)" "rt_version x = as_known (to_snapshot v) (sr_known_at sample_sr)"
    using search_returns_scoped [OF one_version_ledger toy_engine_ok sample_answer_request sample_reader sample_reader, of toy_provider sample_index None]
      assms uncached_search [OF assms(1)] by (auto simp: in_scope_def)
  then show ?thesis by (simp add: one_version_db_def first_version_def to_snapshot_def as_known_def sample_sr_def)
qed


end
