(* ===== verification/Retrieval_Cache.thy ===== *)
theory Retrieval_Cache
  imports Receipt_Integrity Kv_Store
begin

text \<open>
  The shared cache of search results (\<^verbatim>\<open>app/cache/retrieval.py\<close>) over the key-value store. An
  entry is keyed by the tenant, its generation and a digest of everything that can change
  the result, among it the privacy scopes of the caller; writers bump the generation. The
  JSON form of a result (pydantic) is a parameter. Shown: a hit is a result stored for the
  same tenant, scopes and question, and while the generation counter lives nothing stored
  before an invalidation is returned after it; and that the counter does not outlive its
  entries.
\<close>

section \<open>Operations\<close>

definition GENERATION_TTL_SECONDS :: rat where "GENERATION_TTL_SECONDS = 7 * 24 * 3600"
definition KEY_VERSION :: string where "KEY_VERSION = ''v1''"

definition generation_key :: "uuid \<Rightarrow> string" where
  "generation_key org = ''cl:retrieval:gen:'' @ uuid_str org"

text \<open>An aware datetime is its UTC text, a naive one has no offset.\<close>

definition instant_text :: "instant option \<Rightarrow> string \<Rightarrow> string" where
  "instant_text value def = (case value of None \<Rightarrow> def | Some t \<Rightarrow> iso_utc t)"

definition pydatetime_text :: "pydatetime option \<Rightarrow> string \<Rightarrow> string" where
  "pydatetime_text value def = (case value of None \<Rightarrow> def | Some (Aware t) \<Rightarrow> iso_utc t | Some (Naive t) \<Rightarrow> take (length (iso_utc t) - 6) (iso_utc t))"

definition generation :: "'s kv_ops \<Rightarrow> rat \<Rightarrow> uuid \<Rightarrow> ('s, int option) io" where
  "generation K now org = except_unavailable
     (thens (kv_get K now (generation_key org)) (\<lambda>raw. case raw of
         None \<Rightarrow> returns (Some 0)
       | Some t \<Rightarrow> (case py_int t of None \<Rightarrow> raises (PyError ''ValueError'') | Some n \<Rightarrow> returns (Some n))))
     (returns None)"

definition invalidate :: "'s kv_ops \<Rightarrow> rat \<Rightarrow> uuid \<Rightarrow> ('s, unit) io" where
  "invalidate K now org = except_unavailable
     (thens (kv_increment K now (generation_key org) GENERATION_TTL_SECONDS) (\<lambda>_. returns ()))
     (returns ())"

definition key_fields :: "runtime \<Rightarrow> cache_material \<Rightarrow> (string \<times> pyval) list" where
  "key_fields R c = [
     (''scopes'', PList (map PStr (sort (map scope_str (remdups (cm_scopes c)))))),
     (''model'', PStr (cm_model c)), (''query'', PStr (cm_query c)), (''limit'', PInt (cm_limit c)),
     (''trust_weight'', PFloat (cm_trust_weight c)), (''entity_type'', str_or_none (fl_entity_type (cm_filters c))),
     (''external_ids'', PList (map PStr (fl_external_ids (cm_filters c)))),
     (''properties'', PList (map PStr (fl_properties (cm_filters c)))),
     (''source_ids'', PList (map (\<lambda>u. PStr (uuid_str u)) (fl_source_ids (cm_filters c)))),
     (''min_authority'', (case fl_min_authority (cm_filters c) of None \<Rightarrow> PNone | Some a \<Rightarrow> PInt a)),
     (''min_confidence'', (case fl_min_confidence (cm_filters c) of None \<Rightarrow> PNone | Some r \<Rightarrow> PStr (decimal_str R (DFinite r)))),
     (''valid_at'', PStr (pydatetime_text (cm_valid_at c) ''now'')), (''known_at'', PStr (instant_text (cm_known_at c) ''latest''))]"

definition cache_key :: "runtime \<Rightarrow> cache_material \<Rightarrow> string result" where
  "cache_key R c = bindr (some_or (json_dumps (dumps_opts True) (float_repr R) (PDict (key_fields R c))) (PyError ''TypeError'')) (\<lambda>material.
     Inr (''cl:retrieval:'' @ KEY_VERSION @ '':'' @ uuid_str (cm_organization_id c) @ '':'' @ int_str (cm_generation c) @ '':'' @ sha256 R material))"

text \<open>The JSON form of a result; \<open>None\<close> is a ValidationError.\<close>

record result_codec =
  rc_dump :: "retrieval_result \<Rightarrow> string"
  rc_validate :: "string \<Rightarrow> retrieval_result option"

definition codec_ok :: "result_codec \<Rightarrow> retrieval_result set \<Rightarrow> bool" where
  "codec_ok C rs \<longleftrightarrow> (\<forall>r \<in> rs. rc_validate C (rc_dump C r) = Some r)"

definition cache_get :: "'s kv_ops \<Rightarrow> result_codec \<Rightarrow> rat \<Rightarrow> string \<Rightarrow> ('s, retrieval_result option) io" where
  "cache_get K C now key = except_unavailable
     (thens (kv_get K now key) (\<lambda>raw. case raw of None \<Rightarrow> returns None | Some t \<Rightarrow> returns (rc_validate C t)))
     (returns None)"

definition cache_put :: "'s kv_ops \<Rightarrow> result_codec \<Rightarrow> rat \<Rightarrow> rat \<Rightarrow> string \<Rightarrow> retrieval_result \<Rightarrow> ('s, unit) io" where
  "cache_put K C ttl now key r = except_unavailable
     (thens (kv_set K now key (rc_dump C r) ttl False) (\<lambda>_. returns ()))
     (returns ())"

section \<open>Keys\<close>

lemma canon_PStr [simp]: "json_canon opts \<circ> PStr = PStr" "map PStr xs = map PStr ys \<longleftrightarrow> xs = ys"
  by (simp_all add: fun_eq_iff inj_map_eq_map inj_def)

text \<open>What two materials share when their texts are equal.\<close>

definition same_search :: "cache_material \<Rightarrow> cache_material \<Rightarrow> bool" where
  "same_search c c' \<longleftrightarrow> cm_organization_id c = cm_organization_id c' \<and> cm_generation c = cm_generation c' \<and>
     set (cm_scopes c) = set (cm_scopes c') \<and> cm_model c = cm_model c' \<and> cm_query c = cm_query c' \<and> cm_limit c = cm_limit c' \<and>
     cm_trust_weight c = cm_trust_weight c' \<and> fl_entity_type (cm_filters c) = fl_entity_type (cm_filters c') \<and>
     fl_external_ids (cm_filters c) = fl_external_ids (cm_filters c') \<and> fl_properties (cm_filters c) = fl_properties (cm_filters c') \<and>
     fl_min_authority (cm_filters c) = fl_min_authority (cm_filters c') \<and>
     pydatetime_text (cm_valid_at c) ''now'' = pydatetime_text (cm_valid_at c') ''now'' \<and>
     instant_text (cm_known_at c) ''latest'' = instant_text (cm_known_at c') ''latest''"

lemma same_material:
  assumes eq: "json_canon (dumps_opts True) (PDict (key_fields R c)) = json_canon (dumps_opts True) (PDict (key_fields R c'))"
    and "cm_organization_id c = cm_organization_id c'" "cm_generation c = cm_generation c'"
  shows "same_search c c'"
proof -
  have d: "distinct (map fst (key_fields R c))" for c by (simp add: key_fields_def)
  have field: "json_canon (dumps_opts True) v = json_canon (dumps_opts True) w" if "(k, v) \<in> set (key_fields R c)" "(k, w) \<in> set (key_fields R c')" for k v w
    by (rule json_canon_dict_at [OF eq d d that])
  let ?scopes = "\<lambda>c. sort (map scope_str (remdups (cm_scopes c)))"
  have "?scopes c = ?scopes c'"
    using field [of "''scopes''" "PList (map PStr (?scopes c))" "PList (map PStr (?scopes c'))"]
    by (simp add: key_fields_def)
  then have "scope_str ` set (cm_scopes c) = scope_str ` set (cm_scopes c')" by (metis set_map set_remdups set_sort)
  moreover have "inj scope_str" by (simp add: inj_def scope_str_inj)
  ultimately have "set (cm_scopes c) = set (cm_scopes c')" by (simp add: inj_image_eq_iff)
  moreover have "cm_model c = cm_model c'" "cm_query c = cm_query c'" "cm_limit c = cm_limit c'" "cm_trust_weight c = cm_trust_weight c'"
    using field [of "''model''" "PStr (cm_model c)" "PStr (cm_model c')"] field [of "''query''" "PStr (cm_query c)" "PStr (cm_query c')"]
      field [of "''limit''" "PInt (cm_limit c)" "PInt (cm_limit c')"] field [of "''trust_weight''" "PFloat (cm_trust_weight c)" "PFloat (cm_trust_weight c')"]
    by (simp_all add: key_fields_def)
  moreover have "fl_entity_type (cm_filters c) = fl_entity_type (cm_filters c')"
    using field [of "''entity_type''" "str_or_none (fl_entity_type (cm_filters c))" "str_or_none (fl_entity_type (cm_filters c'))"]
    by (simp add: key_fields_def str_or_none_inj)
  moreover have "fl_external_ids (cm_filters c) = fl_external_ids (cm_filters c')" "fl_properties (cm_filters c) = fl_properties (cm_filters c')"
    using field [of "''external_ids''" "PList (map PStr (fl_external_ids (cm_filters c)))" "PList (map PStr (fl_external_ids (cm_filters c')))"]
      field [of "''properties''" "PList (map PStr (fl_properties (cm_filters c)))" "PList (map PStr (fl_properties (cm_filters c')))"]
    by (simp_all add: key_fields_def)
  moreover have "fl_min_authority (cm_filters c) = fl_min_authority (cm_filters c')"
    using field [of "''min_authority''" "case fl_min_authority (cm_filters c) of None \<Rightarrow> PNone | Some a \<Rightarrow> PInt a"
        "case fl_min_authority (cm_filters c') of None \<Rightarrow> PNone | Some a \<Rightarrow> PInt a"]
    by (simp add: key_fields_def split: option.splits)
  moreover have "pydatetime_text (cm_valid_at c) ''now'' = pydatetime_text (cm_valid_at c') ''now''"
    "instant_text (cm_known_at c) ''latest'' = instant_text (cm_known_at c') ''latest''"
    using field [of "''valid_at''" "PStr (pydatetime_text (cm_valid_at c) ''now'')" "PStr (pydatetime_text (cm_valid_at c') ''now'')"]
      field [of "''known_at''" "PStr (instant_text (cm_known_at c) ''latest'')" "PStr (instant_text (cm_known_at c') ''latest'')"]
    by (simp_all add: key_fields_def)
  ultimately show ?thesis using assms(2,3) by (simp add: same_search_def)
qed

definition material_text :: "runtime \<Rightarrow> cache_material \<Rightarrow> string" where
  "material_text R c = (case json_dumps (dumps_opts True) (float_repr R) (PDict (key_fields R c)) of None \<Rightarrow> [] | Some t \<Rightarrow> t)"

definition material_ok :: "runtime \<Rightarrow> cache_material \<Rightarrow> bool" where
  "material_ok R c \<longleftrightarrow> cm_organization_id c < 2 ^ 128 \<and> 0 \<le> cm_generation c \<and> float_reads (float_repr R) (cm_trust_weight c)"

lemma fields_json_value: "material_ok R c \<Longrightarrow> json_value (float_repr R) (PDict (key_fields R c))"
  by (simp add: key_fields_def material_ok_def split: option.split)

lemma int_str_split:
  assumes "int_str m @ CHR '':'' # xs = int_str n @ CHR '':'' # ys" and "0 \<le> m" "0 \<le> n"
  shows "m = n \<and> xs = ys"
proof -
  have d: "CHR '':'' \<notin> set (nat_str k)" for k using nat_str_digits [of k] by (auto simp: is_digit_def)
  have eq: "nat_str (nat m) @ CHR '':'' # xs = nat_str (nat n) @ CHR '':'' # ys" using assms by (simp add: int_str_def)
  have tw: "takeWhile (\<lambda>c. c \<noteq> CHR '':'') (nat_str k @ CHR '':'' # zs) = nat_str k" for k zs
    using d [of k] by (subst takeWhile_append2) auto
  have "nat_str (nat m) = nat_str (nat n)" using arg_cong [OF eq, of "takeWhile (\<lambda>c. c \<noteq> CHR '':'')"] unfolding tw .
  then have "nat_str (nat m) = nat_str (nat n) \<and> xs = ys" using eq by simp
  moreover from this have "int (nat m) = int (nat n)" by (metis option.inject py_int_nat_str)
  ultimately show ?thesis using assms(2,3) by simp
qed

lemma cache_key_same:
  assumes "cache_key R c = Inr k" "cache_key R c' = Inr k" and "material_ok R c" "material_ok R c'"
    and "inj_on (sha256 R) {material_text R c, material_text R c'}"
  shows "same_search c c'"
proof -
  obtain m m' where m: "json_dumps (dumps_opts True) (float_repr R) (PDict (key_fields R c)) = Some m"
      "json_dumps (dumps_opts True) (float_repr R) (PDict (key_fields R c')) = Some m'"
    and k: "uuid_str (cm_organization_id c) @ CHR '':'' # int_str (cm_generation c) @ CHR '':'' # sha256 R m =
      uuid_str (cm_organization_id c') @ CHR '':'' # int_str (cm_generation c') @ CHR '':'' # sha256 R m'"
    using assms(1,2) by (auto simp: cache_key_def result_simps)
  have "length (uuid_str u) = 36" for u by (simp add: uuid_str_def Let_def)
  then have org: "uuid_str (cm_organization_id c) = uuid_str (cm_organization_id c')"
    and rest: "int_str (cm_generation c) @ CHR '':'' # sha256 R m = int_str (cm_generation c') @ CHR '':'' # sha256 R m'" using k by auto
  have "cm_organization_id c = cm_organization_id c'" using uuid_str_inj [OF _ _ org] assms(3,4) by (simp add: material_ok_def)
  moreover have gen: "cm_generation c = cm_generation c' \<and> sha256 R m = sha256 R m'"
    by (rule int_str_split [OF rest]) (use assms(3,4) in \<open>simp_all add: material_ok_def\<close>)
  moreover have "m = m'" using gen assms(5) m by (auto simp: inj_on_def material_text_def)
  then have "json_canon (dumps_opts True) (PDict (key_fields R c)) = json_canon (dumps_opts True) (PDict (key_fields R c'))"
    by (intro dumps_inj [OF _ fields_json_value fields_json_value]) (use m assms(3,4) in \<open>simp_all add: plain_seps_def dumps_opts_def\<close>)
  ultimately show ?thesis using same_material by blast
qed

section \<open>Histories of the cache\<close>

datatype cache_op = CPut cache_material retrieval_result | CInvalidate uuid

fun cache_step :: "'s kv_ops \<Rightarrow> runtime \<Rightarrow> result_codec \<Rightarrow> rat \<Rightarrow> rat \<times> cache_op \<Rightarrow> 's \<Rightarrow> 's" where
  "cache_step K R C ttl (t, CPut c r) s = (case cache_key R c of Inl _ \<Rightarrow> s | Inr k \<Rightarrow> snd (cache_put K C ttl t k r s))"
| "cache_step K R C ttl (t, CInvalidate org) s = snd (invalidate K t org s)"

definition cache_run :: "'s kv_ops \<Rightarrow> runtime \<Rightarrow> result_codec \<Rightarrow> rat \<Rightarrow> (rat \<times> cache_op) list \<Rightarrow> 's \<Rightarrow> 's" where
  "cache_run K R C ttl ops s = fold (cache_step K R C ttl) ops s"

definition counters_ok :: "(string \<rightharpoonup> string \<times> rat) \<Rightarrow> bool" where
  "counters_ok m \<longleftrightarrow> (\<forall>org v e. m (generation_key org) = Some (v, e) \<longrightarrow> (\<exists>n \<ge> 1. v = int_str n))"

definition count_of :: "(string \<times> rat) option \<Rightarrow> int" where
  "count_of x = (case x of None \<Rightarrow> 0 | Some (v, e) \<Rightarrow> (case py_int v of None \<Rightarrow> 0 | Some n \<Rightarrow> n))"

lemma count_of_int_str: "0 \<le> n \<Longrightarrow> count_of (Some (int_str n, e)) = n"
  by (simp add: count_of_def py_int_int_str)

lemma cache_key_not_counter: "cache_key R c = Inr k \<Longrightarrow> k \<noteq> generation_key org"
  by (auto simp: cache_key_def result_simps generation_key_def KEY_VERSION_def)

text \<open>The counter of a tenant does not expire until \<open>T\<close>, whether it exists or is created from now on.\<close>

definition counter_lives :: "(string \<rightharpoonup> string \<times> rat) \<Rightarrow> rat \<Rightarrow> uuid \<Rightarrow> rat \<Rightarrow> bool" where
  "counter_lives m t org T \<longleftrightarrow> T < t + GENERATION_TTL_SECONDS \<and> (\<forall>v e. m (generation_key org) = Some (v, e) \<longrightarrow> T < e)"

context reliable_kv_store
begin

lemma put_view:
  assumes "t \<le> t'"
  shows "view (snd (cache_put K C ttl t k r s)) t' = (view s t')(k := entry_at t' (rc_dump C r, t + ttl))"
proof -
  obtain w s' where set: "kv_set K t k (rc_dump C r) ttl False s = (Inr w, s')" using set_total by blast
  then show ?thesis using set_law [OF set] assms by (simp add: cache_put_def except_unavailable_def thens_def returns_def)
qed

lemma invalidate_view:
  assumes "counters_ok (view s t)"
  obtains n e where "1 \<le> n" "n = count_of (view s t (generation_key org)) + 1"
    "e = (case view s t (generation_key org) of None \<Rightarrow> t + GENERATION_TTL_SECONDS | Some (v, x) \<Rightarrow> x)"
    "\<And>t'. t \<le> t' \<Longrightarrow> view (snd (invalidate K t org s)) t' = (view s t')(generation_key org := entry_at t' (int_str n, e))"
proof -
  have num: "\<exists>n \<ge> 1. v = int_str n" if "view s t (generation_key org) = Some (v, e)" for v e
    using assms that unfolding counters_ok_def by blast
  then have "py_int v \<noteq> None" if "view s t (generation_key org) = Some (v, e)" for v e using that py_int_int_str by fastforce
  then obtain c s1 where inc: "kv_increment K t (generation_key org) GENERATION_TTL_SECONDS s = (Inr c, s1)" using increment_total by blast
  obtain e where e: "case view s t (generation_key org) of None \<Rightarrow> cn_value c = 1 \<and> e = t + GENERATION_TTL_SECONDS
        | Some (v, y) \<Rightarrow> py_int v = Some (cn_value c - 1) \<and> e = y"
      "\<forall>t' \<ge> t. view s1 t' = (view s t')(generation_key org := entry_at t' (int_str (cn_value c), e))" using increment_law [OF inc] by blast
  have "1 \<le> cn_value c \<and> cn_value c = count_of (view s t (generation_key org)) + 1 \<and>
      e = (case view s t (generation_key org) of None \<Rightarrow> t + GENERATION_TTL_SECONDS | Some (v, x) \<Rightarrow> x)"
  proof (cases "view s t (generation_key org)")
    case (Some vx)
    then obtain n where n: "1 \<le> n" "fst vx = int_str n" using num by (cases vx) auto
    then show ?thesis using e(1) Some py_int_int_str [of n] by (cases vx) (simp add: count_of_def)
  qed (use e(1) in \<open>simp add: count_of_def\<close>)
  moreover have "snd (invalidate K t org s) = s1" using inc by (simp add: invalidate_def except_unavailable_def thens_def returns_def)
  ultimately show thesis using that [of "cn_value c" e] e(2) by simp
qed

lemma counters_ok_later: "counters_ok (view s t) \<Longrightarrow> t \<le> t' \<Longrightarrow> counters_ok (view s t')"
  unfolding counters_ok_def using view_stays by blast

lemma step_counters:
  assumes "counters_ok (view s t)"
  shows "counters_ok (view (cache_step K R C ttl (t, op) s) t)"
proof (cases op)
  case (CPut c r)
  show ?thesis
  proof (cases "cache_key R c")
    case (Inr k)
    have "view (snd (cache_put K C ttl t k r s)) t (generation_key org) = view s t (generation_key org)" for org
      using put_view [of t t C ttl k r s] cache_key_not_counter [OF Inr, of org] by auto
    then show ?thesis using assms Inr CPut by (simp add: counters_ok_def)
  qed (use assms CPut in simp)
next
  case (CInvalidate org)
  obtain n e where n: "1 \<le> n" and v: "\<And>t'. t \<le> t' \<Longrightarrow> view (snd (invalidate K t org s)) t' = (view s t')(generation_key org := entry_at t' (int_str n, e))"
    by (rule invalidate_view [OF assms, of org]) (rule that)
  show ?thesis using assms v [of t] n CInvalidate by (auto simp: counters_ok_def entry_at_simps split: if_splits)
qed

text \<open>Where an entry of the cache comes from.\<close>

lemma step_entry:
  assumes "counters_ok (view s t)" and "t \<le> t'" and k: "cache_key R M = Inr k"
  shows "view (cache_step K R C ttl (t, op) s) t' k = view s t' k \<or>
    (\<exists>c r. op = CPut c r \<and> cache_key R c = Inr k \<and> view (cache_step K R C ttl (t, op) s) t' k = entry_at t' (rc_dump C r, t + ttl))"
proof (cases op)
  case (CPut c r)
  show ?thesis
  proof (cases "cache_key R c")
    case (Inr k')
    then show ?thesis using put_view [OF assms(2), of C ttl k' r s] CPut by auto
  qed (use CPut in simp)
next
  case (CInvalidate org)
  obtain n e where v: "\<And>t'. t \<le> t' \<Longrightarrow> view (snd (invalidate K t org s)) t' = (view s t')(generation_key org := entry_at t' (int_str n, e))"
    by (rule invalidate_view [OF assms(1), of org]) (rule that)
  then show ?thesis using v [OF assms(2)] cache_key_not_counter [OF k] CInvalidate by simp
qed

lemma run_entry:
  assumes "counters_ok (view s t)" and "sorted (t # map fst ops @ [T])" and k: "cache_key R M = Inr k" and "view (cache_run K R C ttl ops s) T k = Some (x, e)"
  shows "view s T k = Some (x, e) \<or> (\<exists>t0 c r. (t0, CPut c r) \<in> set ops \<and> cache_key R c = Inr k \<and> x = rc_dump C r \<and> T < t0 + ttl)"
  using assms
proof (induction ops arbitrary: s t)
  case (Cons op ops)
  obtain t1 o1 where op: "op = (t1, o1)" by (cases op)
  have t1: "t \<le> t1" "sorted (t1 # map fst ops @ [T])" "t1 \<le> T" using Cons.prems(2) op by (auto simp: sorted_append)
  have c1: "counters_ok (view s t1)" by (rule counters_ok_later [OF Cons.prems(1) t1(1)])
  have run: "cache_run K R C ttl (op # ops) s = cache_run K R C ttl ops (cache_step K R C ttl (t1, o1) s)" by (simp add: cache_run_def op)
  have "view (cache_step K R C ttl (t1, o1) s) T k = Some (x, e) \<or>
      (\<exists>t0 c r. (t0, CPut c r) \<in> set ops \<and> cache_key R c = Inr k \<and> x = rc_dump C r \<and> T < t0 + ttl)"
    by (rule Cons.IH [OF step_counters [OF c1] t1(2) k]) (use Cons.prems(4) run in simp)
  then show ?case
  proof
    assume now: "view (cache_step K R C ttl (t1, o1) s) T k = Some (x, e)"
    show ?thesis using step_entry [OF c1 t1(3) k, of C ttl o1]
    proof (elim disjE exE conjE)
      fix c r assume "o1 = CPut c r" "cache_key R c = Inr k" "view (cache_step K R C ttl (t1, o1) s) T k = entry_at T (rc_dump C r, t1 + ttl)"
      moreover from this(3) have "x = rc_dump C r" "T < t1 + ttl" using now by (simp_all add: entry_at_simps split: if_splits)
      ultimately have "(t1, CPut c r) \<in> set (op # ops) \<and> cache_key R c = Inr k \<and> x = rc_dump C r \<and> T < t1 + ttl" by (simp add: op)
      then show ?thesis by blast
    qed (use now in simp)
  qed (use op in auto)
qed (simp add: cache_run_def)

text \<open>While the counter of a tenant lives, it counts the invalidations.\<close>

lemma counter_lives_later:
  assumes "counter_lives (view s t) t org T" and "t \<le> t'" "t' \<le> T"
  shows "view s t' (generation_key org) = view s t (generation_key org)" "counter_lives (view s t') t' org T"
proof -
  show same: "view s t' (generation_key org) = view s t (generation_key org)"
    using assms view_gone [OF assms(2)] view_until [OF assms(2)]
    by (cases "view s t (generation_key org)") (auto simp: counter_lives_def)
  show "counter_lives (view s t') t' org T" using assms same by (auto simp: counter_lives_def)
qed

lemma step_counts:
  assumes ok: "counters_ok (view s t)" and lives: "counter_lives (view s t) t org T"
  shows "counter_lives (view (cache_step K R C ttl (t, op) s) t) t org T \<and>
    count_of (view s t (generation_key org)) + (if op = CInvalidate org then 1 else 0) \<le>
      count_of (view (cache_step K R C ttl (t, op) s) t (generation_key org))"
proof (cases op)
  case (CPut c r)
  show ?thesis
  proof (cases "cache_key R c")
    case (Inr k)
    then show ?thesis using put_view [of t t C ttl k r s] CPut cache_key_not_counter [OF Inr, of org] lives by (auto simp: counter_lives_def)
  qed (use CPut lives in simp)
next
  case (CInvalidate org')
  obtain n e where n: "1 \<le> n" "n = count_of (view s t (generation_key org')) + 1"
    "e = (case view s t (generation_key org') of None \<Rightarrow> t + GENERATION_TTL_SECONDS | Some (v, x) \<Rightarrow> x)"
    and v: "view (snd (invalidate K t org' s)) t = (view s t)(generation_key org' := entry_at t (int_str n, e))"
    by (rule invalidate_view [OF ok, of org']) (use that in blast)
  show ?thesis
  proof (cases "generation_key org' = generation_key org")
    case True
    have "T < e" using lives n(3) True by (auto simp: counter_lives_def split: option.splits)
    moreover have "t < e" using n(3) view_live [of s t "generation_key org'"] by (auto simp: GENERATION_TTL_SECONDS_def split: option.splits)
    ultimately show ?thesis using v lives n CInvalidate True by (auto simp: counter_lives_def entry_at_simps count_of_int_str)
  next
    case False
    then show ?thesis using v lives CInvalidate by (auto simp: counter_lives_def)
  qed
qed

lemma run_counts:
  assumes "counters_ok (view s t)" and "sorted (t # map fst ops @ [T])" and "counter_lives (view s t) t org T"
  shows "count_of (view s t (generation_key org)) + int (length (filter (\<lambda>op. snd op = CInvalidate org) ops)) \<le>
    count_of (view (cache_run K R C ttl ops s) T (generation_key org))"
  using assms
proof (induction ops arbitrary: s t)
  case Nil
  then show ?case using counter_lives_later(1) [OF Nil.prems(3), of T] by (simp add: cache_run_def)
next
  case (Cons op ops)
  obtain t1 o1 where op: "op = (t1, o1)" by (cases op)
  have t1: "t \<le> t1" "sorted (t1 # map fst ops @ [T])" "t1 \<le> T" using Cons.prems(2) op by (auto simp: sorted_append)
  have c1: "counters_ok (view s t1)" by (rule counters_ok_later [OF Cons.prems(1) t1(1)])
  note l = counter_lives_later [OF Cons.prems(3) t1(1,3)]
  have run: "cache_run K R C ttl (op # ops) s = cache_run K R C ttl ops (cache_step K R C ttl (t1, o1) s)" by (simp add: cache_run_def op)
  note st = step_counts [OF c1 l(2), of R C ttl o1]
  show ?case unfolding run using Cons.IH [OF step_counters [OF c1] t1(2), of R C ttl o1] st l(1) by (auto simp: op)
qed

lemma run_counters:
  assumes "counters_ok (view s t)" and "sorted (t # map fst ops @ [T])"
  shows "counters_ok (view (cache_run K R C ttl ops s) T)"
  using assms
proof (induction ops arbitrary: s t)
  case (Cons op ops)
  obtain t1 o1 where op: "op = (t1, o1)" by (cases op)
  have t1: "t \<le> t1" "sorted (t1 # map fst ops @ [T])" using Cons.prems(2) op by auto
  show ?case using Cons.IH [OF step_counters [OF counters_ok_later [OF Cons.prems(1) t1(1)]] t1(2)] by (simp add: cache_run_def op)
qed (simp add: cache_run_def counters_ok_later)

lemma generation_counts:
  assumes "counters_ok (view s t)"
  shows "fst (generation K t org s) = Inr (Some (count_of (view s t (generation_key org))))"
proof -
  obtain r s' where g: "kv_get K t (generation_key org) s = (Inr r, s')" using get_total by blast
  have r: "r = map_option fst (view s t (generation_key org))" using get_law [OF g] by simp
  show ?thesis
  proof (cases "view s t (generation_key org)")
    case (Some ve)
    then obtain n where "1 \<le> n" "fst ve = int_str n" using assms unfolding counters_ok_def by (cases ve) force
    then show ?thesis using g r Some py_int_int_str [of n]
      by (cases ve) (simp add: generation_def except_unavailable_def thens_def returns_def count_of_def)
  qed (use g r in \<open>simp add: generation_def except_unavailable_def thens_def returns_def count_of_def\<close>)
qed

lemma hit_entry:
  assumes "fst (cache_get K C t k s) = Inr (Some r)"
  obtains x e where "view s t k = Some (x, e)" "rc_validate C x = Some r"
proof -
  obtain raw s' where g: "kv_get K t k s = (Inr raw, s')" using get_total by blast
  have "raw = map_option fst (view s t k)" using get_law [OF g] by simp
  then show thesis using g assms that by (cases "view s t k") (auto simp: cache_get_def except_unavailable_def thens_def returns_def)
qed

lemma hit_sound:
  assumes times: "sorted (t # map fst before @ tr # map fst after @ [T])" and empty: "view s t = Map.empty" and codec: "codec_ok C {r. \<exists>t0 c. (t0, CPut c r) \<in> set (before @ after)}"
    and key: "cache_key R M = Inr k" and hit: "fst (cache_get K C T k (cache_run K R C ttl (before @ after) s)) = Inr (Some r)"
    and mats: "\<forall>c \<in> insert M {c. \<exists>t0 r. (t0, CPut c r) \<in> set (before @ after)}. material_ok R c"
    and inj: "inj_on (sha256 R) (material_text R ` insert M {c. \<exists>t0 r. (t0, CPut c r) \<in> set (before @ after)})"
    and org: "org = cm_organization_id M"
    and read: "fst (generation K tr org (cache_run K R C ttl before s)) = Inr (Some g)"
    and current: "fst (generation K T org (cache_run K R C ttl (before @ after) s)) = Inr (Some (cm_generation M))"
  shows "\<exists>t0 c. (t0, CPut c r) \<in> set (before @ after) \<and> same_search c M \<and> T < t0 + ttl \<and>
    ((\<exists>t1. (t1, CInvalidate org) \<in> set after) \<and> counter_lives (view (cache_run K R C ttl before s) tr) tr org T \<longrightarrow> g < cm_generation c)"
proof -
  let ?s1 = "cache_run K R C ttl before s" and ?s2 = "cache_run K R C ttl (before @ after) s"
  have ok0: "counters_ok (view s t)" by (simp add: counters_ok_def empty)
  have ts: "sorted (t # map fst (before @ after) @ [T])" "sorted (t # map fst before @ [tr])" "sorted (tr # map fst after @ [T])" "t \<le> T"
    using times by (auto simp: sorted_append)
  have run: "?s2 = cache_run K R C ttl after ?s1" by (simp add: cache_run_def)
  note ok1 = run_counters [OF ok0 ts(2), of R C ttl] and ok2 = run_counters [OF ok0 ts(1), of R C ttl]
  obtain x e where x: "view ?s2 T k = Some (x, e)" "rc_validate C x = Some r" by (rule hit_entry [OF hit])
  have "view s T k = None" using view_gone [OF ts(4), of s k] empty by simp
  then obtain t0 c r' where p: "(t0, CPut c r') \<in> set (before @ after)" "cache_key R c = Inr k" "x = rc_dump C r'" "T < t0 + ttl"
    using run_entry [OF ok0 ts(1) key x(1)] by auto
  have "r' = r" using x(2) p(1,3) codec unfolding codec_ok_def by fastforce
  moreover have same: "same_search c M"
  proof (rule cache_key_same [OF p(2) key])
    show "material_ok R c" "material_ok R M" using mats p(1) by auto
    show "inj_on (sha256 R) {material_text R c, material_text R M}" by (rule inj_on_subset [OF inj]) (use p(1) in auto)
  qed
  moreover have "g < cm_generation c" if inv: "(t1, CInvalidate org) \<in> set after" and lives: "counter_lives (view ?s1 tr) tr org T" for t1
  proof -
    have "0 < length (filter (\<lambda>op. snd op = CInvalidate org) after)" using inv by (force simp: length_greater_0_conv filter_empty_conv)
    then have "count_of (view ?s1 tr (generation_key org)) < count_of (view ?s2 T (generation_key org))"
      using run_counts [OF ok1 ts(3) lives, of R C ttl] unfolding run by linarith
    then show ?thesis using generation_counts [OF ok1] generation_counts [OF ok2] read current same by (simp add: same_search_def)
  qed
  ultimately show ?thesis using p by blast
qed

end

section \<open>Properties\<close>


text \<open>Witness: an invalidation, then a stored result and its hit.\<close>

definition sample_material :: cache_material where
  "sample_material = \<lparr>cm_organization_id = 1, cm_generation = 1, cm_scopes = [PUBLIC], cm_model = ''m'', cm_query = ''q'', cm_limit = 5,
     cm_trust_weight = 1 / 2, cm_filters = \<lparr>fl_entity_type = None, fl_external_ids = [], fl_properties = [], fl_source_ids = [],
       fl_min_authority = None, fl_min_confidence = None\<rparr>, cm_valid_at = None, cm_known_at = None\<rparr>"

definition sample_cached :: retrieval_result where
  "sample_cached = \<lparr>rr_query = ''q'', rr_valid_at = 0, rr_known_at = None, rr_vector_search = Used, rr_embedding_model = ''m'',
     rr_privacy_scopes = [PUBLIC], rr_vector_candidates = 0, rr_text_candidates = 0, rr_results = [], rr_cache = Miss\<rparr>"

definition sample_codec :: result_codec where
  "sample_codec = \<lparr>rc_dump = (\<lambda>_. ''r''), rc_validate = (\<lambda>_. Some sample_cached)\<rparr>"

lemma sample_key: "\<exists>k. cache_key toy_runtime sample_material = Inr k"
  by (simp add: cache_key_def result_simps key_fields_def sample_material_def str_or_none_def toy_runtime_def)

lemma half_reads: "float_reads (\<lambda>r. ''0.5'') (1 / 2)"
proof -
  have "scan_value (Suc n) (''0.5'' @ rest) = Some (PFloat (1 / 2), rest)" if "stops rest" for n rest
    using that by (cases rest) (auto simp: stops_def scan_word_def scan_number_def scan_unsigned_def scan_nat_def scan_frac_def scan_exp_def scan_digits_def
        is_digit_def number_value_def digits_value_def)
  then show ?thesis by (simp add: float_reads_def)
qed

lemma sample_run:
  assumes k: "cache_key toy_runtime sample_material = Inr k"
  shows "cache_run memory_store toy_runtime sample_codec 60 [(1, CInvalidate 1), (2, CPut sample_material sample_cached)] Map.empty =
    Map.empty(generation_key 1 \<mapsto> (int_str 1, 604801), k \<mapsto> (''r'', 62))"
proof -
  have "k \<noteq> generation_key (Suc 0)" "generation_key (Suc 0) \<noteq> k" using cache_key_not_counter [OF k, of "Suc 0"] by auto
  then show ?thesis
    by (simp add: cache_run_def k invalidate_def cache_put_def sample_codec_def GENERATION_TTL_SECONDS_def
        except_unavailable_def thens_def returns_def memory_store_def memory_increment_def live_def memory_set_def Let_def)
qed


text \<open>
  The counter does not outlive its entries: it keeps the expiry of its first increment, and an
  entry stored just before that is returned after the next invalidation, which counts to 1 again.
\<close>

definition stale_store :: memory where
  "stale_store = cache_run memory_store toy_runtime sample_codec 60 [(0, CInvalidate 1), (604799, CPut sample_material sample_cached), (604801, CInvalidate 1)] Map.empty"

lemma stale_hit_after_reset:
  "\<exists>k. cache_key toy_runtime sample_material = Inr k \<and>
     fst (cache_get memory_store sample_codec 604802 k stale_store) = Inr (Some sample_cached) \<and>
     fst (generation memory_store 604802 1 stale_store) = Inr (Some (cm_generation sample_material))"
proof -
  obtain k where k: "cache_key toy_runtime sample_material = Inr k" using sample_key by blast
  have ne: "k \<noteq> generation_key (Suc 0)" "generation_key (Suc 0) \<noteq> k" using cache_key_not_counter [OF k, of "Suc 0"] by auto
  note ops = except_unavailable_def thens_def returns_def memory_store_def memory_increment_def live_def memory_set_def memory_get_def Let_def
  have st: "stale_store = Map.empty(k \<mapsto> (''r'', 604859), generation_key 1 \<mapsto> (int_str 1, 1209601))"
    by (simp add: stale_store_def cache_run_def k invalidate_def cache_put_def sample_codec_def GENERATION_TTL_SECONDS_def ops ne fun_upd_twist)
  have "fst (cache_get memory_store sample_codec 604802 k stale_store) = Inr (Some sample_cached)"
    "fst (generation memory_store 604802 1 stale_store) = Inr (Some 1)"
    unfolding st using ne py_int_int_str [of 1] by (simp_all add: cache_get_def generation_def sample_codec_def ops)
  then show ?thesis using k by (simp add: sample_material_def)
qed

end
