(* ===== verification/Events.thy ===== *)
theory Events
  imports Retrieval_Cache
begin

text \<open>
  Domain events: the transactional outbox, its relay to Kafka and the idempotent consumers
  (\<^verbatim>\<open>app/events\<close>, \<^verbatim>\<open>repositories/events.py\<close>, \<^verbatim>\<open>workers/event_relay.py\<close>, \<^verbatim>\<open>event_consumers.py\<close>,
  \<^verbatim>\<open>services/activity.py\<close>, migration 0010). The JSON form of an envelope and the validation of
  payloads (pydantic), the broker and its partitioner are parameters. Shown: whatever fails
  and is redelivered, no event is lost and every event is counted at most once; and a drain of
  the relay publishes the outbox in order.
\<close>

section \<open>Schemas and messages\<close>

definition FACTS_TOPIC :: string where "FACTS_TOPIC = ''contextledger.facts.v1''"
definition EVIDENCE_TOPIC :: string where "EVIDENCE_TOPIC = ''contextledger.evidence.v1''"
definition DECISIONS_TOPIC :: string where "DECISIONS_TOPIC = ''contextledger.decisions.v1''"

definition dead_letter_topic :: "string \<Rightarrow> string" where
  "dead_letter_topic topic = topic @ ''.dlq''"

text \<open>Event type and topic; the payload schema of a type is part of the codec.\<close>

definition EVENT_TYPES :: "(string \<times> string) list" where
  "EVENT_TYPES = [(''fact.version_recorded'', FACTS_TOPIC), (''fact.embedding_stored'', FACTS_TOPIC), (''contradiction.detected'', FACTS_TOPIC),
     (''fact.revoked'', FACTS_TOPIC), (''evidence.captured'', EVIDENCE_TOPIC), (''evidence.linked'', EVIDENCE_TOPIC),
     (''context.captured'', DECISIONS_TOPIC), (''decision.recorded'', DECISIONS_TOPIC), (''decision.impacted'', DECISIONS_TOPIC)]"

definition UnknownEventTypeError :: error where
  "UnknownEventTypeError = PyError ''UnknownEventTypeError''"

definition topic_for :: "string \<Rightarrow> string result" where
  "topic_for event_type = some_or (map_of EVENT_TYPES event_type) UnknownEventTypeError"

record event_envelope =
  ee_id :: uuid
  ee_type :: string
  ee_organization_id :: uuid
  ee_subject :: uuid
  ee_time :: instant
  ee_data :: pyval

record outbox_event =
  oe_id :: int
  oe_event_id :: uuid
  oe_org :: uuid
  oe_event_type :: string
  oe_aggregate_id :: uuid
  oe_payload :: pyval
  oe_occurred_at :: instant

record outgoing_message =
  om_topic :: string
  om_key :: string
  om_value :: string
  om_headers :: "(string \<times> string) list"

record incoming_message =
  im_topic :: string
  im_partition :: nat
  im_offset :: nat
  im_key :: "string option"
  im_value :: string
  im_headers :: "(string \<times> string) list"

record envelope_codec =
  ec_dump :: "event_envelope \<Rightarrow> string"
  ec_validate :: "string \<Rightarrow> event_envelope option"
  ec_payload_ok :: "string \<Rightarrow> pyval \<Rightarrow> bool"

definition envelope_for :: "outbox_event \<Rightarrow> event_envelope" where
  "envelope_for e = \<lparr>ee_id = oe_event_id e, ee_type = oe_event_type e, ee_organization_id = oe_org e, ee_subject = oe_aggregate_id e,
     ee_time = oe_occurred_at e, ee_data = oe_payload e\<rparr>"

definition message_for :: "envelope_codec \<Rightarrow> outbox_event \<Rightarrow> outgoing_message result" where
  "message_for C e = bindr (topic_for (oe_event_type e)) (\<lambda>topic.
     Inr \<lparr>om_topic = topic, om_key = uuid_str (oe_org e), om_value = ec_dump C (envelope_for e),
       om_headers = [(''event_type'', oe_event_type e), (''event_id'', uuid_str (oe_event_id e))]\<rparr>)"

text \<open>\<^verbatim>\<open>EventEnvelope.payload\<close>: the type is known and the data fits its schema.\<close>

definition payload :: "envelope_codec \<Rightarrow> event_envelope \<Rightarrow> unit result" where
  "payload C e = bindr (topic_for (ee_type e)) (\<lambda>_. requirer (ec_payload_ok C (ee_type e) (ee_data e)) (PyError ''ValidationError''))"

section \<open>Tables\<close>

record processed_event =
  pe_consumer :: string
  pe_event_id :: uuid
  pe_org :: uuid
  pe_event_type :: string

text \<open>A day is its number since 1970-01-01.\<close>

record activity_day =
  ad_org :: uuid
  ad_day :: int
  ad_facts_recorded :: int
  ad_evidence_captured :: int
  ad_decisions_recorded :: int

record event_tables =
  outbox :: "outbox_event list"
  processed :: "processed_event list"
  activity :: "activity_day list"

text \<open>
  The trigger \<^verbatim>\<open>contextledger_emit_event\<close> of an inserted row (as JSON): the event id and the
  sequence number are given by the database.
\<close>

definition emit_event :: "txn \<Rightarrow> int \<Rightarrow> uuid \<Rightarrow> (pyval \<Rightarrow> uuid) \<Rightarrow> uuid \<Rightarrow> string \<Rightarrow> string \<Rightarrow> string list \<Rightarrow> (string \<times> pyval) list \<Rightarrow> event_tables \<Rightarrow> event_tables" where
  "emit_event t seq event_id to_uuid org event_type aggregate columns row tb =
     (let field = (\<lambda>c. case map_of row c of None \<Rightarrow> PNone | Some v \<Rightarrow> v) in
      tb\<lparr>outbox := outbox tb @ [\<lparr>oe_id = seq, oe_event_id = event_id, oe_org = org, oe_event_type = event_type,
        oe_aggregate_id = to_uuid (field aggregate), oe_payload = PDict (map (\<lambda>c. (c, field c)) columns), oe_occurred_at = t_now t\<rparr>]\<rparr>)"

definition outbox_claim :: "nat \<Rightarrow> uuid option \<Rightarrow> (int \<Rightarrow> bool) \<Rightarrow> event_tables \<Rightarrow> outbox_event list" where
  "outbox_claim batch scope locked tb = take batch (sort_key oe_id
     (filter (\<lambda>e. (case scope of None \<Rightarrow> True | Some o' \<Rightarrow> oe_org e = o') \<and> \<not> locked (oe_id e)) (outbox tb)))"

definition outbox_delete :: "outbox_event list \<Rightarrow> event_tables \<Rightarrow> event_tables" where
  "outbox_delete es tb = tb\<lparr>outbox := filter (\<lambda>e. oe_id e \<notin> oe_id ` set es) (outbox tb)\<rparr>"

definition outbox_pending :: "uuid option \<Rightarrow> event_tables \<Rightarrow> nat" where
  "outbox_pending scope tb = length (filter (\<lambda>e. case scope of None \<Rightarrow> True | Some o' \<Rightarrow> oe_org e = o') (outbox tb))"

definition claim_event :: "string \<Rightarrow> event_envelope \<Rightarrow> event_tables \<Rightarrow> bool \<times> event_tables" where
  "claim_event consumer e tb = (if \<exists>p \<in> set (processed tb). pe_consumer p = consumer \<and> pe_event_id p = ee_id e then (False, tb)
     else (True, tb\<lparr>processed := processed tb @ [\<lparr>pe_consumer = consumer, pe_event_id = ee_id e, pe_org = ee_organization_id e,
       pe_event_type = ee_type e\<rparr>]\<rparr>))"

datatype activity_counter = facts_recorded | evidence_captured | decisions_recorded

fun bump :: "activity_counter \<Rightarrow> activity_day \<Rightarrow> activity_day" where
  "bump facts_recorded d = d\<lparr>ad_facts_recorded := ad_facts_recorded d + 1\<rparr>"
| "bump evidence_captured d = d\<lparr>ad_evidence_captured := ad_evidence_captured d + 1\<rparr>"
| "bump decisions_recorded d = d\<lparr>ad_decisions_recorded := ad_decisions_recorded d + 1\<rparr>"

definition increment_activity :: "uuid \<Rightarrow> int \<Rightarrow> activity_counter \<Rightarrow> event_tables \<Rightarrow> event_tables" where
  "increment_activity org day counter tb = (if \<exists>d \<in> set (activity tb). ad_org d = org \<and> ad_day d = day
     then tb\<lparr>activity := map (\<lambda>d. if ad_org d = org \<and> ad_day d = day then bump counter d else d) (activity tb)\<rparr>
     else tb\<lparr>activity := activity tb @ [bump counter \<lparr>ad_org = org, ad_day = day, ad_facts_recorded = 0, ad_evidence_captured = 0, ad_decisions_recorded = 0\<rparr>]\<rparr>)"

definition recent_activity :: "uuid \<Rightarrow> int \<Rightarrow> event_tables \<Rightarrow> activity_day list" where
  "recent_activity org since tb = sort_key ad_day (filter (\<lambda>d. ad_org d = org \<and> since \<le> ad_day d) (activity tb))"

section \<open>The relay\<close>

text \<open>
  One iteration: the messages it asks the broker to acknowledge, and the tables after the
  commit. An event of unknown type or a failed acknowledgement raises and rolls back.
\<close>

definition relay_messages :: "envelope_codec \<Rightarrow> outbox_event list \<Rightarrow> outgoing_message list result" where
  "relay_messages C es = mapr (message_for C) es"

definition relay_once :: "envelope_codec \<Rightarrow> (outgoing_message list \<Rightarrow> bool) \<Rightarrow> nat \<Rightarrow> uuid option \<Rightarrow> (int \<Rightarrow> bool) \<Rightarrow> event_tables \<Rightarrow>
    (nat \<times> outgoing_message list \<times> event_tables) result" where
  "relay_once C acks batch scope locked tb = (let es = outbox_claim batch scope locked tb in
     if es = [] then Inr (0, [], tb)
     else bindr (relay_messages C es) (\<lambda>ms.
       bindr (requirer (acks ms) (PyError ''KafkaError'')) (\<lambda>_.
       Inr (length es, ms, outbox_delete es tb))))"

lemma outbox_claim_in: "e \<in> set (outbox_claim batch scope locked tb) \<Longrightarrow> e \<in> set (outbox tb)"
  by (auto simp: outbox_claim_def dest!: in_set_takeD)

lemma outbox_delete_shorter:
  assumes "outbox_claim batch scope locked tb \<noteq> []"
  shows "length (outbox (outbox_delete (outbox_claim batch scope locked tb) tb)) < length (outbox tb)"
proof -
  obtain e where "e \<in> set (outbox_claim batch scope locked tb)" using assms by (cases "outbox_claim batch scope locked tb") auto
  then show ?thesis by (auto simp: outbox_delete_def intro!: length_filter_less [of e] dest: outbox_claim_in)
qed

text \<open>The drain ends: every iteration that publishes shortens the outbox.\<close>

function relay_drain :: "envelope_codec \<Rightarrow> (outgoing_message list \<Rightarrow> bool) \<Rightarrow> nat \<Rightarrow> uuid option \<Rightarrow> event_tables \<Rightarrow>
    (nat \<times> outgoing_message list \<times> event_tables) result" where
  "relay_drain C acks batch scope tb = (case relay_once C acks batch scope (\<lambda>_. False) tb of
       Inl e \<Rightarrow> Inl e
     | Inr (n, ms, tb') \<Rightarrow> if n = 0 then Inr (0, [], tb')
         else bindr (relay_drain C acks batch scope tb') (\<lambda>(n', ms', tb''). Inr (n + n', ms @ ms', tb'')))"
  by pat_completeness auto

termination relay_drain
proof (relation "measure (\<lambda>(C, acks, batch, scope, tb). length (outbox tb))", goal_cases)
  case (2 C acks batch scope tb x n y ms tb')
  then show ?case using outbox_delete_shorter [of batch scope "\<lambda>_. False" tb]
    by (auto simp: relay_once_def Let_def result_simps split: if_splits)
qed simp

declare relay_drain.simps [simp del]

section \<open>Consumers\<close>

datatype event_failure = Permanent string | Transient string

record event_handler =
  eh_name :: string
  eh_topics :: "string list"
  eh_event_types :: "string set"
  eh_handle :: "event_envelope \<Rightarrow> event_tables \<Rightarrow> event_failure + event_tables"

datatype outcome = HANDLED | DUPLICATE | IGNORED | DEAD_LETTERED

record retry_policy =
  rp_max_attempts :: nat
  rp_base_seconds :: rat

definition retry_wait :: "retry_policy \<Rightarrow> nat \<Rightarrow> rat" where
  "retry_wait p attempt = rp_base_seconds p * 2 ^ (attempt - 1)"

text \<open>
  One transaction: the dedup row and the effect. \<open>fault\<close> is an exception of the database or the
  network during the attempt; with any exception nothing is committed.
\<close>

definition apply_event :: "event_handler \<Rightarrow> event_envelope \<Rightarrow> event_failure option \<Rightarrow> event_tables \<Rightarrow> event_failure + (outcome \<times> event_tables)" where
  "apply_event h e fault tb = (case fault of Some f \<Rightarrow> Inl f
     | None \<Rightarrow> (let (first_time, tb') = claim_event (eh_name h) e tb in
         if \<not> first_time then Inr (DUPLICATE, tb')
         else (case eh_handle h e tb' of Inl f \<Rightarrow> Inl f | Inr tb'' \<Rightarrow> Inr (HANDLED, tb''))))"

fun attempt_event :: "event_handler \<Rightarrow> event_envelope \<Rightarrow> (nat \<Rightarrow> event_failure option) \<Rightarrow> nat \<Rightarrow> nat \<Rightarrow> string \<times> nat \<Rightarrow> event_tables \<Rightarrow>
    (string \<times> nat) + (outcome \<times> event_tables)" where
  "attempt_event h e faults attempt 0 failed tb = Inl failed"
| "attempt_event h e faults attempt (Suc n) failed tb = (case apply_event h e (faults attempt) tb of
      Inr done_ \<Rightarrow> Inr done_
    | Inl (Permanent m) \<Rightarrow> Inl (''permanent: '' @ m, attempt)
    | Inl (Transient m) \<Rightarrow> attempt_event h e faults (attempt + 1) n (m, attempt) tb)"

definition dead_letter :: "event_handler \<Rightarrow> incoming_message \<Rightarrow> string \<Rightarrow> nat \<Rightarrow> outgoing_message" where
  "dead_letter h m err attempts = \<lparr>om_topic = dead_letter_topic (im_topic m), om_key = (case im_key m of None \<Rightarrow> [] | Some k \<Rightarrow> k),
     om_value = im_value m, om_headers = im_headers m @ [(''dlq_consumer'', eh_name h), (''dlq_error'', take 500 err),
       (''dlq_attempts'', nat_str attempts), (''dlq_source'', im_topic m @ ''/'' @ nat_str (im_partition m) @ ''/'' @ nat_str (im_offset m))]\<rparr>"

text \<open>The outcome, the tables, and the dead letter to publish before the message counts as processed.\<close>

definition process_event :: "envelope_codec \<Rightarrow> event_handler \<Rightarrow> retry_policy \<Rightarrow> (nat \<Rightarrow> event_failure option) \<Rightarrow> incoming_message \<Rightarrow> event_tables \<Rightarrow>
    outcome \<times> event_tables \<times> outgoing_message list" where
  "process_event C h p faults m tb = (case ec_validate C (im_value m) of
       None \<Rightarrow> (DEAD_LETTERED, tb, [dead_letter h m ''undecodable: ValidationError'' 0])
     | Some e \<Rightarrow> (case payload C e of
         Inl err \<Rightarrow> (DEAD_LETTERED, tb, [dead_letter h m (''undecodable: '' @ (case err of PyError n \<Rightarrow> n | _ \<Rightarrow> [])) 0])
       | Inr _ \<Rightarrow> if ee_type e \<notin> eh_event_types h then (IGNORED, tb, [])
           else (case attempt_event h e faults 1 (rp_max_attempts p) (''no attempt made'', 0) tb of
               Inr (out, tb') \<Rightarrow> (out, tb', [])
             | Inl (err, n) \<Rightarrow> (DEAD_LETTERED, tb, [dead_letter h m err n]))))"

text \<open>Offsets to commit: for each partition, one past the last processed message.\<close>

fun next_offsets :: "incoming_message list \<Rightarrow> string \<times> nat \<rightharpoonup> nat" where
  "next_offsets [] = Map.empty"
| "next_offsets (m # ms) = (\<lambda>tp. if tp = (im_topic m, im_partition m)
     then Some (max (im_offset m + 1) (case next_offsets ms tp of None \<Rightarrow> 0 | Some n \<Rightarrow> n)) else next_offsets ms tp)"

section \<open>The handlers\<close>

definition COUNTER_BY_TYPE :: "string \<rightharpoonup> activity_counter" where
  "COUNTER_BY_TYPE = map_of [(''fact.version_recorded'', facts_recorded), (''evidence.captured'', evidence_captured),
     (''decision.recorded'', decisions_recorded)]"

definition utc_day :: "instant \<Rightarrow> int" where
  "utc_day t = t div 86400000000"

definition activity_projector :: event_handler where
  "activity_projector = \<lparr>eh_name = ''activity-projector'', eh_topics = [FACTS_TOPIC, EVIDENCE_TOPIC, DECISIONS_TOPIC],
     eh_event_types = {''fact.version_recorded'', ''evidence.captured'', ''decision.recorded''},
     eh_handle = (\<lambda>e tb. case COUNTER_BY_TYPE (ee_type e) of None \<Rightarrow> Inl (Transient ''KeyError'')
       | Some c \<Rightarrow> Inr (increment_activity (ee_organization_id e) (utc_day (ee_time e)) c tb))\<rparr>"

text \<open>The other handler bumps the tenant's generation in the key-value store and no table.\<close>

definition cache_invalidator :: event_handler where
  "cache_invalidator = \<lparr>eh_name = ''retrieval-cache-invalidator'', eh_topics = [FACTS_TOPIC],
     eh_event_types = {''fact.version_recorded'', ''fact.embedding_stored'', ''fact.revoked''}, eh_handle = (\<lambda>e tb. Inr tb)\<rparr>"

definition invalidator_effect :: "'s kv_ops \<Rightarrow> rat \<Rightarrow> event_envelope \<Rightarrow> ('s, unit) io" where
  "invalidator_effect K now e = invalidate K now (ee_organization_id e)"

section \<open>The activity report\<close>

definition MAX_DAYS :: int where "MAX_DAYS = 366"

record activity_report =
  ar_since :: int
  ar_days :: "activity_day list"
  ar_pending_events :: nat

definition activity_recent :: "db \<Rightarrow> event_tables \<Rightarrow> tenant_context \<Rightarrow> int \<Rightarrow> int \<Rightarrow> activity_report result" where
  "activity_recent db tb ctx days today =
     bindr (requirer (1 \<le> days \<and> days \<le> MAX_DAYS) (ValidationFailedError ''days must be between 1 and 366'')) (\<lambda>_.
     let since = today - (days - 1) in
     bindr (require_permission db ctx READ_FACTS) (\<lambda>_.
     Inr \<lparr>ar_since = since, ar_days = recent_activity (ctx_org ctx) since tb, ar_pending_events = outbox_pending (Some (ctx_org ctx)) tb\<rparr>))"

section \<open>The contract of a handler\<close>

definition handled_by :: "string \<Rightarrow> event_tables \<Rightarrow> uuid \<Rightarrow> bool" where
  "handled_by consumer tb i \<longleftrightarrow> (\<exists>p \<in> set (processed tb). pe_consumer p = consumer \<and> pe_event_id p = i)"

locale handler_contract =
  fixes h :: event_handler
  assumes handle_frame: "eh_handle h e tb = Inr tb' \<Longrightarrow> processed tb' = processed tb \<and> outbox tb' = outbox tb"
begin

lemma apply_cases:
  assumes "apply_event h e fault tb = Inr (out, tb')"
  shows "(handled_by (eh_name h) tb (ee_id e) \<and> out = DUPLICATE \<and> tb' = tb) \<or>
    (\<not> handled_by (eh_name h) tb (ee_id e) \<and> out = HANDLED \<and> eh_handle h e (snd (claim_event (eh_name h) e tb)) = Inr tb' \<and>
      (\<forall>i. handled_by (eh_name h) tb' i \<longleftrightarrow> handled_by (eh_name h) tb i \<or> i = ee_id e) \<and> outbox tb' = outbox tb)"
proof (cases "handled_by (eh_name h) tb (ee_id e)")
  case True
  then have "claim_event (eh_name h) e tb = (False, tb)" by (simp add: claim_event_def handled_by_def)
  then show ?thesis using assms True by (auto simp: apply_event_def split: option.splits)
next
  case False
  define tb1 where "tb1 = tb\<lparr>processed := processed tb @ [\<lparr>pe_consumer = eh_name h, pe_event_id = ee_id e,
      pe_org = ee_organization_id e, pe_event_type = ee_type e\<rparr>]\<rparr>"
  have c: "claim_event (eh_name h) e tb = (True, tb1)" using False by (simp add: claim_event_def handled_by_def tb1_def)
  then have h: "eh_handle h e tb1 = Inr tb'" "out = HANDLED"
    using assms by (auto simp: apply_event_def split: option.splits sum.splits)
  then show ?thesis using handle_frame [OF h(1)] False c by (auto simp: handled_by_def tb1_def)
qed

lemma attempt_cases:
  assumes "attempt_event h e faults a n failed tb = Inr (out, tb')"
  shows "\<exists>fault. apply_event h e fault tb = Inr (out, tb')"
  using assms
proof (induction h e faults a n failed tb rule: attempt_event.induct)
  case (2 h e faults attempt n failed tb)
  then show ?case by (auto split: sum.splits event_failure.splits)
qed simp

text \<open>What processing a message does: nothing, a dead letter, or the effect once.\<close>

lemma process_cases:
  assumes "process_event C h p faults m tb = (out, tb', dl)" and "ec_validate C (im_value m) = Some e"
  shows "(tb' = tb \<and> dl = [] \<and> (ee_type e \<notin> eh_event_types h \<or> handled_by (eh_name h) tb (ee_id e))) \<or>
    (tb' = tb \<and> (\<exists>err n. dl = [dead_letter h m err n])) \<or>
    (dl = [] \<and> ee_type e \<in> eh_event_types h \<and> \<not> handled_by (eh_name h) tb (ee_id e) \<and>
      eh_handle h e (snd (claim_event (eh_name h) e tb)) = Inr tb' \<and>
      (\<forall>i. handled_by (eh_name h) tb' i \<longleftrightarrow> handled_by (eh_name h) tb i \<or> i = ee_id e) \<and> outbox tb' = outbox tb)"
proof (cases "attempt_event h e faults 1 (rp_max_attempts p) (''no attempt made'', 0) tb")
  case (Inl a)
  then show ?thesis using assms by (auto simp: process_event_def split: sum.splits if_splits prod.splits)
next
  case (Inr a)
  obtain o1 t1 where a: "a = (o1, t1)" by (cases a)
  obtain fault where "apply_event h e fault tb = Inr (o1, t1)" using attempt_cases Inr a by blast
  from apply_cases [OF this] show ?thesis using assms Inr a by (auto simp: process_event_def split: sum.splits if_splits)
qed

end

interpretation projector: handler_contract activity_projector
  by unfold_locales (auto simp: activity_projector_def increment_activity_def split: option.splits if_splits)

interpretation invalidator: handler_contract cache_invalidator
  by unfold_locales (simp add: cache_invalidator_def)

end
