(* ===== verification/Event_Delivery.thy ===== *)
theory Event_Delivery
  imports Events
begin

text \<open>
  The path of an event as a step relation: transactions emit events into the outbox, relays
  publish them (or fail at any point), the activity projector consumes the partitions,
  commits its offsets or restarts and reads again. The invariant gives at-least-once
  delivery and counting exactly once.
\<close>

section \<open>Draining the outbox\<close>

definition in_outbox_scope :: "uuid option \<Rightarrow> outbox_event \<Rightarrow> bool" where
  "in_outbox_scope scope e \<longleftrightarrow> (case scope of None \<Rightarrow> True | Some x \<Rightarrow> oe_org e = x)"

lemma claim_sorted: "outbox_claim batch scope (\<lambda>_. False) tb = take batch (sort_key oe_id (filter (in_outbox_scope scope) (outbox tb)))"
  by (simp add: outbox_claim_def in_outbox_scope_def [abs_def])

lemma filter_take_drop:
  assumes "distinct (map k xs)"
  shows "filter (\<lambda>x. k x \<notin> k ` set (take n xs)) xs = drop n xs"
proof -
  have "distinct (map k (take n xs @ drop n xs))" using assms by simp
  then have "k ` set (take n xs) \<inter> k ` set (drop n xs) = {}" unfolding map_append distinct_append by simp
  then have "filter (\<lambda>x. k x \<notin> k ` set (take n xs)) (drop n xs) = drop n xs" by (intro filter_True) auto
  moreover have "filter (\<lambda>x. k x \<notin> k ` set (take n xs)) (take n xs) = []" by (simp add: filter_empty_conv)
  ultimately show ?thesis by (metis append_Nil append_take_drop_id filter_append)
qed

lemma deleted_rest:
  fixes tb :: event_tables
  assumes "distinct (map oe_id (outbox tb))" and es_def: "es = outbox_claim batch scope (\<lambda>_. False) tb"
  shows "sort_key oe_id (filter (in_outbox_scope scope) (outbox (outbox_delete es tb))) = drop batch (sort_key oe_id (filter (in_outbox_scope scope) (outbox tb)))"
    and "filter (\<lambda>e. \<not> in_outbox_scope scope e) (outbox (outbox_delete es tb)) = filter (\<lambda>e. \<not> in_outbox_scope scope e) (outbox tb)"
    and "distinct (map oe_id (outbox (outbox_delete es tb)))"
proof -
  let ?S = "sort_key oe_id (filter (in_outbox_scope scope) (outbox tb))"
  have es: "es = take batch ?S" by (simp add: es_def claim_sorted)
  have d: "distinct (map oe_id ?S)" unfolding distinct_map_sort_key by (rule distinct_map_filter [OF assms(1)])
  have "sort_key oe_id (filter (in_outbox_scope scope) (outbox (outbox_delete es tb))) = filter (\<lambda>e. oe_id e \<notin> oe_id ` set es) ?S"
    by (simp add: outbox_delete_def filter_sort conj_commute)
  then show "sort_key oe_id (filter (in_outbox_scope scope) (outbox (outbox_delete es tb))) = drop batch ?S"
    using filter_take_drop [OF d] by (simp add: es)
  have mem: "e \<in> set (outbox tb) \<and> in_outbox_scope scope e" if "e \<in> set es" for e using that unfolding es by (auto dest: in_set_takeD)
  have "oe_id e \<notin> oe_id ` set es" if "e \<in> set (outbox tb)" "\<not> in_outbox_scope scope e" for e
    using that mem distinct_map_eqD [OF assms(1) that(1)] by (metis imageE)
  then show "filter (\<lambda>e. \<not> in_outbox_scope scope e) (outbox (outbox_delete es tb)) = filter (\<lambda>e. \<not> in_outbox_scope scope e) (outbox tb)"
    by (auto simp: outbox_delete_def intro: filter_cong)
  show "distinct (map oe_id (outbox (outbox_delete es tb)))" using distinct_map_filter [OF assms(1)] by (simp add: outbox_delete_def)
qed

lemma relay_messages_map: "relay_messages C es = Inr ms \<longleftrightarrow> map (message_for C) es = map Inr ms"
proof
  assume "map (message_for C) es = map Inr ms"
  then show "relay_messages C es = Inr ms"
    unfolding relay_messages_def by (induction es arbitrary: ms) (auto simp: Cons_eq_map_conv)
qed (simp add: relay_messages_def mapr_Inr_map)

lemma relay_messages_total: "\<forall>e \<in> set es. oe_event_type e \<in> fst ` set EVENT_TYPES \<Longrightarrow> \<exists>ms. relay_messages C es = Inr ms"
proof (induction es)
  case (Cons e es)
  then obtain topic where "map_of EVENT_TYPES (oe_event_type e) = Some topic" by (metis list.set_intros(1) map_of_eq_None_iff option.exhaust)
  then show ?case using Cons by (auto simp: relay_messages_def message_for_def topic_for_def)
qed (simp add: relay_messages_def)

text \<open>
  C30. Draining the relay ends and loses nothing: when the broker acknowledges and all event types
  are known, it publishes exactly the events of its scope, each once, in the order of the
  outbox, and leaves the others.
\<close>

theorem relay_drain_publishes:
  assumes "\<forall>ms. acks ms" and "0 < batch" and "distinct (map oe_id (outbox tb))"
    and "\<forall>e \<in> set (outbox tb). oe_event_type e \<in> fst ` set EVENT_TYPES"
  shows "\<exists>ms tb'. relay_drain C acks batch scope tb = Inr (length ms, ms, tb') \<and>
    map Inr ms = map (message_for C) (sort_key oe_id (filter (in_outbox_scope scope) (outbox tb))) \<and>
    outbox tb' = filter (\<lambda>e. \<not> in_outbox_scope scope e) (outbox tb) \<and> processed tb' = processed tb \<and> activity tb' = activity tb"
  using assms(3,4)
proof (induction "length (outbox tb)" arbitrary: tb rule: less_induct)
  case less
  let ?es = "outbox_claim batch scope (\<lambda>_. False) tb" and ?S = "sort_key oe_id (filter (in_outbox_scope scope) (outbox tb))"
  show ?case
  proof (cases "?es = []")
    case True
    then have "?S = []" using assms(2) by (simp add: claim_sorted)
    then have none: "filter (in_outbox_scope scope) (outbox tb) = []" by (metis length_0_conv length_sort)
    have "relay_drain C acks batch scope tb = Inr (0, [], tb)" using True by (subst relay_drain.simps) (simp add: relay_once_def)
    moreover have "filter (\<lambda>e. \<not> in_outbox_scope scope e) (outbox tb) = outbox tb" using none by (simp add: filter_empty_conv)
    ultimately show ?thesis using none by (intro exI [of _ "[]"] exI [of _ tb]) simp
  next
    case False
    let ?tb1 = "outbox_delete ?es tb"
    have sub: "\<forall>e \<in> set ?es. oe_event_type e \<in> fst ` set EVENT_TYPES" using less.prems(2) outbox_claim_in by fast
    then obtain ms1 where ms1: "relay_messages C ?es = Inr ms1" using relay_messages_total by blast
    note rest = deleted_rest [OF less.prems(1), of ?es batch scope, OF refl]
    have types: "\<forall>e \<in> set (outbox ?tb1). oe_event_type e \<in> fst ` set EVENT_TYPES" using less.prems(2) by (simp add: outbox_delete_def)
    obtain ms2 tb' where ih: "relay_drain C acks batch scope ?tb1 = Inr (length ms2, ms2, tb')"
      "map Inr ms2 = map (message_for C) (sort_key oe_id (filter (in_outbox_scope scope) (outbox ?tb1)))"
      "outbox tb' = filter (\<lambda>e. \<not> in_outbox_scope scope e) (outbox ?tb1)" "processed tb' = processed ?tb1" "activity tb' = activity ?tb1"
      using less.hyps [OF outbox_delete_shorter [OF False] rest(3) types] by blast
    have len: "length ms1 = length ?es" using ms1 by (metis length_map relay_messages_map)
    have "relay_drain C acks batch scope tb = Inr (length (ms1 @ ms2), ms1 @ ms2, tb')"
      using False ms1 ih(1) assms(1) len by (subst relay_drain.simps) (simp add: relay_once_def Let_def)
    moreover have "map (message_for C) ?S = map Inr (ms1 @ ms2)"
    proof -
      have "map (message_for C) (take batch ?S @ drop batch ?S) = map Inr ms1 @ map Inr ms2"
        using ms1 ih(2) unfolding relay_messages_map rest(1) map_append by (simp add: claim_sorted)
      then show ?thesis by simp
    qed
    ultimately show ?thesis using ih(3-5) rest(2)
      by (intro exI [of _ "ms1 @ ms2"] exI [of _ tb']) (simp add: outbox_delete_def)
  qed
qed

text \<open>Witness: two events of two tenants, batches of one.\<close>

definition sample_event :: "int \<Rightarrow> outbox_event" where
  "sample_event i = \<lparr>oe_id = i, oe_event_id = nat (500 + i), oe_org = 200, oe_event_type = ''decision.recorded'', oe_aggregate_id = 820,
     oe_payload = PDict [], oe_occurred_at = 40\<rparr>"

definition sample_envelopes :: envelope_codec where
  "sample_envelopes = \<lparr>ec_dump = (\<lambda>e. nat_str (ee_id e)), ec_validate = (\<lambda>s. if s = nat_str 501 then Some (envelope_for (sample_event 1)) else None),
     ec_payload_ok = (\<lambda>_ _. True)\<rparr>"

theorem relay_drain_publishes_witness:
  "\<exists>ms tb'. relay_drain sample_envelopes (\<lambda>_. True) 1 None \<lparr>outbox = [sample_event 2, sample_event 1], processed = [], activity = []\<rparr> = Inr (2, ms, tb') \<and>
     map Inr ms = map (message_for sample_envelopes) [sample_event 1, sample_event 2] \<and> outbox tb' = []"
proof -
  let ?tb = "\<lparr>outbox = [sample_event 2, sample_event 1], processed = [], activity = []\<rparr>"
  have s: "sort_key oe_id (filter (in_outbox_scope None) (outbox ?tb)) = [sample_event 1, sample_event 2]"
    by (simp add: sample_event_def in_outbox_scope_def)
  have "distinct (map oe_id (outbox ?tb))" "\<forall>e \<in> set (outbox ?tb). oe_event_type e \<in> fst ` set EVENT_TYPES"
    by (simp_all add: sample_event_def EVENT_TYPES_def)
  from relay_drain_publishes [OF _ _ this, of "\<lambda>_. True" 1 sample_envelopes None] obtain ms tb' where
    r: "relay_drain sample_envelopes (\<lambda>_. True) 1 None ?tb = Inr (length ms, ms, tb')"
      "map Inr ms = map (message_for sample_envelopes) [sample_event 1, sample_event 2]" "outbox tb' = []"
    unfolding s by (auto simp: in_outbox_scope_def)
  have "length ms = 2" using arg_cong [OF r(2), of length] by simp
  then show ?thesis using r by auto
qed

section \<open>The system\<close>

record event_system =
  ev_tables :: event_tables
  ev_emitted :: "outbox_event list"
  ev_log :: "string \<times> nat \<Rightarrow> outgoing_message list"
  ev_done :: "incoming_message list"
  ev_committed :: "string \<times> nat \<Rightarrow> nat"

text \<open>The broker appends a message to the partition of its key.\<close>

definition append_messages :: "(string \<Rightarrow> nat) \<Rightarrow> outgoing_message list \<Rightarrow> (string \<times> nat \<Rightarrow> outgoing_message list) \<Rightarrow> string \<times> nat \<Rightarrow> outgoing_message list" where
  "append_messages part ms lg tp = lg tp @ filter (\<lambda>m. (om_topic m, part (om_key m)) = tp) ms"

definition message_at :: "string \<times> nat \<Rightarrow> nat \<Rightarrow> outgoing_message \<Rightarrow> incoming_message" where
  "message_at tp k m = \<lparr>im_topic = fst tp, im_partition = snd tp, im_offset = k, im_key = Some (om_key m), im_value = om_value m, im_headers = om_headers m\<rparr>"

definition position :: "event_system \<Rightarrow> string \<times> nat \<Rightarrow> nat" where
  "position s tp = (case next_offsets (ev_done s) tp of None \<Rightarrow> ev_committed s tp | Some n \<Rightarrow> n)"

text \<open>
  An emitted event has a known type, a payload its schema accepts, and new ids; the codec reads
  its envelope back.
\<close>

definition emittable :: "envelope_codec \<Rightarrow> outbox_event list \<Rightarrow> outbox_event \<Rightarrow> bool" where
  "emittable C emitted e \<longleftrightarrow> oe_event_type e \<in> fst ` set EVENT_TYPES \<and> ec_payload_ok C (oe_event_type e) (oe_payload e) \<and>
     ec_validate C (ec_dump C (envelope_for e)) = Some (envelope_for e) \<and> oe_id e \<notin> oe_id ` set emitted \<and> oe_event_id e \<notin> oe_event_id ` set emitted"

inductive event_step :: "envelope_codec \<Rightarrow> (string \<Rightarrow> nat) \<Rightarrow> retry_policy \<Rightarrow> event_system \<Rightarrow> event_system \<Rightarrow> bool" for C part p where
  emit: "emittable C (ev_emitted s) e \<Longrightarrow>
    event_step C part p s (s\<lparr>ev_tables := (ev_tables s)\<lparr>outbox := outbox (ev_tables s) @ [e]\<rparr>, ev_emitted := ev_emitted s @ [e]\<rparr>)"
| relay: "relay_once C acks batch scope locked (ev_tables s) = Inr (n, ms, tb) \<Longrightarrow>
    event_step C part p s (s\<lparr>ev_tables := tb, ev_log := append_messages part ms (ev_log s)\<rparr>)"
| relay_fails: "relay_messages C (outbox_claim batch scope locked (ev_tables s)) = Inr ms \<Longrightarrow> set sent \<subseteq> set ms \<Longrightarrow>
    event_step C part p s (s\<lparr>ev_log := append_messages part sent (ev_log s)\<rparr>)"
| deliver: "\<lbrakk>fst tp \<in> set (eh_topics activity_projector); position s tp < length (ev_log s tp);
      m = message_at tp (position s tp) (ev_log s tp ! position s tp);
      process_event C activity_projector p faults m (ev_tables s) = (out, tb, dl)\<rbrakk> \<Longrightarrow>
    event_step C part p s (s\<lparr>ev_tables := tb, ev_log := append_messages part dl (ev_log s), ev_done := ev_done s @ [m]\<rparr>)"
| unacknowledged: "\<lbrakk>fst tp \<in> set (eh_topics activity_projector); position s tp < length (ev_log s tp);
      m = message_at tp (position s tp) (ev_log s tp ! position s tp);
      process_event C activity_projector p faults m (ev_tables s) = (DEAD_LETTERED, tb, dl)\<rbrakk> \<Longrightarrow>
    event_step C part p s (s\<lparr>ev_log := append_messages part dl (ev_log s), ev_done := []\<rparr>)"
| commit: "event_step C part p s (s\<lparr>ev_committed := position s, ev_done := []\<rparr>)"
| restart: "event_step C part p s (s\<lparr>ev_done := []\<rparr>)"

section \<open>Counters\<close>

fun counter_of :: "activity_counter \<Rightarrow> activity_day \<Rightarrow> int" where
  "counter_of facts_recorded d = ad_facts_recorded d"
| "counter_of evidence_captured d = ad_evidence_captured d"
| "counter_of decisions_recorded d = ad_decisions_recorded d"

definition activity_count :: "event_tables \<Rightarrow> uuid \<Rightarrow> int \<Rightarrow> activity_counter \<Rightarrow> int" where
  "activity_count tb org day c = (case find (\<lambda>d. ad_org d = org \<and> ad_day d = day) (activity tb) of None \<Rightarrow> 0 | Some d \<Rightarrow> counter_of c d)"

lemma bump_keys [simp]: "ad_org (bump c d) = ad_org d" "ad_day (bump c d) = ad_day d"
  by (cases c; simp)+

lemma counter_of_bump: "counter_of c (bump c' d) = counter_of c d + (if c = c' then 1 else 0)"
  by (cases c; cases c') simp_all

lemma find_map_same: "(\<And>x. P (f x) = P x) \<Longrightarrow> find P (map f xs) = map_option f (find P xs)"
  by (induction xs) auto

lemma increment_count:
  "activity_count (increment_activity org day c tb) org' day' c' =
    activity_count tb org' day' c' + (if org' = org \<and> day' = day \<and> c' = c then 1 else 0)"
proof (cases "\<exists>d \<in> set (activity tb). ad_org d = org \<and> ad_day d = day")
  case True
  let ?f = "\<lambda>d. if ad_org d = org \<and> ad_day d = day then bump c d else d"
  have f: "find (\<lambda>d. ad_org d = org' \<and> ad_day d = day') (map ?f (activity tb)) = map_option ?f (find (\<lambda>d. ad_org d = org' \<and> ad_day d = day') (activity tb))"
    by (rule find_map_same) simp
  have act: "activity (increment_activity org day c tb) = map ?f (activity tb)" using True by (simp add: increment_activity_def)
  show ?thesis
  proof (cases "find (\<lambda>d. ad_org d = org' \<and> ad_day d = day') (activity tb)")
    case None
    then have "\<not> (org' = org \<and> day' = day)" using True by (auto simp: find_None)
    then show ?thesis by (auto simp: activity_count_def act f None)
  next
    case (Some d)
    then have "ad_org d = org'" "ad_day d = day'" using find_SomeD [OF Some] by simp_all
    then show ?thesis by (simp add: activity_count_def act f Some counter_of_bump)
  qed
next
  case False
  then have none: "find (\<lambda>d. ad_org d = org \<and> ad_day d = day) (activity tb) = None" by (auto simp: find_None)
  have "counter_of c' \<lparr>ad_org = org, ad_day = day, ad_facts_recorded = 0, ad_evidence_captured = 0, ad_decisions_recorded = 0\<rparr> = 0" by (cases c') simp_all
  then show ?thesis using False none
    by (auto simp: activity_count_def increment_activity_def find_append counter_of_bump split: option.splits)
qed

section \<open>The invariant\<close>

definition counted :: "event_tables \<Rightarrow> outbox_event \<Rightarrow> bool" where
  "counted tb e \<longleftrightarrow> handled_by (eh_name activity_projector) tb (oe_event_id e)"

definition published :: "envelope_codec \<Rightarrow> (string \<Rightarrow> nat) \<Rightarrow> (string \<times> nat \<Rightarrow> outgoing_message list) \<Rightarrow> outbox_event \<Rightarrow> bool" where
  "published C part lg e \<longleftrightarrow> (\<exists>m. message_for C e = Inr m \<and> m \<in> set (lg (om_topic m, part (om_key m))))"

definition dead_lettered :: "(string \<times> nat \<Rightarrow> outgoing_message list) \<Rightarrow> string \<times> nat \<Rightarrow> outgoing_message \<Rightarrow> bool" where
  "dead_lettered lg tp m \<longleftrightarrow> (\<exists>d \<in> set (lg (dead_letter_topic (fst tp), snd tp)). om_value d = om_value m)"

text \<open>A message is settled when its event is not of a counted type, was counted, or has a dead letter.\<close>

definition settled :: "envelope_codec \<Rightarrow> event_system \<Rightarrow> string \<times> nat \<Rightarrow> outgoing_message \<Rightarrow> bool" where
  "settled C s tp m \<longleftrightarrow> (\<exists>e \<in> set (ev_emitted s). message_for C e = Inr m \<and>
     (oe_event_type e \<notin> eh_event_types activity_projector \<or> counted (ev_tables s) e \<or> dead_lettered (ev_log s) tp m))"

definition projected :: "uuid \<Rightarrow> int \<Rightarrow> activity_counter \<Rightarrow> outbox_event \<Rightarrow> bool" where
  "projected org day c e \<longleftrightarrow> oe_org e = org \<and> utc_day (oe_occurred_at e) = day \<and> COUNTER_BY_TYPE (oe_event_type e) = Some c"

definition emitted_ok :: "envelope_codec \<Rightarrow> outbox_event list \<Rightarrow> bool" where
  "emitted_ok C es \<longleftrightarrow> distinct (map oe_id es) \<and> distinct (map oe_event_id es) \<and> (\<forall>e \<in> set es. emittable C [] e)"

definition log_ok :: "envelope_codec \<Rightarrow> (string \<Rightarrow> nat) \<Rightarrow> outbox_event list \<Rightarrow> (string \<times> nat \<Rightarrow> outgoing_message list) \<Rightarrow> bool" where
  "log_ok C part es lg \<longleftrightarrow> (\<forall>tp. fst tp \<in> set (eh_topics activity_projector) \<longrightarrow> (\<forall>m \<in> set (lg tp). tp = (om_topic m, part (om_key m)) \<and> (\<exists>e \<in> set es. message_for C e = Inr m)))"

definition counts_ok :: "outbox_event list \<Rightarrow> event_tables \<Rightarrow> bool" where
  "counts_ok es tb \<longleftrightarrow> (\<forall>org day c. activity_count tb org day c = int (length (filter (\<lambda>e. projected org day c e \<and> counted tb e) es))) \<and>
     (\<forall>i. handled_by (eh_name activity_projector) tb i \<longrightarrow> i \<in> oe_event_id ` set es)"

definition consumed_ok :: "envelope_codec \<Rightarrow> event_system \<Rightarrow> bool" where
  "consumed_ok C s \<longleftrightarrow> (\<forall>tp k. fst tp \<in> set (eh_topics activity_projector) \<longrightarrow> k < position s tp \<or> k < ev_committed s tp \<longrightarrow>
     k < length (ev_log s tp) \<and> settled C s tp (ev_log s tp ! k))"

definition event_inv :: "envelope_codec \<Rightarrow> (string \<Rightarrow> nat) \<Rightarrow> event_system \<Rightarrow> bool" where
  "event_inv C part s \<longleftrightarrow> emitted_ok C (ev_emitted s) \<and> set (outbox (ev_tables s)) \<subseteq> set (ev_emitted s) \<and>
     (\<forall>e \<in> set (ev_emitted s). e \<in> set (outbox (ev_tables s)) \<or> published C part (ev_log s) e) \<and>
     log_ok C part (ev_emitted s) (ev_log s) \<and> counts_ok (ev_emitted s) (ev_tables s) \<and> consumed_ok C s"

text \<open>What only grows.\<close>

definition grows :: "event_system \<Rightarrow> event_system \<Rightarrow> bool" where
  "grows s s' \<longleftrightarrow> set (ev_emitted s) \<subseteq> set (ev_emitted s') \<and> (\<forall>e. counted (ev_tables s) e \<longrightarrow> counted (ev_tables s') e) \<and>
     (\<forall>tp. \<exists>ext. ev_log s' tp = ev_log s tp @ ext)"

lemma settled_grows:
  assumes "settled C s tp m" and "grows s s'"
  shows "settled C s' tp m"
proof -
  have dl: "dead_lettered (ev_log s') tp m" if "dead_lettered (ev_log s) tp m"
  proof -
    obtain ext where "ev_log s' (dead_letter_topic (fst tp), snd tp) = ev_log s (dead_letter_topic (fst tp), snd tp) @ ext"
      using assms(2) unfolding grows_def by blast
    then show ?thesis using that by (auto simp: dead_lettered_def)
  qed
  then show ?thesis using assms unfolding settled_def grows_def by blast
qed

lemma consumed_grows:
  assumes "consumed_ok C s" and g: "grows s s'" and "\<And>tp k. k < position s' tp \<or> k < ev_committed s' tp \<Longrightarrow> k < position s tp \<or> k < ev_committed s tp"
  shows "consumed_ok C s'"
  unfolding consumed_ok_def
proof (intro allI impI)
  fix tp k assume tp: "fst tp \<in> set (eh_topics activity_projector)" and "k < position s' tp \<or> k < ev_committed s' tp"
  then have k: "k < length (ev_log s tp)" "settled C s tp (ev_log s tp ! k)" using assms(1,3) unfolding consumed_ok_def by blast+
  moreover obtain ext where "ev_log s' tp = ev_log s tp @ ext" using g unfolding grows_def by blast
  ultimately show "k < length (ev_log s' tp) \<and> settled C s' tp (ev_log s' tp ! k)" using settled_grows [OF k(2) g] by (simp add: nth_append)
qed

lemma append_grows: "\<exists>ext. append_messages part ms lg tp = lg tp @ ext"
  by (simp add: append_messages_def)

lemma published_append: "published C part lg e \<Longrightarrow> published C part (append_messages part ms lg) e"
  by (auto simp: published_def append_messages_def)

lemma message_for_Inr:
  "message_for C e = Inr m \<Longrightarrow> om_value m = ec_dump C (envelope_for e) \<and> om_key m = uuid_str (oe_org e) \<and> map_of EVENT_TYPES (oe_event_type e) = Some (om_topic m)"
  by (auto simp: message_for_def topic_for_def result_simps)

lemma log_ok_append:
  assumes "log_ok C part es lg" and "\<forall>m \<in> set ms. \<exists>e \<in> set es. message_for C e = Inr m"
  shows "log_ok C part es (append_messages part ms lg)"
  using assms unfolding log_ok_def append_messages_def by auto

lemma relay_events:
  assumes "relay_messages C (outbox_claim batch scope locked tb) = Inr ms" and "set (outbox tb) \<subseteq> E" and "m \<in> set ms"
  shows "\<exists>e \<in> E. message_for C e = Inr m"
proof -
  have "Inr m \<in> set (map (message_for C) (outbox_claim batch scope locked tb))" using assms(1,3) unfolding relay_messages_map by simp
  then show ?thesis using outbox_claim_in assms(2) by fastforce
qed

lemma relayed_event:
  assumes "relay_messages C (outbox_claim batch scope locked tb) = Inr ms" and "e \<in> set (outbox_claim batch scope locked tb)"
  shows "published C part (append_messages part ms lg) e"
proof -
  have "message_for C e \<in> set (map Inr ms)" using assms unfolding relay_messages_map by (metis image_eqI set_map)
  then show ?thesis by (auto simp: published_def append_messages_def)
qed

section \<open>Every step keeps it\<close>

lemma position_same [simp]: "position (s\<lparr>ev_tables := x\<rparr>) = position s" "position (s\<lparr>ev_log := y\<rparr>) = position s" "position (s\<lparr>ev_emitted := z\<rparr>) = position s"
  by (simp_all add: position_def fun_eq_iff split: option.split)

lemma emit_inv:
  assumes inv: "event_inv C part s" and e: "emittable C (ev_emitted s) e"
  shows "event_inv C part (s\<lparr>ev_tables := (ev_tables s)\<lparr>outbox := outbox (ev_tables s) @ [e]\<rparr>, ev_emitted := ev_emitted s @ [e]\<rparr>)" (is "event_inv C part ?s")
proof -
  have tables: "counted (ev_tables ?s) = counted (ev_tables s)" "\<And>org day c. activity_count (ev_tables ?s) org day c = activity_count (ev_tables s) org day c"
    "\<And>i. handled_by (eh_name activity_projector) (ev_tables ?s) i = handled_by (eh_name activity_projector) (ev_tables s) i"
    by (simp_all add: counted_def handled_by_def activity_count_def fun_eq_iff)
  have "\<not> counted (ev_tables s) e" using inv e by (auto simp: event_inv_def counts_ok_def counted_def emittable_def)
  then have "counts_ok (ev_emitted ?s) (ev_tables ?s)" using inv unfolding counts_ok_def tables by (auto simp: event_inv_def counts_ok_def)
  moreover have "emitted_ok C (ev_emitted ?s)" using inv e by (auto simp: event_inv_def emitted_ok_def emittable_def)
  moreover have "consumed_ok C ?s"
    by (rule consumed_grows [of C s]) (use inv tables in \<open>auto simp: event_inv_def grows_def\<close>)
  ultimately show ?thesis using inv by (auto simp: event_inv_def log_ok_def)
qed

lemma relay_inv:
  assumes inv: "event_inv C part s" and run: "relay_once C acks batch scope locked (ev_tables s) = Inr (n, ms, tb)"
  shows "event_inv C part (s\<lparr>ev_tables := tb, ev_log := append_messages part ms (ev_log s)\<rparr>)" (is "event_inv C part ?s")
proof (cases "outbox_claim batch scope locked (ev_tables s) = []")
  case True
  then have "tb = ev_tables s" "ms = []" using run by (simp_all add: relay_once_def)
  moreover from this have "append_messages part ms (ev_log s) = ev_log s" by (simp add: append_messages_def fun_eq_iff)
  ultimately show ?thesis using inv by simp
next
  case False
  let ?es = "outbox_claim batch scope locked (ev_tables s)"
  have ms: "relay_messages C ?es = Inr ms" and tb: "tb = outbox_delete ?es (ev_tables s)"
    using run False by (auto simp: relay_once_def Let_def result_simps)
  have sub: "set (outbox (ev_tables s)) \<subseteq> set (ev_emitted s)" and d: "distinct (map oe_id (ev_emitted s))" using inv by (simp_all add: event_inv_def emitted_ok_def)
  have tables: "counted tb = counted (ev_tables s)" "\<And>org day c. activity_count tb org day c = activity_count (ev_tables s) org day c"
    "\<And>i. handled_by (eh_name activity_projector) tb i = handled_by (eh_name activity_projector) (ev_tables s) i"
    by (simp_all add: tb outbox_delete_def counted_def handled_by_def activity_count_def fun_eq_iff)
  have "e \<in> set (outbox tb) \<or> published C part (append_messages part ms (ev_log s)) e" if e: "e \<in> set (ev_emitted s)" for e
  proof (cases "e \<in> set ?es")
    case True
    then show ?thesis using relayed_event [OF ms] by blast
  next
    case out: False
    have "oe_id e \<notin> oe_id ` set ?es"
    proof
      assume "oe_id e \<in> oe_id ` set ?es"
      then obtain e' where e': "e' \<in> set ?es" "oe_id e = oe_id e'" by blast
      then have "e' \<in> set (ev_emitted s)" using outbox_claim_in [OF e'(1)] sub by blast
      then show False using distinct_map_eqD [OF d e _ e'(2)] e'(1) out by blast
    qed
    then show ?thesis using inv e published_append by (auto simp: event_inv_def tb outbox_delete_def)
  qed
  moreover have "\<forall>m \<in> set ms. \<exists>e \<in> set (ev_emitted s). message_for C e = Inr m" using relay_events [OF ms sub] by blast
  then have "log_ok C part (ev_emitted s) (append_messages part ms (ev_log s))"
    using inv by (intro log_ok_append) (simp_all add: event_inv_def)
  moreover have "consumed_ok C ?s"
    by (rule consumed_grows [of C s]) (use inv tables(1) append_grows in \<open>auto simp: event_inv_def grows_def\<close>)
  moreover have "set (outbox tb) \<subseteq> set (ev_emitted s)" using sub by (auto simp: tb outbox_delete_def)
  moreover have "counts_ok (ev_emitted s) tb" using inv unfolding counts_ok_def tables by (simp add: event_inv_def counts_ok_def)
  ultimately show ?thesis using inv by (simp add: event_inv_def)
qed

lemma relay_fails_inv:
  assumes inv: "event_inv C part s" and ms: "relay_messages C (outbox_claim batch scope locked (ev_tables s)) = Inr ms" and sent: "set sent \<subseteq> set ms"
  shows "event_inv C part (s\<lparr>ev_log := append_messages part sent (ev_log s)\<rparr>)" (is "event_inv C part ?s")
proof -
  have sub: "set (outbox (ev_tables s)) \<subseteq> set (ev_emitted s)" using inv by (simp add: event_inv_def)
  have "\<forall>m \<in> set sent. \<exists>e \<in> set (ev_emitted s). message_for C e = Inr m" using relay_events [OF ms sub] sent by blast
  then have "log_ok C part (ev_emitted s) (append_messages part sent (ev_log s))"
    using inv by (intro log_ok_append) (simp_all add: event_inv_def)
  moreover have "consumed_ok C ?s"
    by (rule consumed_grows [of C s]) (use inv append_grows in \<open>auto simp: event_inv_def grows_def\<close>)
  ultimately show ?thesis using inv published_append by (auto simp: event_inv_def)
qed

lemma next_offsets_snoc: "next_offsets (ms @ [m]) tp = (if tp = (im_topic m, im_partition m)
     then Some (max (im_offset m + 1) (case next_offsets ms tp of None \<Rightarrow> 0 | Some n \<Rightarrow> n)) else next_offsets ms tp)"
  by (induction ms) (auto simp: max.left_commute split: option.splits)

lemma position_deliver:
  assumes "ev_done s' = ev_done s @ [message_at tp (position s tp) m]" and "ev_committed s' = ev_committed s"
  shows "position s' tp' = (if tp' = tp then position s tp + 1 else position s tp')"
  using assms by (auto simp: position_def next_offsets_snoc message_at_def split: option.splits)

lemma dead_topic: "t \<in> set (eh_topics activity_projector) \<Longrightarrow> dead_letter_topic t \<notin> set (eh_topics activity_projector)"
  by (auto simp: activity_projector_def dead_letter_topic_def FACTS_TOPIC_def EVIDENCE_TOPIC_def DECISIONS_TOPIC_def)

text \<open>Processing a message that was published for an emitted event.\<close>

lemma filter_one_more:
  assumes "distinct xs" and "x \<in> set xs" and "\<not> P x"
  shows "length (filter (\<lambda>y. P y \<or> y = x) xs) = Suc (length (filter P xs))"
  using assms
proof (induction xs)
  case (Cons y ys)
  then show ?case
  proof (cases "y = x")
    case True
    then have "filter (\<lambda>z. P z \<or> z = x) ys = filter P ys" using Cons.prems(1) by (intro filter_cong) auto
    then show ?thesis using True Cons.prems(3) by simp
  qed auto
qed simp

lemma projector_effect:
  assumes "eh_handle activity_projector (envelope_for e) (snd (claim_event (eh_name activity_projector) (envelope_for e) tb)) = Inr tb'"
  shows "\<exists>c. COUNTER_BY_TYPE (oe_event_type e) = Some c \<and> (\<forall>org day c'. activity_count tb' org day c' =
    activity_count tb org day c' + (if projected org day c' e then 1 else 0))"
proof -
  let ?tb = "snd (claim_event (eh_name activity_projector) (envelope_for e) tb)"
  obtain c where c: "COUNTER_BY_TYPE (oe_event_type e) = Some c" "tb' = increment_activity (oe_org e) (utc_day (oe_occurred_at e)) c ?tb"
    using assms by (auto simp: activity_projector_def envelope_for_def split: option.splits)
  have "activity_count ?tb = activity_count tb" by (auto simp: claim_event_def activity_count_def fun_eq_iff)
  then show ?thesis using c by (auto simp: increment_count projected_def)
qed

lemma counts_handled:
  assumes ok: "counts_ok es tb" and d: "distinct (map oe_event_id es)" and e: "e \<in> set es" and new: "\<not> counted tb e"
    and run: "eh_handle activity_projector (envelope_for e) (snd (claim_event (eh_name activity_projector) (envelope_for e) tb)) = Inr tb'"
    and ids: "\<forall>i. handled_by (eh_name activity_projector) tb' i \<longleftrightarrow> handled_by (eh_name activity_projector) tb i \<or> i = oe_event_id e"
  shows "counts_ok es tb'"
proof -
  have counted: "counted tb' x \<longleftrightarrow> counted tb x \<or> x = e" if "x \<in> set es" for x
    using ids distinct_map_eqD [OF d that e] by (auto simp: counted_def)
  have "activity_count tb' org day c = int (length (filter (\<lambda>x. projected org day c x \<and> counted tb' x) es))" for org day c
  proof (cases "projected org day c e")
    case True
    have "filter (\<lambda>x. projected org day c x \<and> counted tb' x) es = filter (\<lambda>x. (projected org day c x \<and> counted tb x) \<or> x = e) es"
      by (rule filter_cong) (use True counted in auto)
    then show ?thesis using projector_effect [OF run] ok True new filter_one_more [of es e "\<lambda>x. projected org day c x \<and> counted tb x"] e d
      by (auto simp: counts_ok_def distinct_map)
  next
    case False
    have "filter (\<lambda>x. projected org day c x \<and> counted tb' x) es = filter (\<lambda>x. projected org day c x \<and> counted tb x) es"
      by (rule filter_cong) (use False counted in auto)
    then show ?thesis using projector_effect [OF run] ok False by (auto simp: counts_ok_def)
  qed
  then show ?thesis using ok ids e by (auto simp: counts_ok_def)
qed

lemma event_message:
  assumes "emitted_ok C es" and "e \<in> set es" and "message_for C e = Inr m"
  shows "ec_validate C (om_value m) = Some (envelope_for e)" "ee_type (envelope_for e) = oe_event_type e" "ee_id (envelope_for e) = oe_event_id e"
  using assms message_for_Inr [OF assms(3)] by (auto simp: emitted_ok_def emittable_def envelope_for_def)

lemma append_dead:
  assumes "fst tp \<in> set (eh_topics activity_projector)" "fst tp' \<in> set (eh_topics activity_projector)" and "\<forall>d \<in> set dl. om_topic d = dead_letter_topic (fst tp)"
  shows "append_messages part dl lg tp' = lg tp'"
proof -
  have "filter (\<lambda>d. (om_topic d, part (om_key d)) = tp') dl = []"
    using assms dead_topic [OF assms(1)] by (auto simp: filter_empty_conv)
  then show ?thesis by (simp add: append_messages_def)
qed

lemma processed_message:
  assumes inv: "event_inv C part s" and tp: "fst tp \<in> set (eh_topics activity_projector)" and k: "k < length (ev_log s tp)"
    and run: "process_event C activity_projector p faults (message_at tp k (ev_log s tp ! k)) (ev_tables s) = (out, tb, dl)"
  shows "\<forall>d \<in> set dl. om_topic d = dead_letter_topic (fst tp)" "outbox tb = outbox (ev_tables s)" "counts_ok (ev_emitted s) tb"
    "\<forall>e. counted (ev_tables s) e \<longrightarrow> counted tb e"
    "settled C (s\<lparr>ev_tables := tb, ev_log := append_messages part dl (ev_log s)\<rparr>) tp (ev_log s tp ! k)"
proof -
  let ?om = "ev_log s tp ! k"
  have om: "?om \<in> set (ev_log s tp)" using k by simp
  obtain e where e: "e \<in> set (ev_emitted s)" "message_for C e = Inr ?om" and at: "tp = (om_topic ?om, part (om_key ?om))"
    using inv tp om unfolding event_inv_def log_ok_def by blast
  have ok: "emitted_ok C (ev_emitted s)" "counts_ok (ev_emitted s) (ev_tables s)" using inv by (simp_all add: event_inv_def)
  note msg = event_message [OF ok(1) e]
  have val: "ec_validate C (im_value (message_at tp k ?om)) = Some (envelope_for e)" using msg(1) by (simp add: message_at_def)
  have dead: "om_topic (dead_letter activity_projector (message_at tp k ?om) err n) = dead_letter_topic (fst tp)"
    "om_value (dead_letter activity_projector (message_at tp k ?om) err n) = om_value ?om"
    "om_key (dead_letter activity_projector (message_at tp k ?om) err n) = om_key ?om" for err n
    by (simp_all add: dead_letter_def message_at_def)
  have part: "snd tp = part (om_key ?om)" by (subst at) simp
  have all: "(\<forall>d \<in> set dl. om_topic d = dead_letter_topic (fst tp)) \<and> outbox tb = outbox (ev_tables s) \<and> counts_ok (ev_emitted s) tb \<and>
    (\<forall>e. counted (ev_tables s) e \<longrightarrow> counted tb e) \<and>
    (oe_event_type e \<notin> eh_event_types activity_projector \<or> counted tb e \<or> dead_lettered (append_messages part dl (ev_log s)) tp ?om)"
    using projector.process_cases [OF run val]
  proof (elim disjE conjE exE)
    fix err n assume "tb = ev_tables s" "dl = [dead_letter activity_projector (message_at tp k ?om) err n]"
    then show ?thesis using ok dead part by (simp add: dead_lettered_def append_messages_def)
  next
    assume h: "dl = []" "\<not> handled_by (eh_name activity_projector) (ev_tables s) (ee_id (envelope_for e))"
      "eh_handle activity_projector (envelope_for e) (snd (claim_event (eh_name activity_projector) (envelope_for e) (ev_tables s))) = Inr tb"
      "\<forall>i. handled_by (eh_name activity_projector) tb i \<longleftrightarrow> handled_by (eh_name activity_projector) (ev_tables s) i \<or> i = ee_id (envelope_for e)"
      "outbox tb = outbox (ev_tables s)"
    have "counts_ok (ev_emitted s) tb"
      by (rule counts_handled [OF ok(2) _ e(1) _ h(3)]) (use ok(1) h(2,4) msg(3) in \<open>auto simp: emitted_ok_def counted_def\<close>)
    then show ?thesis using h msg(3) by (simp add: counted_def)
  qed (use ok msg(2,3) in \<open>auto simp: counted_def\<close>)
  then show "\<forall>d \<in> set dl. om_topic d = dead_letter_topic (fst tp)" "outbox tb = outbox (ev_tables s)" "counts_ok (ev_emitted s) tb"
    "\<forall>e. counted (ev_tables s) e \<longrightarrow> counted tb e" by blast+
  show "settled C (s\<lparr>ev_tables := tb, ev_log := append_messages part dl (ev_log s)\<rparr>) tp ?om"
    using all e by (auto simp: settled_def)
qed

lemma dead_log:
  assumes "event_inv C part s" and tp: "fst tp \<in> set (eh_topics activity_projector)" and "\<forall>d \<in> set dl. om_topic d = dead_letter_topic (fst tp)"
  shows "log_ok C part (ev_emitted s) (append_messages part dl (ev_log s))"
  using assms(1) append_dead [OF tp _ assms(3)] by (simp add: event_inv_def log_ok_def)

lemma deliver_inv:
  assumes inv: "event_inv C part s" and tp: "fst tp \<in> set (eh_topics activity_projector)" and k: "position s tp < length (ev_log s tp)"
    and m: "m = message_at tp (position s tp) (ev_log s tp ! position s tp)"
    and run: "process_event C activity_projector p faults m (ev_tables s) = (out, tb, dl)"
  shows "event_inv C part (s\<lparr>ev_tables := tb, ev_log := append_messages part dl (ev_log s), ev_done := ev_done s @ [m]\<rparr>)" (is "event_inv C part ?s")
proof -
  note r = processed_message [OF inv tp k run [unfolded m]]
  have pos: "position ?s tp' = (if tp' = tp then position s tp + 1 else position s tp')" for tp' by (rule position_deliver) (simp_all add: m)
  have grows: "grows s ?s" using r(4) append_grows by (simp add: grows_def)
  have main: "ev_log ?s tp' = ev_log s tp'" if "fst tp' \<in> set (eh_topics activity_projector)" for tp' using append_dead [OF tp that r(1)] by simp
  have old: "k' < length (ev_log s tp') \<and> settled C ?s tp' (ev_log s tp' ! k')"
    if "fst tp' \<in> set (eh_topics activity_projector)" "k' < position s tp' \<or> k' < ev_committed s tp'" for tp' k'
    using inv that settled_grows [OF _ grows] unfolding event_inv_def consumed_ok_def by blast
  have "settled C ?s tp (ev_log s tp ! position s tp)" using r(5) by (simp add: settled_def)
  then have "consumed_ok C ?s"
    unfolding consumed_ok_def using old k main pos by (auto simp: less_Suc_eq)
  then show ?thesis using inv r(2,3) dead_log [OF inv tp r(1)] published_append by (auto simp: event_inv_def)
qed

lemma unacknowledged_inv:
  assumes inv: "event_inv C part s" and tp: "fst tp \<in> set (eh_topics activity_projector)" and k: "position s tp < length (ev_log s tp)"
    and run: "process_event C activity_projector p faults (message_at tp (position s tp) (ev_log s tp ! position s tp)) (ev_tables s) = (out, tb, dl)"
  shows "event_inv C part (s\<lparr>ev_log := append_messages part dl (ev_log s), ev_done := []\<rparr>)" (is "event_inv C part ?s")
proof -
  note r = processed_message [OF inv tp k run]
  have "consumed_ok C ?s"
    by (rule consumed_grows [of C s]) (use inv append_grows in \<open>auto simp: event_inv_def grows_def position_def\<close>)
  then show ?thesis using inv dead_log [OF inv tp r(1)] published_append by (auto simp: event_inv_def)
qed

lemma event_inv_step:
  assumes "event_step C part p s s'" and inv: "event_inv C part s"
  shows "event_inv C part s'"
  using assms(1)
proof cases
  case commit
  have "consumed_ok C s'" by (rule consumed_grows [of C s]) (use inv commit in \<open>auto simp: event_inv_def grows_def position_def\<close>)
  then show ?thesis using inv commit by (simp add: event_inv_def)
next
  case restart
  have "consumed_ok C s'" by (rule consumed_grows [of C s]) (use inv restart in \<open>auto simp: event_inv_def grows_def position_def\<close>)
  then show ?thesis using inv restart by (simp add: event_inv_def)
next
  case (emit e)
  show ?thesis unfolding emit(1) by (rule emit_inv [OF inv emit(2)])
next
  case (relay acks batch scope locked n ms tb)
  show ?thesis unfolding relay(1) by (rule relay_inv [OF inv relay(2)])
next
  case (relay_fails batch scope locked ms sent)
  show ?thesis unfolding relay_fails(1) by (rule relay_fails_inv [OF inv relay_fails(2,3)])
next
  case (deliver tp m faults out tb dl)
  show ?thesis unfolding deliver(1) by (rule deliver_inv [OF inv deliver(2-5)])
next
  case (unacknowledged tp m faults tb dl)
  show ?thesis unfolding unacknowledged(1) by (rule unacknowledged_inv [OF inv unacknowledged(2,3) unacknowledged(5) [unfolded unacknowledged(4)]])
qed

lemma event_inv_reachable:
  assumes "(event_step C part p)\<^sup>*\<^sup>* s s'" and "event_inv C part s"
  shows "event_inv C part s'"
  using assms by (induction rule: rtranclp_induct) (auto intro: event_inv_step)

definition no_events :: event_system where
  "no_events = \<lparr>ev_tables = \<lparr>outbox = [], processed = [], activity = []\<rparr>, ev_emitted = [], ev_log = (\<lambda>_. []), ev_done = [], ev_committed = (\<lambda>_. 0)\<rparr>"

lemma event_inv_init: "event_inv C part no_events"
  by (simp add: event_inv_def no_events_def emitted_ok_def log_ok_def counts_ok_def consumed_ok_def activity_count_def handled_by_def counted_def position_def)

section \<open>At least once, counted once\<close>

text \<open>
  C27. Whatever the interleaving of transactions, relays, broker failures, deliveries, commits and
  restarts: no emitted event is lost (it waits in the outbox or is in its partition), every
  activity counter is the number of the emitted events of its tenant, day and type that the
  projector has handled, each counted once however often it was delivered, and every message
  below a committed offset was counted, is of a type the projector ignores, or has a dead letter.
\<close>

theorem events_counted_once:
  assumes "(event_step C part p)\<^sup>*\<^sup>* no_events s"
  shows "(\<forall>e \<in> set (ev_emitted s). e \<in> set (outbox (ev_tables s)) \<or> published C part (ev_log s) e) \<and>
    (\<forall>org day c. activity_count (ev_tables s) org day c = int (length (filter (\<lambda>e. projected org day c e \<and> counted (ev_tables s) e) (ev_emitted s)))) \<and>
    (\<forall>tp k. fst tp \<in> set (eh_topics activity_projector) \<longrightarrow> k < ev_committed s tp \<longrightarrow>
      k < length (ev_log s tp) \<and> settled C s tp (ev_log s tp ! k))"
proof -
  have inv: "event_inv C part s" by (rule event_inv_reachable [OF assms event_inv_init])
  then have "k < length (ev_log s tp) \<and> settled C s tp (ev_log s tp ! k)"
    if "fst tp \<in> set (eh_topics activity_projector)" "k < ev_committed s tp" for tp k
    using that unfolding event_inv_def consumed_ok_def by blast
  then show ?thesis using inv unfolding event_inv_def counts_ok_def by blast
qed

text \<open>
  Witness: the event is emitted and published, counted, delivered again after a restart (a
  duplicate), and the offset is committed: the day's counter is 1.
\<close>

definition sample_run :: "event_tables \<Rightarrow> outbox_event list \<Rightarrow> outgoing_message list \<Rightarrow> incoming_message list \<Rightarrow> nat \<Rightarrow> event_system" where
  "sample_run tb emitted ms dn k = \<lparr>ev_tables = tb, ev_emitted = emitted, ev_log = append_messages (\<lambda>_. 0) ms (\<lambda>_. []), ev_done = dn,
     ev_committed = (\<lambda>tp. if tp = (DECISIONS_TOPIC, 0) then k else 0)\<rparr>"

definition sample_message :: outgoing_message where
  "sample_message = \<lparr>om_topic = DECISIONS_TOPIC, om_key = uuid_str 200, om_value = nat_str 501,
     om_headers = [(''event_type'', ''decision.recorded''), (''event_id'', uuid_str 501)]\<rparr>"

definition sample_counted :: event_tables where
  "sample_counted = \<lparr>outbox = [], processed = [\<lparr>pe_consumer = ''activity-projector'', pe_event_id = 501, pe_org = 200, pe_event_type = ''decision.recorded''\<rparr>],
     activity = [\<lparr>ad_org = 200, ad_day = 0, ad_facts_recorded = 0, ad_evidence_captured = 0, ad_decisions_recorded = 1\<rparr>]\<rparr>"

abbreviation sample_delivery :: incoming_message where
  "sample_delivery \<equiv> message_at (DECISIONS_TOPIC, 0) 0 sample_message"

lemma sample_message_for: "message_for sample_envelopes (sample_event 1) = Inr sample_message"
  by (simp add: message_for_def topic_for_def EVENT_TYPES_def sample_event_def sample_envelopes_def sample_message_def envelope_for_def)

lemma sample_process:
  "process_event sample_envelopes activity_projector \<lparr>rp_max_attempts = 1, rp_base_seconds = 1\<rparr> (\<lambda>_. None) sample_delivery \<lparr>outbox = [], processed = [], activity = []\<rparr> =
     (HANDLED, sample_counted, [])"
  "process_event sample_envelopes activity_projector \<lparr>rp_max_attempts = 1, rp_base_seconds = 1\<rparr> (\<lambda>_. None) sample_delivery sample_counted =
     (DUPLICATE, sample_counted, [])"
  by (simp_all add: process_event_def message_at_def sample_message_def sample_envelopes_def payload_def topic_for_def EVENT_TYPES_def envelope_for_def
    sample_event_def activity_projector_def apply_event_def claim_event_def COUNTER_BY_TYPE_def increment_activity_def utc_day_def sample_counted_def Let_def)

lemma sample_log: "append_messages (\<lambda>_. 0) [sample_message] (\<lambda>_. []) (DECISIONS_TOPIC, 0) = [sample_message]"
  by (simp add: append_messages_def sample_message_def)

lemma append_none [simp]: "append_messages part [] lg = lg"
  by (simp add: append_messages_def fun_eq_iff)

lemma sample_deliver:
  assumes "process_event sample_envelopes activity_projector p faults sample_delivery tb = (out, tb', [])"
  shows "event_step sample_envelopes (\<lambda>_. 0) p (sample_run tb es [sample_message] [] 0) (sample_run tb' es [sample_message] [sample_delivery] 0)"
proof -
  have "position (sample_run tb es [sample_message] [] 0) (DECISIONS_TOPIC, 0) = 0" by (simp add: position_def sample_run_def)
  then show ?thesis
    using event_step.deliver [of "(DECISIONS_TOPIC, 0)" "sample_run tb es [sample_message] [] 0" sample_delivery sample_envelopes p faults out tb' "[]" "\<lambda>_. 0"] assms
    by (simp add: sample_run_def sample_log activity_projector_def)
qed

lemma sample_reachable:
  "(event_step sample_envelopes (\<lambda>_. 0) \<lparr>rp_max_attempts = 1, rp_base_seconds = 1\<rparr>)\<^sup>*\<^sup>* no_events
     (sample_run sample_counted [sample_event 1] [sample_message] [] 1)"
proof -
  let ?R = "event_step sample_envelopes (\<lambda>_. 0) \<lparr>rp_max_attempts = 1, rp_base_seconds = 1\<rparr>"
  let ?out = "\<lparr>outbox = [sample_event 1], processed = [], activity = []\<rparr>" and ?sent = "\<lparr>outbox = [], processed = [], activity = []\<rparr>"
  have start: "no_events = sample_run ?sent [] [] [] 0" by (simp add: no_events_def sample_run_def)
  have e: "emittable sample_envelopes [] (sample_event 1)"
    by (simp add: emittable_def sample_envelopes_def sample_event_def EVENT_TYPES_def envelope_for_def)
  have "?R\<^sup>*\<^sup>* no_events (sample_run ?out [sample_event 1] [] [] 0)"
    using event_step.emit [of sample_envelopes no_events "sample_event 1"] e unfolding start by (intro r_into_rtranclp) (simp add: sample_run_def)
  also have "?R\<^sup>*\<^sup>* \<dots> (sample_run ?sent [sample_event 1] [sample_message] [] 0)"
    using event_step.relay [of sample_envelopes "\<lambda>_. True" 1 None "\<lambda>_. False" "sample_run ?out [sample_event 1] [] [] 0" 1 "[sample_message]" ?sent]
    by (intro r_into_rtranclp) (simp add: sample_run_def relay_once_def outbox_claim_def relay_messages_def sample_message_for outbox_delete_def Let_def)
  also have "?R\<^sup>*\<^sup>* \<dots> (sample_run sample_counted [sample_event 1] [sample_message] [sample_delivery] 0)" by (intro r_into_rtranclp sample_deliver [OF sample_process(1)])
  also have "?R\<^sup>*\<^sup>* \<dots> (sample_run sample_counted [sample_event 1] [sample_message] [] 0)"
    using event_step.restart [of sample_envelopes "\<lambda>_. 0" _ "sample_run sample_counted [sample_event 1] [sample_message] [sample_delivery] 0"] by (intro r_into_rtranclp) (simp add: sample_run_def)
  also have "?R\<^sup>*\<^sup>* \<dots> (sample_run sample_counted [sample_event 1] [sample_message] [sample_delivery] 0)" by (intro r_into_rtranclp sample_deliver [OF sample_process(2)])
  also have "?R\<^sup>*\<^sup>* \<dots> (sample_run sample_counted [sample_event 1] [sample_message] [] 1)"
  proof -
    let ?s = "sample_run sample_counted [sample_event 1] [sample_message] [sample_delivery] 0"
    have "position ?s = (\<lambda>tp. if tp = (DECISIONS_TOPIC, 0) then 1 else 0)"
      by (auto simp: position_def sample_run_def message_at_def fun_eq_iff)
    then show ?thesis using event_step.commit [of sample_envelopes "\<lambda>_. 0" _ ?s] by (intro r_into_rtranclp) (simp add: sample_run_def del: One_nat_def)
  qed
  finally show ?thesis .
qed

theorem events_counted_once_witness:
  "activity_count sample_counted 200 0 decisions_recorded = int (length (filter (\<lambda>e. projected 200 0 decisions_recorded e \<and> counted sample_counted e) [sample_event 1])) \<and>
   activity_count sample_counted 200 0 decisions_recorded = 1 \<and> published sample_envelopes (\<lambda>_. 0) (ev_log (sample_run sample_counted [sample_event 1] [sample_message] [] 1)) (sample_event 1) \<and>
   settled sample_envelopes (sample_run sample_counted [sample_event 1] [sample_message] [] 1) (DECISIONS_TOPIC, 0) sample_message"
proof -
  let ?s = "sample_run sample_counted [sample_event 1] [sample_message] [] 1"
  have s: "ev_emitted ?s = [sample_event 1]" "ev_tables ?s = sample_counted" "outbox sample_counted = []" "ev_committed ?s (DECISIONS_TOPIC, 0) = 1"
    "ev_log ?s (DECISIONS_TOPIC, 0) = [sample_message]" "DECISIONS_TOPIC \<in> set (eh_topics activity_projector)"
    by (simp_all add: sample_run_def sample_counted_def sample_log activity_projector_def)
  note r = events_counted_once [OF sample_reachable]
  have "published sample_envelopes (\<lambda>_. 0) (ev_log ?s) (sample_event 1)" using r unfolding s(1-3) by simp
  moreover have "activity_count sample_counted 200 0 decisions_recorded = int (length (filter (\<lambda>e. projected 200 0 decisions_recorded e \<and> counted sample_counted e) [sample_event 1]))"
    using r unfolding s(1,2) by blast
  moreover have "settled sample_envelopes ?s (DECISIONS_TOPIC, 0) sample_message"
    using r [THEN conjunct2, THEN conjunct2, rule_format, of "(DECISIONS_TOPIC, 0)" 0] s(4,5,6) by (simp del: One_nat_def)
  moreover have "activity_count sample_counted 200 0 decisions_recorded = 1" by (simp add: activity_count_def sample_counted_def)
  ultimately show ?thesis by simp
qed

end
