(* ===== verification/Spec2Isabelle.thy ===== *)
theory Spec2Isabelle
  imports Ledger_Trace Receipt_Integrity Idempotency Embedding_Drain Answers Event_Delivery
begin

text \<open>
  ContextLedger (\<^verbatim>\<open>src/backend/app\<close>) is a multi-tenant service that records facts in two times,
  when they hold and when they were recorded, with the evidence for them, and the decisions taken on
  them. This development models its services, their tables, the short-lived shared state in Redis and
  the background workers. File names below are relative to \<^verbatim>\<open>src/backend/app\<close>.

  \<^bold>\<open>How the parts interact.\<close> Every request carries a tenant context. A service operation opens one
  PostgreSQL transaction, checks the permission of the caller's current membership, reads and writes
  through repositories and commits, or raises and rolls back. Facts form chains of versions; retrieval
  ranks the versions a caller may see; a captured context freezes a ranking; a decision cites facts of
  a context and is sealed by a hash; a revocation lists the decisions it affects; contradictions are
  found by a rule at each write and by a language model on request; answers are written by a
  language model from retrieved facts. Triggers write an event for each change into an outbox, a
  relay publishes the outbox to Kafka, and consumers count activity and invalidate the cache of
  search results. A worker computes the embeddings of versions through a job queue.

  \<^bold>\<open>The model.\<close> A table is a list of row records (\<^verbatim>\<open>Schema\<close>, from \<^verbatim>\<open>models/\<close>), the tables together the
  record \<open>db\<close>; a constraint, default or trigger of \<^verbatim>\<open>migrations/\<close> is part of the insertion or update
  that meets it. An operation is a function from its arguments and \<open>db\<close> to \<open>Inl\<close> an error, the
  transaction rolled back, or \<open>Inr\<close> a result and the tables after the commit. The record \<open>txn\<close> supplies
  what a database or a library makes up: the start of the transaction, the clock, new identifiers.
  Instants are integers in microseconds, identifiers naturals, floats rationals. Operations on the
  key-value store pass its state explicitly, and a failing store is a result. Code outside the
  repository is a parameter: SHA-256 and the texts of floats and decimals (\<open>runtime\<close>), the ranking of
  the full-text search and of the vector index (\<open>engine\<close>), embedding and language-model providers,
  pydantic codecs, the Kafka partitioner. What a theorem needs of them is a named hypothesis, and a
  witness instantiates it.

  \<^bold>\<open>Theories.\<close>
  \<^item> \<^verbatim>\<open>Ledger_Prelude\<close>: identifiers, errors (\<^verbatim>\<open>domain/errors.py\<close>), sequencing of fallible steps, list lemmas.
    \<^verbatim>\<open>Py_Text\<close>, \<^verbatim>\<open>Py_Values\<close>, \<^verbatim>\<open>Py_Json\<close>, \<^verbatim>\<open>Py_Dates\<close>: what the sources use of Python's \<^verbatim>\<open>str\<close>, \<^verbatim>\<open>re\<close>, \<^verbatim>\<open>datetime\<close>,
    \<^verbatim>\<open>decimal\<close> and \<^verbatim>\<open>json\<close>, with the round trips of JSON texts and of ISO dates.
  \<^item> \<^verbatim>\<open>Transactions\<close>: the contracts of transactions as locales (an invariant kept, a relation that
    evolves, a tenant's view left alone), interpreted in \<^verbatim>\<open>Tenancy\<close> and \<^verbatim>\<open>Ledger_Trace\<close>.
  \<^item> \<^verbatim>\<open>Validation\<close> (\<^verbatim>\<open>domain/validation.py\<close>): normalisers are idempotent and bounded.
  \<^item> \<^verbatim>\<open>Tenancy\<close> (\<^verbatim>\<open>domain/roles.py\<close>, \<^verbatim>\<open>domain/tenancy.py\<close>, \<^verbatim>\<open>services/authorization.py\<close>, \<^verbatim>\<open>tenancy.py\<close>, \<^verbatim>\<open>users.py\<close>,
    \<^verbatim>\<open>organizations.py\<close>, \<^verbatim>\<open>memberships.py\<close>): who passes a permission check; an organization keeps an ADMIN.
  \<^item> \<^verbatim>\<open>Fact_Rules\<close>, \<^verbatim>\<open>Fact_Store\<close>, \<^verbatim>\<open>Facts\<close> (\<^verbatim>\<open>domain/facts.py\<close>, \<^verbatim>\<open>domain/contradictions.py\<close>, \<^verbatim>\<open>repositories/facts.py\<close>,
    \<^verbatim>\<open>services/facts.py\<close>, migration 0003): the write path keeps the version chains numbered and disjoint
    in valid time, has exactly the stated effect and never violates a constraint.
  \<^item> \<^verbatim>\<open>Temporal_Reference\<close>, \<^verbatim>\<open>Temporal\<close> (\<^verbatim>\<open>temporal/\<close>, \<^verbatim>\<open>repositories/temporal.py\<close>, \<^verbatim>\<open>services/temporal.py\<close>): the reference
    semantics gives every question one right answer, and the SQL conditions refine it.
  \<^item> \<^verbatim>\<open>Evidence\<close> (\<^verbatim>\<open>domain/evidence.py\<close>, \<^verbatim>\<open>repositories/evidence.py\<close>, \<^verbatim>\<open>services/evidence.py\<close>).
  \<^item> \<^verbatim>\<open>Retrieval_Rules\<close>, \<^verbatim>\<open>Retrieval\<close> (\<^verbatim>\<open>domain/retrieval.py\<close>, \<^verbatim>\<open>repositories/retrieval.py\<close>, \<^verbatim>\<open>services/retrieval.py\<close>): the
    fused ranking, and that a search returns only what its caller may see.
  \<^item> \<^verbatim>\<open>Decisions\<close>, \<^verbatim>\<open>Receipt_Integrity\<close> (\<^verbatim>\<open>domain/decisions.py\<close>, \<^verbatim>\<open>repositories/decisions.py\<close>, \<^verbatim>\<open>services/decisions.py\<close>):
    contexts, sealed decisions, receipts with redaction, and the hash as evidence of tampering.
  \<^item> \<^verbatim>\<open>Revocations\<close>, \<^verbatim>\<open>Contradictions\<close> (\<^verbatim>\<open>services/revocations.py\<close>, \<^verbatim>\<open>services/contradictions.py\<close>): when they succeed,
    exactly what they record and who sees it, whatever a language model writes.
  \<^item> \<^verbatim>\<open>Ledger_Trace\<close>: all write operations above, in any sequence, by any tenants: one invariant of all
    tables, tenants isolated, what was known stays known, receipts verify for ever.
  \<^item> \<^verbatim>\<open>Kv_Store\<close>, \<^verbatim>\<open>Idempotency\<close>, \<^verbatim>\<open>Retrieval_Cache\<close> (\<^verbatim>\<open>cache/\<close>): the store as an interface (locale \<open>kv_store\<close>) with
    the in-process store as its interpretation; the rate limiter, single-use OAuth states, idempotent
    requests with several clients interleaved, and the soundness of a cache hit.
  \<^item> \<^verbatim>\<open>Embedding_Jobs\<close>, \<^verbatim>\<open>Embedding_Drain\<close> (\<^verbatim>\<open>domain/embeddings.py\<close>, \<^verbatim>\<open>repositories/embeddings.py\<close>, \<^verbatim>\<open>workers/embeddings.py\<close>):
    leases with several workers that may die, and that a drain embeds everything in its scope.
  \<^item> \<^verbatim>\<open>Answers\<close> (\<^verbatim>\<open>ai/grounding.py\<close>, \<^verbatim>\<open>services/answers.py\<close>): an answer cites only facts the caller may see.
  \<^item> \<^verbatim>\<open>Events\<close>, \<^verbatim>\<open>Event_Delivery\<close> (\<^verbatim>\<open>events/\<close>, \<^verbatim>\<open>repositories/events.py\<close>, \<^verbatim>\<open>workers/event_relay.py\<close>, \<^verbatim>\<open>event_consumers.py\<close>,
    \<^verbatim>\<open>services/activity.py\<close>, migration 0010): no event is lost and each is counted once, whatever fails.

  \<^bold>\<open>Concurrency.\<close> A transaction of a service is atomic: the sources take row locks and run under
  constraints that the model checks, so requests are sequences of committed or rolled-back steps.
  Where the code runs between transactions (the idempotency middleware, the embedding workers, the relay
  and the consumers) an inductive step relation interleaves the steps, with failures anywhere.

  \<^bold>\<open>Termination and bounds.\<close> All definitions are total. The JSON reader has fuel \<open>2 * length s + 2\<close>, which
  suffices because each nested call consumes a character and each element costs at most one call more;
  the round trips show it. The drain of the relay and the chunking of batches end by measures on the
  outbox and on the batch. The drain of the embedding worker counts down batches, and its theorem
  states that enough of them embed every version.

  \<^bold>\<open>Not modelled.\<close> Texts are over Latin-1; floats are exact. HTTP routing and schemas, the MCP server, token
  checking, the clients of language models and the prompts, the projection into Neo4j, evaluation,
  configuration, logging, metrics, tracing, supervision loops and command lines: they are I/O or
  libraries around the operations above.
\<close>

end
